(* ===== verification/Prelude.thy ===== *)
theory Prelude
  imports Main "HOL-Library.Word" "HOL-Library.Sublist"
begin

section \<open>Shared types, string operations and reachability\<close>

text \<open>
  What every component of the model shares: the machine integer types, the
  operations of Rust's \<open>str\<close> the code uses (strings are byte strings, a
  \<^typ>\<open>char\<close> is one byte of UTF-8), decimal formatting, the outcome of a
  call under \<open>tokio::time::timeout\<close>, and reachability of a step relation with
  the locale that turns an inductive invariant into a fact about every
  reachable state.
\<close>

named_theorems str_simps \<open>normal forms of the byte string operations\<close>
named_theorems ascii_simps \<open>facts about ASCII character classes and lower-casing\<close>

type_synonym byte = "8 word"
type_synonym bytes = "8 word list"
type_synonym u16 = "16 word"
type_synonym u32 = "32 word"
type_synonym u64 = "64 word"

subsection \<open>ASCII characters\<close>

definition ascii_upper :: "char \<Rightarrow> bool" where
  "ascii_upper c \<longleftrightarrow> 65 \<le> (of_char c :: nat) \<and> (of_char c :: nat) \<le> 90"

definition ascii_lower :: "char \<Rightarrow> bool" where
  "ascii_lower c \<longleftrightarrow> 97 \<le> (of_char c :: nat) \<and> (of_char c :: nat) \<le> 122"

definition ascii_digit :: "char \<Rightarrow> bool" where
  "ascii_digit c \<longleftrightarrow> 48 \<le> (of_char c :: nat) \<and> (of_char c :: nat) \<le> 57"

definition ascii_alphanumeric :: "char \<Rightarrow> bool" where
  "ascii_alphanumeric c \<longleftrightarrow> ascii_upper c \<or> ascii_lower c \<or> ascii_digit c"

definition lower_char :: "char \<Rightarrow> char" where
  "lower_char c = (if ascii_upper c then char_of (of_char c + 32 :: nat) else c)"

definition to_ascii_lowercase :: "string \<Rightarrow> string" where
  "to_ascii_lowercase s = map lower_char s"

text \<open>The characters a canonical DNS host name may contain.\<close>

definition dns_char :: "char \<Rightarrow> bool" where
  "dns_char c \<longleftrightarrow> ascii_lower c \<or> ascii_digit c \<or> c = CHR ''.'' \<or> c = CHR ''-''"

lemma of_char_lower_char:
  "(of_char (lower_char c) :: nat) = (if ascii_upper c then of_char c + 32 else of_char c)"
  by (auto simp: lower_char_def ascii_upper_def)

lemma ascii_upper_lower_char [ascii_simps]: "\<not> ascii_upper (lower_char c)"
  unfolding ascii_upper_def of_char_lower_char by (auto simp: ascii_upper_def)

lemma lower_char_id [ascii_simps]: "\<not> ascii_upper c \<Longrightarrow> lower_char c = c"
  by (simp add: lower_char_def)

lemma lower_char_idem [ascii_simps]: "lower_char (lower_char c) = lower_char c"
  by (rule lower_char_id) (rule ascii_upper_lower_char)

lemma ascii_lower_not_upper [ascii_simps]: "ascii_lower c \<Longrightarrow> \<not> ascii_upper c"
  by (auto simp: ascii_lower_def ascii_upper_def)

lemma ascii_digit_not_upper [ascii_simps]: "ascii_digit c \<Longrightarrow> \<not> ascii_upper c"
  by (auto simp: ascii_digit_def ascii_upper_def)

lemma not_upper_dot [ascii_simps]: "\<not> ascii_upper CHR ''.''"
  by (simp add: ascii_upper_def)

lemma not_upper_hyphen [ascii_simps]: "\<not> ascii_upper CHR ''-''"
  by (simp add: ascii_upper_def)

lemma lower_char_eq_dot [ascii_simps]: "lower_char c = CHR ''.'' \<longleftrightarrow> c = CHR ''.''"
proof
  assume eq: "lower_char c = CHR ''.''"
  have "(of_char (lower_char c) :: nat) = 46" by (simp add: eq)
  then have "\<not> ascii_upper c"
    unfolding of_char_lower_char by (auto simp: ascii_upper_def split: if_splits)
  then show "c = CHR ''.''" using eq by (simp add: lower_char_def)
qed (simp add: lower_char_id not_upper_dot)

lemma dns_char_not_upper [ascii_simps]: "dns_char c \<Longrightarrow> \<not> ascii_upper c"
  by (auto simp: dns_char_def ascii_simps)

lemma length_to_ascii_lowercase [simp]: "length (to_ascii_lowercase s) = length s"
  by (simp add: to_ascii_lowercase_def)

lemma to_ascii_lowercase_idem [ascii_simps]:
  "to_ascii_lowercase (to_ascii_lowercase s) = to_ascii_lowercase s"
  by (simp add: to_ascii_lowercase_def ascii_simps)

lemma to_ascii_lowercase_append [ascii_simps]:
  "to_ascii_lowercase (s @ t) = to_ascii_lowercase s @ to_ascii_lowercase t"
  by (simp add: to_ascii_lowercase_def)

lemma to_ascii_lowercase_id:
  "(\<And>c. c \<in> set s \<Longrightarrow> \<not> ascii_upper c) \<Longrightarrow> to_ascii_lowercase s = s"
  by (simp add: to_ascii_lowercase_def map_idI lower_char_id)

lemma to_ascii_lowercase_eq_Nil [simp]: "to_ascii_lowercase s = [] \<longleftrightarrow> s = []"
  by (simp add: to_ascii_lowercase_def)

subsection \<open>Trimming, suffixes, splitting, searching\<close>

text \<open>\<open>str::trim_end_matches\<close> for one character.\<close>

definition trim_end_char :: "char \<Rightarrow> string \<Rightarrow> string" where
  "trim_end_char x s = rev (dropWhile (\<lambda>c. c = x) (rev s))"

lemma trim_end_char_Nil [simp]: "trim_end_char x [] = []"
  by (simp add: trim_end_char_def)

lemma trim_end_char_snoc [str_simps]:
  "trim_end_char x (s @ [c]) = (if c = x then trim_end_char x s else s @ [c])"
  by (simp add: trim_end_char_def)

lemma trim_end_char_decomp: "\<exists>n. s = trim_end_char x s @ replicate n x"
proof (induction s rule: rev_induct)
  case Nil
  then show ?case by simp
next
  case (snoc c s)
  then obtain n where n: "s = trim_end_char x s @ replicate n x" by blast
  show ?case
  proof (cases "c = x")
    case True
    have "s @ [c] = trim_end_char x (s @ [c]) @ replicate (Suc n) x"
      using n True by (metis append_assoc replicate_Suc replicate_append_same trim_end_char_snoc)
    then show ?thesis by blast
  next
    case False
    then show ?thesis by (auto simp: str_simps intro: exI [of _ 0])
  qed
qed

lemma trim_end_char_not_end: "trim_end_char x s \<noteq> [] \<Longrightarrow> last (trim_end_char x s) \<noteq> x"
  by (induction s rule: rev_induct) (auto simp: str_simps)

lemma trim_end_char_id: "s = [] \<or> last s \<noteq> x \<Longrightarrow> trim_end_char x s = s"
  by (induction s rule: rev_induct) (auto simp: str_simps)

lemma trim_end_char_idem [str_simps]: "trim_end_char x (trim_end_char x s) = trim_end_char x s"
  using trim_end_char_not_end trim_end_char_id by blast

lemma set_trim_end_char: "set (trim_end_char x s) \<subseteq> set s"
  by (induction s rule: rev_induct) (auto simp: str_simps)

lemma trim_end_dot_lowercase [ascii_simps]:
  "trim_end_char CHR ''.'' (to_ascii_lowercase s) = to_ascii_lowercase (trim_end_char CHR ''.'' s)"
  by (induction s rule: rev_induct)
     (auto simp: str_simps ascii_simps to_ascii_lowercase_def)

lemma trim_end_char_append_same [str_simps]:
  "trim_end_char x (s @ replicate n x) = trim_end_char x s"
  by (induction n) (simp_all add: replicate_append_same [symmetric] str_simps flip: append_assoc)

text \<open>\<open>str::strip_suffix\<close>; \<open>ends_with\<close> is \<^const>\<open>suffix\<close> with its arguments swapped.\<close>

definition ends_with :: "string \<Rightarrow> string \<Rightarrow> bool" where
  "ends_with s e \<longleftrightarrow> suffix e s"

definition strip_suffix :: "string \<Rightarrow> string \<Rightarrow> string option" where
  "strip_suffix s e = (if ends_with s e then Some (take (length s - length e) s) else None)"

definition starts_with :: "string \<Rightarrow> string \<Rightarrow> bool" where
  "starts_with s p \<longleftrightarrow> prefix p s"

lemma ends_with_iff [str_simps]: "ends_with s e \<longleftrightarrow> (\<exists>r. s = r @ e)"
  by (auto simp: ends_with_def suffix_def)

lemma strip_suffix_Some_iff [str_simps]: "strip_suffix s e = Some r \<longleftrightarrow> s = r @ e"
  by (auto simp: strip_suffix_def ends_with_def suffix_def)

lemma strip_suffix_None_iff [str_simps]: "strip_suffix s e = None \<longleftrightarrow> \<not> suffix e s"
  by (auto simp: strip_suffix_def ends_with_def)

text \<open>\<open>str::split\<close> on one character: the parts between its occurrences, at least one.\<close>

fun split_on :: "char \<Rightarrow> string \<Rightarrow> string list" where
  "split_on x [] = [[]]"
| "split_on x (c # cs) =
     (if c = x then [] # split_on x cs
      else (case split_on x cs of [] \<Rightarrow> [[c]] | p # ps \<Rightarrow> (c # p) # ps))"

lemma split_on_not_Nil [simp]: "split_on x s \<noteq> []"
  by (induction s) (auto split: list.splits)

lemma split_on_no_sep: "x \<notin> set s \<Longrightarrow> split_on x s = [s]"
  by (induction s) auto

lemma split_on_append_sep:
  "x \<notin> set s \<Longrightarrow> split_on x (s @ x # t) = s # split_on x t"
  by (induction s) auto

lemma split_on_parts_no_sep: "p \<in> set (split_on x s) \<Longrightarrow> x \<notin> set p"
  by (induction s arbitrary: p) (auto split: list.splits if_splits)

text \<open>\<open>str::contains\<close> for a substring.\<close>

fun contains_str :: "string \<Rightarrow> string \<Rightarrow> bool" where
  "contains_str [] p \<longleftrightarrow> p = []"
| "contains_str (c # cs) p \<longleftrightarrow> prefix p (c # cs) \<or> contains_str cs p"

lemma contains_str_iff: "contains_str s p \<longleftrightarrow> (\<exists>a b. s = a @ p @ b)"
proof (induction s)
  case Nil
  then show ?case by simp
next
  case (Cons c cs)
  show ?case (is "?l \<longleftrightarrow> ?r")
  proof
    assume ?l
    then consider "prefix p (c # cs)" | "contains_str cs p" by auto
    then show ?r
    proof cases
      case 1
      then show ?thesis by (metis append_Nil prefix_def)
    next
      case 2
      then show ?thesis using Cons.IH by (metis append_Cons)
    qed
  next
    assume ?r
    then obtain a b where ab: "c # cs = a @ p @ b" by blast
    show ?l
    proof (cases a)
      case Nil
      with ab have "prefix p (c # cs)" by simp
      then show ?thesis by simp
    next
      case (Cons a' as)
      with ab have "cs = as @ p @ b" by simp
      then show ?thesis using \<open>contains_str cs p \<longleftrightarrow> _\<close> by auto
    qed
  qed
qed

subsection \<open>\<open>Iterator::max_by_key\<close> and \<open>min_by_key\<close>\<close>

text \<open>The last of the greatest elements, the first of the least ones.\<close>

fun max_by_key :: "('a \<Rightarrow> nat) \<Rightarrow> 'a list \<Rightarrow> 'a option" where
  "max_by_key f [] = None"
| "max_by_key f (x # xs) =
     (case max_by_key f xs of None \<Rightarrow> Some x
      | Some y \<Rightarrow> if f y < f x then Some x else Some y)"

fun min_by_key :: "('a \<Rightarrow> nat) \<Rightarrow> 'a list \<Rightarrow> 'a option" where
  "min_by_key f [] = None"
| "min_by_key f (x # xs) =
     (case min_by_key f xs of None \<Rightarrow> Some x
      | Some y \<Rightarrow> if f y < f x then Some y else Some x)"

lemma max_by_key_None_iff [simp]: "max_by_key f xs = None \<longleftrightarrow> xs = []"
  by (cases xs) (auto split: option.splits)

lemma min_by_key_None_iff [simp]: "min_by_key f xs = None \<longleftrightarrow> xs = []"
  by (cases xs) (auto split: option.splits)

lemma max_by_key_Some:
  "max_by_key f xs = Some y \<Longrightarrow> y \<in> set xs \<and> (\<forall>x \<in> set xs. f x \<le> f y)"
  by (induction xs arbitrary: y) (auto split: option.splits if_splits intro: le_trans less_imp_le)

lemma min_by_key_Some:
  "min_by_key f xs = Some y \<Longrightarrow> y \<in> set xs \<and> (\<forall>x \<in> set xs. f y \<le> f x)"
  by (induction xs arbitrary: y) (auto split: option.splits if_splits intro: le_trans less_imp_le)

subsection \<open>Decimal formatting\<close>

definition digit_char :: "nat \<Rightarrow> char" where
  "digit_char d = char_of (48 + d)"

fun show_nat :: "nat \<Rightarrow> string" where
  "show_nat n = (if n < 10 then [digit_char n] else show_nat (n div 10) @ [digit_char (n mod 10)])"

declare show_nat.simps [simp del]

lemma ascii_digit_digit_char: "d < 10 \<Longrightarrow> ascii_digit (digit_char d)"
  by (simp add: ascii_digit_def digit_char_def)

lemma show_nat_digits: "c \<in> set (show_nat n) \<Longrightarrow> ascii_digit c"
proof (induction n rule: show_nat.induct)
  case (1 n)
  then show ?case
    by (subst (asm) show_nat.simps) (auto simp: ascii_digit_digit_char split: if_splits)
qed

lemma show_nat_not_Nil [simp]: "show_nat n \<noteq> []"
  by (subst show_nat.simps) simp

subsection \<open>Fallible computations\<close>

text \<open>
  \<open>Result<T, E>\<close> is \<^typ>\<open>'e + 'a\<close> with \<open>Inl\<close> for the error. \<open>and_then\<close> is the \<open>?\<close>
  operator (stop at the first error), \<open>ensure\<close> is a guard that bails, \<open>try_fold\<close>
  a \<open>for\<close> loop whose body may bail and carries a state.
\<close>

named_theorems res_simps \<open>when a sequence of fallible steps succeeds\<close>

fun and_then :: "'e + 'a \<Rightarrow> ('a \<Rightarrow> 'e + 'b) \<Rightarrow> 'e + 'b" where
  "and_then (Inl e) f = Inl e"
| "and_then (Inr a) f = f a"

definition ensure :: "bool \<Rightarrow> 'e \<Rightarrow> 'e + unit" where
  "ensure b e = (if b then Inr () else Inl e)"

fun try_fold :: "('a \<Rightarrow> 's \<Rightarrow> 'e + 's) \<Rightarrow> 'a list \<Rightarrow> 's \<Rightarrow> 'e + 's" where
  "try_fold f [] s = Inr s"
| "try_fold f (x # xs) s = and_then (f x s) (try_fold f xs)"

definition map_err :: "('e \<Rightarrow> 'f) \<Rightarrow> 'e + 'a \<Rightarrow> 'f + 'a" where
  "map_err g r = (case r of Inl e \<Rightarrow> Inl (g e) | Inr a \<Rightarrow> Inr a)"

definition ok_or :: "'e \<Rightarrow> 'a option \<Rightarrow> 'e + 'a" where
  "ok_or e x = (case x of None \<Rightarrow> Inl e | Some a \<Rightarrow> Inr a)"

lemma and_then_Inr_iff [res_simps]:
  "and_then r f = Inr b \<longleftrightarrow> (\<exists>a. r = Inr a \<and> f a = Inr b)"
  by (cases r) auto

lemma and_then_Inl_iff [res_simps]:
  "and_then r f = Inl e \<longleftrightarrow> r = Inl e \<or> (\<exists>a. r = Inr a \<and> f a = Inl e)"
  by (cases r) auto

lemma ensure_Inr_iff [res_simps]: "ensure b e = Inr u \<longleftrightarrow> b"
  by (simp add: ensure_def)

lemma ensure_Inl_iff [res_simps]: "ensure b e = Inl e' \<longleftrightarrow> \<not> b \<and> e' = e"
  by (auto simp: ensure_def)

lemma map_err_Inr_iff [res_simps]: "map_err g r = Inr a \<longleftrightarrow> r = Inr a"
  by (cases r) (auto simp: map_err_def)

lemma map_err_Inl_iff [res_simps]: "map_err g r = Inl e \<longleftrightarrow> (\<exists>d. r = Inl d \<and> e = g d)"
  by (cases r) (auto simp: map_err_def)

lemma ok_or_Inr_iff [res_simps]: "ok_or e x = Inr a \<longleftrightarrow> x = Some a"
  by (cases x) (auto simp: ok_or_def)

lemma ok_or_Inl_iff [res_simps]: "ok_or e x = Inl d \<longleftrightarrow> x = None \<and> d = e"
  by (cases x) (auto simp: ok_or_def)

lemma try_fold_unit_Inr_iff:
  "try_fold (\<lambda>x (_ :: unit). f x) xs () = Inr u \<longleftrightarrow> (\<forall>x \<in> set xs. f x = Inr ())"
proof (induction xs)
  case Nil
  then show ?case by simp
next
  case (Cons x xs)
  then show ?case by (cases "f x") auto
qed

subsection \<open>Calls under a deadline\<close>

text \<open>
  The value of \<open>tokio::time::timeout(d, fut).await\<close>: the future's own output, or
  \<open>Elapsed\<close> when the deadline passed first.
\<close>

datatype 'a timed = Elapsed | Done 'a

text \<open>
  Code that performs input and output passes an abstract world through: it ends with an
  error or a value, and the world as it left it. \<open>bind_io\<close> is \<open>?\<close> in such code;
  \<open>timed_io\<close> is an operation under a deadline with the error for an elapsed deadline and
  the conversion of the operation's own error.
\<close>

type_synonym ('w, 'e, 'a) io = "'w \<Rightarrow> ('e + 'a) \<times> 'w"

definition return_io :: "'a \<Rightarrow> ('w, 'e, 'a) io" where
  "return_io a w = (Inr a, w)"

definition fail_io :: "'e \<Rightarrow> ('w, 'e, 'a) io" where
  "fail_io e w = (Inl e, w)"

definition bind_io :: "('w, 'e, 'a) io \<Rightarrow> ('a \<Rightarrow> ('w, 'e, 'b) io) \<Rightarrow> ('w, 'e, 'b) io" where
  "bind_io m f w = (case m w of (Inl e, w') \<Rightarrow> (Inl e, w') | (Inr a, w') \<Rightarrow> f a w')"

definition timed_io ::
    "'e \<Rightarrow> ('x \<Rightarrow> 'e) \<Rightarrow> ('w \<Rightarrow> ('x + 'a) timed \<times> 'w) \<Rightarrow> ('w, 'e, 'a) io" where
  "timed_io elapsed err m w =
     (case m w of
        (Elapsed, w') \<Rightarrow> (Inl elapsed, w')
      | (Done (Inl x), w') \<Rightarrow> (Inl (err x), w')
      | (Done (Inr a), w') \<Rightarrow> (Inr a, w'))"

lemma io_simps [simp]:
  "return_io a w = (Inr a, w)"
  "fail_io e w = (Inl e, w)"
  "m w = (Inl e, w') \<Longrightarrow> bind_io m f w = (Inl e, w')"
  "m w = (Inr a, w') \<Longrightarrow> bind_io m f w = f a w'"
  by (simp_all add: return_io_def fail_io_def bind_io_def)

lemma bind_io_Inr_iff [res_simps]:
  "bind_io m f w = (Inr b, w'') \<longleftrightarrow> (\<exists>a w'. m w = (Inr a, w') \<and> f a w' = (Inr b, w''))"
  by (auto simp: bind_io_def split: prod.splits sum.splits)

lemma timed_io_Done [simp]:
  "m w = (Done (Inr a), w') \<Longrightarrow> timed_io elapsed err m w = (Inr a, w')"
  "m w = (Done (Inl x), w') \<Longrightarrow> timed_io elapsed err m w = (Inl (err x), w')"
  "m w = (Elapsed, w') \<Longrightarrow> timed_io elapsed err m w = (Inl elapsed, w')"
  by (simp_all add: timed_io_def)

subsection \<open>Reachability and invariants\<close>

inductive reachable :: "('s \<Rightarrow> bool) \<Rightarrow> ('s \<Rightarrow> 's \<Rightarrow> bool) \<Rightarrow> 's \<Rightarrow> bool"
  for init :: "'s \<Rightarrow> bool" and step :: "'s \<Rightarrow> 's \<Rightarrow> bool" where
  reachable_init: "init s \<Longrightarrow> reachable init step s"
| reachable_step: "reachable init step s \<Longrightarrow> step s t \<Longrightarrow> reachable init step t"

lemma reachable_steps: "step\<^sup>*\<^sup>* s t \<Longrightarrow> reachable init step s \<Longrightarrow> reachable init step t"
  by (induction rule: rtranclp_induct) (auto intro: reachable_step)

locale inductive_invariant =
  fixes init :: "'s \<Rightarrow> bool" and step :: "'s \<Rightarrow> 's \<Rightarrow> bool" and inv :: "'s \<Rightarrow> bool"
  assumes inv_init: "init s \<Longrightarrow> inv s"
    and inv_step: "inv s \<Longrightarrow> step s t \<Longrightarrow> inv t"
begin

lemma reachable_inv: "reachable init step s \<Longrightarrow> inv s"
  by (induction rule: reachable.induct) (auto intro: inv_init inv_step)

end

end
