(* ===== verification/Errors.thy ===== *)
theory Errors
  imports Prelude
begin

section \<open>Error values (\<open>src/error.rs\<close>)\<close>

text \<open>
  The error enums with the source's constructors and the text \<open>thiserror\<close> derives
  for \<open>Display\<close>. A \<open>std::io::Error\<close> is carried as its displayed text; an
  \<open>anyhow::Error\<close> is the text of its outermost context, which is all the code reads
  of it.
\<close>

datatype sni_rewrite_error = NoMatchingBaseDomain string

datatype certificate_error =
    LoadFailed string string
  | NotConfigured string
  | InvalidFormat string
  | PrivateKey string

datatype upstream_error =
    ConnectionFailed string string
  | RequestFailed string string

datatype dns_proxy_error =
    SniRewrite sni_rewrite_error
  | Tls string
  | Certificate certificate_error
  | Upstream upstream_error
  | Timeout string
  | Overloaded string string
  | Io string
  | Protocol string
  | InvalidInput string

fun show_sni_rewrite_error :: "sni_rewrite_error \<Rightarrow> string" where
  "show_sni_rewrite_error (NoMatchingBaseDomain h) =
     ''No matching base domain found for hostname: '' @ h"

fun show_certificate_error :: "certificate_error \<Rightarrow> string" where
  "show_certificate_error (LoadFailed p r) = ''Failed to load certificate from '' @ p @ '': '' @ r"
| "show_certificate_error (NotConfigured d) = ''No certificate configured for domain: '' @ d"
| "show_certificate_error (InvalidFormat r) = ''Invalid certificate format: '' @ r"
| "show_certificate_error (PrivateKey r) = ''Private key error: '' @ r"

fun show_upstream_error :: "upstream_error \<Rightarrow> string" where
  "show_upstream_error (ConnectionFailed u r) =
     ''Failed to connect to upstream '' @ u @ '': '' @ r"
| "show_upstream_error (RequestFailed u r) =
     ''Upstream request failed to '' @ u @ '': '' @ r"

fun show_error :: "dns_proxy_error \<Rightarrow> string" where
  "show_error (SniRewrite e) = ''SNI rewrite failed: '' @ show_sni_rewrite_error e"
| "show_error (Tls m) = ''TLS error: '' @ m"
| "show_error (Certificate e) = ''Certificate error: '' @ show_certificate_error e"
| "show_error (Upstream e) = ''Upstream connection error: '' @ show_upstream_error e"
| "show_error (Timeout u) = ''Upstream timeout: '' @ u"
| "show_error (Overloaded u p) = p @ '' upstream pool is overloaded for '' @ u"
| "show_error (Io m) = ''Network I/O error: '' @ m"
| "show_error (Protocol m) = ''Protocol error: '' @ m"
| "show_error (InvalidInput m) = ''Invalid input: '' @ m"

type_synonym anyhow_error = string

definition error_from_anyhow :: "anyhow_error \<Rightarrow> dns_proxy_error" where
  "error_from_anyhow e = Protocol e"

text \<open>The address text every endpoint error and connection uses: \<open>format!("{}:{}", host, port)\<close>.\<close>

definition host_port :: "string \<Rightarrow> u16 \<Rightarrow> string" where
  "host_port h p = h @ '':'' @ show_nat (unat p)"

end
