(* ===== verification/Config.thy ===== *)
theory Config
  imports Errors
begin

section \<open>Configuration data (\<open>src/config.rs\<close>)\<close>

text \<open>
  The configuration structs as records with the defaults of their \<open>Default\<close>
  implementations, the DNS name checks used by validation, and the rejection of
  removed v1 fields. A \<open>HashMap\<close> is an association list whose order stands for the
  map's unspecified iteration order. TOML parsing and \<open>serde\<close>'s generated
  deserialiser are parameters.
\<close>

record rewrite_config =
  base_domains :: "string list"
  target_suffix :: string

record server_port_config =
  sp_enabled :: bool
  sp_bind_address :: string
  sp_port :: u16
  sp_path :: string

record healthcheck_config =
  hc_enabled :: bool
  hc_bind_address :: string
  hc_port :: u16
  hc_path :: string

record servers_config =
  srv_dot :: server_port_config
  srv_doh :: server_port_config
  srv_doq :: server_port_config
  srv_doh3 :: server_port_config
  srv_healthcheck :: healthcheck_config

record dns_upstream_config =
  du_port :: u16

record http_upstream_config =
  hu_port :: u16
  hu_path :: string

record upstream_config =
  up_dot :: dns_upstream_config
  up_doh :: http_upstream_config
  up_doq :: dns_upstream_config
  up_doh3 :: http_upstream_config

record certificate_config =
  cert_file :: string
  key_file :: string

record tls_config =
  tls_default :: "certificate_config option"
  tls_certs :: "(string \<times> certificate_config) list"
  upstream_ca_file :: "string option"

record logging_config =
  log_level :: string
  log_file :: "string option"
  log_json :: bool
  log_rotation :: bool
  log_max_file_size :: u64
  log_max_files :: nat

record limits_config =
  max_connections_per_listener :: nat
  max_inflight_requests_per_connection :: nat
  max_upstream_pool_entries :: nat
  transaction_timeout_seconds :: u64

record app_config =
  cfg_rewrite :: rewrite_config
  cfg_servers :: servers_config
  cfg_upstream :: upstream_config
  cfg_tls :: tls_config
  cfg_logging :: logging_config
  cfg_limits :: limits_config

subsection \<open>Defaults\<close>

definition default_dns_port :: u16 where "default_dns_port = 853"

definition default_https_port :: u16 where "default_https_port = 443"

definition default_doh_path :: string where "default_doh_path = ''/dns-query''"

definition default_healthcheck :: healthcheck_config where
  "default_healthcheck = \<lparr>hc_enabled = True, hc_bind_address = ''0.0.0.0'', hc_port = 8080,
     hc_path = ''/health''\<rparr>"

definition default_tls :: tls_config where
  "default_tls = \<lparr>tls_default = None, tls_certs = [], upstream_ca_file = None\<rparr>"

definition default_logging :: logging_config where
  "default_logging = \<lparr>log_level = ''info'', log_file = None, log_json = False,
     log_rotation = True, log_max_file_size = 10 * 1024 * 1024, log_max_files = 5\<rparr>"

definition default_limits :: limits_config where
  "default_limits = \<lparr>max_connections_per_listener = 1024,
     max_inflight_requests_per_connection = 64, max_upstream_pool_entries = 256,
     transaction_timeout_seconds = 30\<rparr>"

definition default_app_config :: app_config where
  "default_app_config = \<lparr>
     cfg_rewrite = \<lparr>base_domains = [''example.com'', ''example.org''],
                    target_suffix = ''.example.cn''\<rparr>,
     cfg_servers = \<lparr>
       srv_dot = \<lparr>sp_enabled = True, sp_bind_address = ''0.0.0.0'', sp_port = 853,
                  sp_path = default_doh_path\<rparr>,
       srv_doh = \<lparr>sp_enabled = True, sp_bind_address = ''0.0.0.0'', sp_port = 443,
                  sp_path = default_doh_path\<rparr>,
       srv_doq = \<lparr>sp_enabled = True, sp_bind_address = ''0.0.0.0'', sp_port = 853,
                  sp_path = default_doh_path\<rparr>,
       srv_doh3 = \<lparr>sp_enabled = False, sp_bind_address = ''0.0.0.0'', sp_port = 443,
                   sp_path = default_doh_path\<rparr>,
       srv_healthcheck = default_healthcheck\<rparr>,
     cfg_upstream = \<lparr>
       up_dot = \<lparr>du_port = default_dns_port\<rparr>,
       up_doh = \<lparr>hu_port = default_https_port, hu_path = default_doh_path\<rparr>,
       up_doq = \<lparr>du_port = default_dns_port\<rparr>,
       up_doh3 = \<lparr>hu_port = default_https_port, hu_path = default_doh_path\<rparr>\<rparr>,
     cfg_tls = default_tls,
     cfg_logging = default_logging,
     cfg_limits = default_limits\<rparr>"

subsection \<open>DNS name checks\<close>

definition ascii_dns_label :: "string \<Rightarrow> bool" where
  "ascii_dns_label l \<longleftrightarrow>
     l \<noteq> [] \<and> length l \<le> 63
     \<and> ascii_alphanumeric (hd l) \<and> ascii_alphanumeric (last l)
     \<and> list_all (\<lambda>c. ascii_lower c \<or> ascii_digit c \<or> c = CHR ''-'') l"

definition is_ascii_dns_name :: "string \<Rightarrow> bool" where
  "is_ascii_dns_name name \<longleftrightarrow>
     name \<noteq> [] \<and> length name \<le> 253 \<and> list_all ascii_dns_label (split_on CHR ''.'' name)"

definition is_ascii_dns_suffix :: "string \<Rightarrow> bool" where
  "is_ascii_dns_suffix sfx \<longleftrightarrow> starts_with sfx ''.'' \<and> is_ascii_dns_name (drop 1 sfx)"

text \<open>The names a label list denotes: labels joined by single dots.\<close>

fun join_dot :: "string list \<Rightarrow> string" where
  "join_dot [] = []"
| "join_dot [l] = l"
| "join_dot (l # ls) = l @ CHR ''.'' # join_dot ls"

lemma join_dot_split_on: "join_dot (split_on CHR ''.'' s) = s"
proof (induction s)
  case Nil
  then show ?case by simp
next
  case (Cons c cs)
  obtain p ps where sp: "split_on CHR ''.'' cs = p # ps"
    by (cases "split_on CHR ''.'' cs") auto
  show ?case
  proof (cases "c = CHR ''.''")
    case True
    then show ?thesis using Cons.IH sp by simp
  next
    case False
    then show ?thesis using Cons.IH sp by (cases ps) auto
  qed
qed

lemma split_on_join_dot:
  "ls \<noteq> [] \<Longrightarrow> (\<And>l. l \<in> set ls \<Longrightarrow> CHR ''.'' \<notin> set l) \<Longrightarrow> split_on CHR ''.'' (join_dot ls) = ls"
proof (induction ls rule: join_dot.induct)
  case (3 l l' ls)
  then show ?case by (simp add: split_on_append_sep)
qed (auto simp: split_on_no_sep)

lemma ascii_dns_label_no_dot: "ascii_dns_label l \<Longrightarrow> CHR ''.'' \<notin> set l"
  by (auto simp: ascii_dns_label_def list_all_iff ascii_lower_def ascii_digit_def)

lemma ascii_dns_label_chars: "ascii_dns_label l \<Longrightarrow> c \<in> set l \<Longrightarrow> dns_char c"
  by (auto simp: ascii_dns_label_def list_all_iff dns_char_def)

lemma set_join_dot: "set (join_dot ls) \<subseteq> insert CHR ''.'' (\<Union> (set ` set ls))"
  by (induction ls rule: join_dot.induct) auto

lemma last_join_dot: "ls \<noteq> [] \<Longrightarrow> last ls \<noteq> [] \<Longrightarrow> last (join_dot ls) = last (last ls)"
proof (induction ls rule: join_dot.induct)
  case (3 l l' ls)
  have "join_dot (l' # ls) \<noteq> []"
    using "3.prems" by (cases ls) auto
  with 3 show ?case by simp
qed auto

lemma is_ascii_dns_name_chars:
  assumes "is_ascii_dns_name n" and "c \<in> set n"
  shows "dns_char c"
proof -
  have "c \<in> set (join_dot (split_on CHR ''.'' n))"
    using assms(2) by (simp add: join_dot_split_on)
  then have "c = CHR ''.'' \<or> (\<exists>l \<in> set (split_on CHR ''.'' n). c \<in> set l)"
    using set_join_dot by fastforce
  then show ?thesis
  proof
    assume "c = CHR ''.''"
    then show ?thesis by (simp add: dns_char_def)
  next
    assume "\<exists>l \<in> set (split_on CHR ''.'' n). c \<in> set l"
    then show ?thesis
      using assms(1) by (auto simp: is_ascii_dns_name_def list_all_iff intro: ascii_dns_label_chars)
  qed
qed

lemma is_ascii_dns_name_last:
  assumes "is_ascii_dns_name n"
  shows "last n \<noteq> CHR ''.''"
proof -
  let ?ls = "split_on CHR ''.'' n"
  have lab: "ascii_dns_label (last ?ls)"
    using assms by (auto simp: is_ascii_dns_name_def list_all_iff)
  then have "last n = last (last ?ls)"
    using last_join_dot [of ?ls] by (simp add: join_dot_split_on ascii_dns_label_def)
  moreover have "last (last ?ls) \<in> set (last ?ls)"
    using lab by (simp add: ascii_dns_label_def)
  ultimately show ?thesis
    using ascii_dns_label_no_dot [OF lab] by metis
qed

lemma is_ascii_dns_name_canonical:
  assumes "is_ascii_dns_name n"
  shows "to_ascii_lowercase (trim_end_char CHR ''.'' n) = n"
  using assms is_ascii_dns_name_last [OF assms] is_ascii_dns_name_chars [OF assms]
  by (simp add: trim_end_char_id to_ascii_lowercase_id ascii_simps)

lemma is_ascii_dns_suffix_chars:
  "is_ascii_dns_suffix s \<Longrightarrow> c \<in> set s \<Longrightarrow> dns_char c"
  by (cases s) (auto simp: is_ascii_dns_suffix_def starts_with_def
      intro: is_ascii_dns_name_chars simp: dns_char_def [of "CHR ''.''"])

subsection \<open>Removed v1 fields\<close>

text \<open>A parsed TOML document, as far as the rejection of removed fields reads it.\<close>

datatype toml = TomlTable "(string \<times> toml) list" | TomlLeaf

fun toml_get :: "toml \<Rightarrow> string \<Rightarrow> toml option" where
  "toml_get (TomlTable t) k = map_of t k"
| "toml_get TomlLeaf k = None"

fun toml_as_table :: "toml \<Rightarrow> (string \<times> toml) list option" where
  "toml_as_table (TomlTable t) = Some t"
| "toml_as_table TomlLeaf = None"

definition toml_has_key :: "toml \<Rightarrow> string \<Rightarrow> string \<Rightarrow> bool" where
  "toml_has_key v s k =
     (case toml_get v s of None \<Rightarrow> False
      | Some u \<Rightarrow> (case toml_as_table u of None \<Rightarrow> False | Some t \<Rightarrow> map_of t k \<noteq> None))"

definition removed_tls_keys :: "string list" where
  "removed_tls_keys = [''ca_file'', ''require_client_cert'', ''client_cert_file'', ''client_key_file'']"

definition reject_removed_v1_fields ::
    "(string \<Rightarrow> toml option) \<Rightarrow> string \<Rightarrow> anyhow_error + unit" where
  "reject_removed_v1_fields parse_toml content =
     and_then (ok_or ''Failed to parse config file'' (parse_toml content)) (\<lambda>v.
     and_then (ensure (\<not> toml_has_key v ''rewrite'' ''rewrite_failure_strategy'')
       ''rewrite.rewrite_failure_strategy was removed in v2; unmatched domains are always rejected'') (\<lambda>_.
     and_then (ensure (\<not> toml_has_key v ''upstream'' ''default'')
       ''upstream.default was removed in v2; upstream hostnames are always derived from rewrite'') (\<lambda>_.
     try_fold (\<lambda>k _. ensure (\<not> toml_has_key v ''tls'' k)
       (''tls.'' @ k @ '' was removed in v2; inbound mTLS is not supported''))
       removed_tls_keys ())))"

definition removed_v1_fields :: "(string \<times> string) list" where
  "removed_v1_fields = (''rewrite'', ''rewrite_failure_strategy'') # (''upstream'', ''default'')
     # map (Pair ''tls'') removed_tls_keys"

lemma reject_removed_v1_fields_ok_iff:
  "reject_removed_v1_fields parse_toml content = Inr () \<longleftrightarrow>
     (\<exists>v. parse_toml content = Some v
        \<and> (\<forall>(s, k) \<in> set removed_v1_fields. \<not> toml_has_key v s k))"
  by (auto simp: reject_removed_v1_fields_def res_simps try_fold_unit_Inr_iff removed_v1_fields_def)

text \<open>
  \<open>AppConfig::from_file\<close>: the removed fields are looked for before the document is
  deserialised. \<open>read_file\<close> is \<open>fs::read_to_string\<close>, \<open>deserialize\<close> the code \<open>serde\<close>
  derives for \<open>AppConfig\<close> (with \<open>deny_unknown_fields\<close>). The path in the message is
  \<open>Debug\<close>-formatted: in quotes (a path with no character that \<open>Debug\<close> escapes).
\<close>

definition from_file ::
    "(string \<Rightarrow> string option) \<Rightarrow> (string \<Rightarrow> toml option) \<Rightarrow> (string \<Rightarrow> app_config option)
     \<Rightarrow> string \<Rightarrow> anyhow_error + app_config" where
  "from_file read_file parse_toml deserialize p =
     and_then (ok_or (''Failed to read config file: '' @ [CHR 0x22] @ p @ [CHR 0x22]) (read_file p)) (\<lambda>content.
     and_then (reject_removed_v1_fields parse_toml content) (\<lambda>_.
     ok_or ''Failed to parse config file'' (deserialize content)))"

end
