(* ===== verification/Rewriter.thy ===== *)
theory Rewriter
  imports Config
begin

section \<open>SNI rewriting (\<open>src/sni.rs\<close>, \<open>src/rewriters/base.rs\<close>, \<open>src/rewrite.rs\<close>)\<close>

text \<open>
  The rewriter every protocol server shares: it canonicalises the client's host
  name, looks for the first configured base domain it lies under, and puts the
  remaining prefix in front of the target suffix. The contract the servers rely on
  (the \<open>SniRewriter\<close> trait) is the locale \<open>sni_rewriter\<close>, interpreted on
  \<open>BaseSniRewriter\<close>.
\<close>

record rewrite_result =
  rr_original :: string
  rr_prefix :: string
  rr_target_hostname :: string

record base_sni_rewriter =
  rw_config :: rewrite_config

definition normalize_sni :: "string \<Rightarrow> string" where
  "normalize_sni s = to_ascii_lowercase (trim_end_char CHR ''.'' s)"

text \<open>\<open>BaseSniRewriter::new\<close>, which \<open>create_rewriter\<close> wraps in an \<open>Arc\<close>.\<close>

definition new_rewriter :: "rewrite_config \<Rightarrow> base_sni_rewriter" where
  "new_rewriter config = \<lparr>rw_config = config\<lparr>
     base_domains := map (\<lambda>d. to_ascii_lowercase (trim_end_char CHR ''.'' d)) (base_domains config),
     target_suffix := to_ascii_lowercase (target_suffix config)\<rparr>\<rparr>"

definition create_rewriter :: "rewrite_config \<Rightarrow> base_sni_rewriter" where
  "create_rewriter config = new_rewriter config"

fun extract_prefix_from :: "string list \<Rightarrow> string \<Rightarrow> string option" where
  "extract_prefix_from [] sni = None"
| "extract_prefix_from (base # bases) sni =
     (case strip_suffix sni base of
        Some rest \<Rightarrow>
          if rest \<noteq> [] \<and> ends_with rest ''.'' then
            (let pfx = (case strip_suffix rest ''.'' of Some p \<Rightarrow> p | None \<Rightarrow> rest)
             in if pfx \<noteq> [] then Some pfx else extract_prefix_from bases sni)
          else extract_prefix_from bases sni
      | None \<Rightarrow> extract_prefix_from bases sni)"

definition extract_prefix :: "base_sni_rewriter \<Rightarrow> string \<Rightarrow> string option" where
  "extract_prefix rw sni = extract_prefix_from (base_domains (rw_config rw)) sni"

definition build_target_hostname :: "base_sni_rewriter \<Rightarrow> string \<Rightarrow> string" where
  "build_target_hostname rw pfx = pfx @ target_suffix (rw_config rw)"

definition rewrite :: "base_sni_rewriter \<Rightarrow> string \<Rightarrow> rewrite_result option" where
  "rewrite rw sni =
     (if sni = [] then None
      else if base_domains (rw_config rw) = [] then None
      else if \<not> starts_with (target_suffix (rw_config rw)) ''.'' then None
      else let normalized = to_ascii_lowercase (trim_end_char CHR ''.'' sni)
       in if \<not> list_all (\<lambda>c. ascii_lower c \<or> ascii_digit c \<or> c = CHR ''.'' \<or> c = CHR ''-'') normalized
          then None
          else (case extract_prefix rw normalized of
                  None \<Rightarrow> None
                | Some pfx \<Rightarrow>
                    Some \<lparr>rr_original = normalized, rr_prefix = pfx,
                          rr_target_hostname = build_target_hostname rw pfx\<rparr>))"

subsection \<open>Matching a base domain\<close>

definition under_base :: "string \<Rightarrow> string \<Rightarrow> string \<Rightarrow> bool" where
  "under_base b p s \<longleftrightarrow> p \<noteq> [] \<and> s = p @ CHR ''.'' # b"

definition matches_base :: "string \<Rightarrow> string \<Rightarrow> bool" where
  "matches_base b s \<longleftrightarrow> (\<exists>p. under_base b p s)"

lemma under_base_unique: "under_base b p s \<Longrightarrow> under_base b q s \<Longrightarrow> p = q"
  by (auto simp: under_base_def)

lemma extract_prefix_from_hit:
  assumes "under_base b p s"
  shows "extract_prefix_from (b # bs) s = Some p"
proof -
  have "strip_suffix s b = Some (p @ ''.'')" and "strip_suffix (p @ ''.'') ''.'' = Some p"
    using assms by (simp_all add: str_simps under_base_def)
  moreover have "ends_with (p @ ''.'') ''.''" and "p \<noteq> []"
    using assms by (simp_all add: str_simps under_base_def)
  ultimately show ?thesis by simp
qed

lemma extract_prefix_from_miss:
  assumes "\<not> matches_base b s"
  shows "extract_prefix_from (b # bs) s = extract_prefix_from bs s"
  using assms
  by (auto simp: str_simps matches_base_def under_base_def Let_def split: option.splits)

declare extract_prefix_from.simps(2) [simp del]

lemma extract_prefix_from_Some_iff:
  "extract_prefix_from bs s = Some p \<longleftrightarrow>
     (\<exists>bs1 b bs2. bs = bs1 @ b # bs2 \<and> under_base b p s \<and> (\<forall>b' \<in> set bs1. \<not> matches_base b' s))"
  (is "_ \<longleftrightarrow> ?first bs")
proof (induction bs)
  case Nil
  then show ?case by simp
next
  case (Cons b bs)
  show ?case
  proof (cases "matches_base b s")
    case True
    then obtain q where q: "under_base b q s" by (auto simp: matches_base_def)
    have "?first (b # bs) \<longleftrightarrow> under_base b p s"
    proof
      assume "?first (b # bs)"
      then show "under_base b p s"
        using True by (auto simp: Cons_eq_append_conv)
    next
      assume "under_base b p s"
      then show "?first (b # bs)"
        by (intro exI [of _ "[]"] exI [of _ b] exI [of _ bs]) simp
    qed
    moreover have "under_base b p s \<longleftrightarrow> q = p"
      using q under_base_unique by blast
    ultimately show ?thesis
      by (simp add: extract_prefix_from_hit [OF q])
  next
    case False
    have "?first (b # bs) \<longleftrightarrow> ?first bs"
    proof
      assume "?first (b # bs)"
      then obtain bs1 b' bs2 where f: "b # bs = bs1 @ b' # bs2" "under_base b' p s"
        "\<forall>b'' \<in> set bs1. \<not> matches_base b'' s" by blast
      have "bs1 \<noteq> []"
        using f(1,2) False by (auto simp: matches_base_def)
      then obtain bs1' where "bs1 = b # bs1'" "bs = bs1' @ b' # bs2"
        using f(1) by (cases bs1) auto
      with f(2,3) show "?first bs" by auto
    next
      assume "?first bs"
      then obtain bs1 b' bs2 where f: "bs = bs1 @ b' # bs2" "under_base b' p s"
        "\<forall>b'' \<in> set bs1. \<not> matches_base b'' s" by blast
      then show "?first (b # bs)"
        using False by (intro exI [of _ "b # bs1"] exI [of _ b'] exI [of _ bs2]) simp
    qed
    with Cons.IH show ?thesis
      by (simp add: extract_prefix_from_miss [OF False])
  qed
qed

lemma extract_prefix_from_None_iff:
  "extract_prefix_from bs s = None \<longleftrightarrow> (\<forall>b \<in> set bs. \<not> matches_base b s)"
proof (induction bs)
  case Nil
  then show ?case by simp
next
  case (Cons b bs)
  then show ?case
    by (cases "matches_base b s")
       (auto simp: matches_base_def extract_prefix_from_hit extract_prefix_from_miss)
qed

lemma extract_prefix_from_Some_under:
  "extract_prefix_from bs s = Some p \<Longrightarrow> \<exists>b \<in> set bs. under_base b p s"
  by (auto simp: extract_prefix_from_Some_iff)

text \<open>No configured base domain lies under another one.\<close>

definition no_nested_bases :: "string list \<Rightarrow> bool" where
  "no_nested_bases bs \<longleftrightarrow> (\<forall>b \<in> set bs. \<forall>b' \<in> set bs. \<not> suffix (CHR ''.'' # b) b')"

lemma under_two_bases:
  assumes "under_base b p s" and "under_base b' p' s" and "b \<noteq> b'"
  shows "suffix (CHR ''.'' # b) b' \<or> suffix (CHR ''.'' # b') b"
proof -
  have "suffix (CHR ''.'' # b) s"
    using assms(1) unfolding under_base_def by (blast intro: suffixI)
  moreover have "suffix (CHR ''.'' # b') s"
    using assms(2) unfolding under_base_def by (blast intro: suffixI)
  ultimately have "suffix (CHR ''.'' # b) (CHR ''.'' # b') \<or> suffix (CHR ''.'' # b') (CHR ''.'' # b)"
    by (rule suffix_same_cases)
  then show ?thesis using assms(3) by (auto simp: suffix_Cons)
qed

lemma extract_prefix_from_order_free:
  assumes "no_nested_bases bs" and "set bs' = set bs"
  shows "extract_prefix_from bs' s = extract_prefix_from bs s"
proof (cases "extract_prefix_from bs s")
  case None
  then show ?thesis
    using assms(2) extract_prefix_from_None_iff by metis
next
  case (Some p)
  then obtain b where b: "b \<in> set bs" "under_base b p s"
    using extract_prefix_from_Some_under by blast
  then have "extract_prefix_from bs' s \<noteq> None"
    using assms(2) by (auto simp: extract_prefix_from_None_iff matches_base_def)
  then obtain p' b' where p': "extract_prefix_from bs' s = Some p'" "b' \<in> set bs" "under_base b' p' s"
    using extract_prefix_from_Some_under assms(2) by blast
  have "b = b'"
    using under_two_bases [OF b(2) p'(3)] assms(1) b(1) p'(2)
    by (auto simp: no_nested_bases_def)
  then show ?thesis
    using b(2) p'(1,3) under_base_unique Some by metis
qed

subsection \<open>What \<open>rewrite\<close> returns\<close>

lemma rewrite_Some_iff:
  "rewrite rw sni = Some r \<longleftrightarrow>
     sni \<noteq> [] \<and> starts_with (target_suffix (rw_config rw)) ''.''
     \<and> list_all dns_char (normalize_sni sni)
     \<and> (\<exists>p. extract_prefix_from (base_domains (rw_config rw)) (normalize_sni sni) = Some p
          \<and> r = \<lparr>rr_original = normalize_sni sni, rr_prefix = p,
                 rr_target_hostname = p @ target_suffix (rw_config rw)\<rparr>)"
proof -
  have "list_all (\<lambda>c. ascii_lower c \<or> ascii_digit c \<or> c = CHR ''.'' \<or> c = CHR ''-'') s
      = list_all dns_char s" for s
    by (simp add: list_all_iff dns_char_def)
  then show ?thesis
    by (cases "base_domains (rw_config rw) = []")
       (auto simp: rewrite_def normalize_sni_def extract_prefix_def build_target_hostname_def
         Let_def split: option.splits)
qed

lemma rewrite_cong_normalize:
  assumes "normalize_sni s = normalize_sni t" and "s = [] \<longleftrightarrow> t = []"
  shows "rewrite rw s = rewrite rw t"
proof -
  have "rewrite rw s = Some r \<longleftrightarrow> rewrite rw t = Some r" for r
    unfolding rewrite_Some_iff using assms by simp
  then show ?thesis by (metis option.exhaust)
qed

lemma normalize_sni_lowercase [ascii_simps]:
  "normalize_sni (to_ascii_lowercase s) = normalize_sni s"
  by (simp add: normalize_sni_def ascii_simps)

lemma normalize_sni_dots [ascii_simps]: "normalize_sni (s @ replicate n CHR ''.'') = normalize_sni s"
  by (simp add: normalize_sni_def str_simps)

lemma normalize_sni_idem [ascii_simps]: "normalize_sni (normalize_sni s) = normalize_sni s"
  by (simp add: normalize_sni_def ascii_simps str_simps)

lemma rewrite_normalize_Nil: "normalize_sni s = [] \<Longrightarrow> rewrite rw s = None"
  by (cases "rewrite rw s")
     (auto simp: rewrite_Some_iff dest!: extract_prefix_from_Some_under simp: under_base_def)

lemma rewrite_dots: "rewrite rw (s @ replicate n CHR ''.'') = rewrite rw s"
proof (cases "s = []")
  case True
  then have "normalize_sni (s @ replicate n CHR ''.'') = []" "normalize_sni s = []"
    by (simp_all add: normalize_sni_def trim_end_char_def)
  then show ?thesis by (simp add: rewrite_normalize_Nil)
next
  case False
  then show ?thesis by (intro rewrite_cong_normalize) (auto simp: ascii_simps)
qed

text \<open>A rewriter built from a validated rewrite section.\<close>

definition valid_rewrite_config :: "rewrite_config \<Rightarrow> bool" where
  "valid_rewrite_config c \<longleftrightarrow>
     base_domains c \<noteq> [] \<and> list_all is_ascii_dns_name (base_domains c)
     \<and> is_ascii_dns_suffix (target_suffix c)"

lemma new_rewriter_canonical:
  assumes "valid_rewrite_config c"
  shows "rw_config (new_rewriter c) = c"
proof -
  have "map (\<lambda>d. to_ascii_lowercase (trim_end_char CHR ''.'' d)) (base_domains c) = base_domains c"
    using assms by (auto simp: valid_rewrite_config_def list_all_iff is_ascii_dns_name_canonical
        intro: map_idI)
  moreover have "to_ascii_lowercase (target_suffix c) = target_suffix c"
    using assms by (auto simp: valid_rewrite_config_def ascii_simps
        intro!: to_ascii_lowercase_id dest: is_ascii_dns_suffix_chars)
  ultimately show ?thesis by (simp add: new_rewriter_def)
qed

lemma rewrite_target_chars:
  assumes "is_ascii_dns_suffix (target_suffix (rw_config rw))" and "rewrite rw sni = Some r"
    and "c \<in> set (rr_target_hostname r)"
  shows "dns_char c"
proof -
  obtain p where p: "extract_prefix_from (base_domains (rw_config rw)) (normalize_sni sni) = Some p"
    and r: "rr_target_hostname r = p @ target_suffix (rw_config rw)"
    and all: "list_all dns_char (normalize_sni sni)"
    using assms(2) by (auto simp: rewrite_Some_iff)
  from p obtain b where "normalize_sni sni = p @ CHR ''.'' # b"
    by (auto dest!: extract_prefix_from_Some_under simp: under_base_def)
  with all have "list_all dns_char p" by simp
  then show ?thesis
    using assms(1,3) r is_ascii_dns_suffix_chars by (auto simp: list_all_iff)
qed

subsection \<open>The contract of the \<open>SniRewriter\<close> trait\<close>

locale sni_rewriter =
  fixes rewrite_with :: "'c \<Rightarrow> string \<Rightarrow> rewrite_result option"
    and zone :: "'c \<Rightarrow> string"
    and rewriter_ok :: "'c \<Rightarrow> bool"
  assumes zone_chars: "rewriter_ok c \<Longrightarrow> x \<in> set (zone c) \<Longrightarrow> dns_char x"
    and rewrite_target: "rewriter_ok c \<Longrightarrow> rewrite_with c s = Some r \<Longrightarrow>
          rr_target_hostname r = rr_prefix r @ zone c"
    and rewrite_prefix: "rewriter_ok c \<Longrightarrow> rewrite_with c s = Some r \<Longrightarrow> rr_prefix r \<noteq> []"
    and rewrite_prefix_chars: "rewriter_ok c \<Longrightarrow> rewrite_with c s = Some r \<Longrightarrow>
          x \<in> set (rr_prefix r) \<Longrightarrow> dns_char x"
begin

lemma target_in_zone:
  "rewriter_ok c \<Longrightarrow> rewrite_with c s = Some r \<Longrightarrow>
     ends_with (rr_target_hostname r) (zone c) \<and> rr_target_hostname r \<noteq> zone c"
  using rewrite_target rewrite_prefix by (auto simp: ends_with_def suffix_def)

lemma target_chars:
  "rewriter_ok c \<Longrightarrow> rewrite_with c s = Some r \<Longrightarrow> x \<in> set (rr_target_hostname r) \<Longrightarrow> dns_char x"
  using rewrite_target rewrite_prefix_chars zone_chars by fastforce

lemma target_no_delimiter:
  assumes "rewriter_ok c" and "rewrite_with c s = Some r" and "x \<in> set (rr_target_hostname r)"
  shows "x \<notin> set '':/?#@%[] ''"
  using target_chars [OF assms] by (auto simp: dns_char_def ascii_lower_def ascii_digit_def)

lemma authority_splits:
  assumes "rewriter_ok c" and "rewrite_with c s = Some r"
  shows "split_on CHR '':'' (host_port (rr_target_hostname r) p)
           = [rr_target_hostname r, show_nat (unat p)]"
proof -
  have "CHR '':'' \<notin> set (rr_target_hostname r)"
    using target_no_delimiter [OF assms] by auto
  moreover have "CHR '':'' \<notin> set (show_nat (unat p))"
    by (auto dest!: show_nat_digits simp: ascii_digit_def)
  ultimately show ?thesis
    by (simp add: host_port_def split_on_append_sep split_on_no_sep)
qed

end

definition rewriter_zone :: "base_sni_rewriter \<Rightarrow> string" where
  "rewriter_zone rw = target_suffix (rw_config rw)"

definition valid_rewriter :: "base_sni_rewriter \<Rightarrow> bool" where
  "valid_rewriter rw \<longleftrightarrow> is_ascii_dns_suffix (target_suffix (rw_config rw))"

interpretation base_rw: sni_rewriter rewrite rewriter_zone valid_rewriter
proof unfold_locales
  fix c :: base_sni_rewriter and x
  assume "valid_rewriter c" "x \<in> set (rewriter_zone c)"
  then show "dns_char x"
    using is_ascii_dns_suffix_chars by (auto simp: valid_rewriter_def rewriter_zone_def)
next
  fix c s r
  assume "rewrite c s = Some r"
  then show "rr_target_hostname r = rr_prefix r @ rewriter_zone c"
    by (auto simp: rewrite_Some_iff rewriter_zone_def)
next
  fix c s r
  assume "rewrite c s = Some r"
  then show "rr_prefix r \<noteq> []"
    by (auto simp: rewrite_Some_iff under_base_def dest!: extract_prefix_from_Some_under)
next
  fix c s r x
  assume "valid_rewriter c" "rewrite c s = Some r" "x \<in> set (rr_prefix r)"
  then show "dns_char x"
    using rewrite_target_chars [of c s r x]
    by (auto simp: valid_rewriter_def rewrite_Some_iff)
qed

lemma valid_rewriter_new: "valid_rewrite_config c \<Longrightarrow> valid_rewriter (new_rewriter c)"
  by (simp add: valid_rewriter_def new_rewriter_canonical) (simp add: valid_rewrite_config_def)

end
