(* ===== verification/Tls_Utils.thy ===== *)
theory Tls_Utils
  imports Config "HOL-Library.AList"
begin

section \<open>Trust store and certificate selection (\<open>src/tls_utils.rs\<close>)\<close>

text \<open>
  The trust store for upstream connections, loading of certificates, and the choice
  of a certificate for the name a client asks for. Files, PEM parsing, \<open>rustls\<close>'s
  root store and the platform roots are the parameter \<open>tls_lib\<close>; a certificate,
  trust anchor, private key and signing key are abstract types.
\<close>

record ('cert, 'anchor, 'key, 'skey) tls_lib =
  tl_webpki_roots :: "'anchor list"
  tl_native_certs :: "'cert list"
  tl_to_anchor :: "'cert \<Rightarrow> string + 'anchor"
  tl_read_file :: "string \<Rightarrow> string + bytes"
  tl_pem_certs :: "bytes \<Rightarrow> string + 'cert list"
  tl_pem_first_key :: "bytes \<Rightarrow> (string + 'key) option"
  tl_signing_key :: "'key \<Rightarrow> string + 'skey"

subsection \<open>The outbound trust store\<close>

text \<open>\<open>RootCertStore::add\<close> on each certificate in turn.\<close>

definition add_roots ::
    "('cert, 'anchor, 'key, 'skey) tls_lib \<Rightarrow> string \<Rightarrow> 'cert list \<Rightarrow> 'anchor list
     \<Rightarrow> dns_proxy_error + 'anchor list" where
  "add_roots lib what certs roots =
     try_fold (\<lambda>c rs. case tl_to_anchor lib c of
         Inl e \<Rightarrow> Inl (Certificate (InvalidFormat (what @ e)))
       | Inr a \<Rightarrow> Inr (rs @ [a])) certs roots"

definition create_upstream_root_store ::
    "('cert, 'anchor, 'key, 'skey) tls_lib \<Rightarrow> string option \<Rightarrow> dns_proxy_error + 'anchor list" where
  "create_upstream_root_store lib ca_file =
     and_then (add_roots lib ''Failed to add native upstream CA certificate: ''
                 (tl_native_certs lib) (tl_webpki_roots lib)) (\<lambda>roots.
     case ca_file of
       None \<Rightarrow> Inr roots
     | Some p \<Rightarrow>
         and_then (map_err (\<lambda>e. Certificate (LoadFailed p e)) (tl_read_file lib p)) (\<lambda>content.
         and_then (map_err (\<lambda>e. Certificate (InvalidFormat (''Failed to parse upstream CA bundle: '' @ e)))
                     (tl_pem_certs lib content)) (\<lambda>certs.
         and_then (ensure (certs \<noteq> [])
                     (Certificate (InvalidFormat ''Upstream CA bundle contains no certificates''))) (\<lambda>_.
         add_roots lib ''Failed to add upstream CA certificate: '' certs roots))))"

definition load_upstream_root_store ::
    "('cert, 'anchor, 'key, 'skey) tls_lib \<Rightarrow> string option \<Rightarrow> dns_proxy_error + 'anchor list" where
  "load_upstream_root_store lib ca_file = create_upstream_root_store lib ca_file"

lemma add_roots_Inr_iff:
  "add_roots lib what certs roots = Inr rs \<longleftrightarrow>
     (\<exists>as. map (tl_to_anchor lib) certs = map Inr as \<and> rs = roots @ as)"
proof (induction certs arbitrary: roots)
  case Nil
  then show ?case by (auto simp: add_roots_def)
next
  case (Cons c certs)
  show ?case
  proof (cases "tl_to_anchor lib c")
    case (Inl e)
    then show ?thesis by (auto simp: add_roots_def Cons_eq_map_conv)
  next
    case (Inr a)
    have step: "add_roots lib what (c # certs) roots = add_roots lib what certs (roots @ [a])"
      by (simp add: add_roots_def Inr)
    show ?thesis
      unfolding step Cons.IH [of "roots @ [a]"] by (auto simp: Inr Cons_eq_map_conv)
  qed
qed

lemma create_upstream_root_store_extends:
  assumes "create_upstream_root_store lib ca_file = Inr roots"
  shows "prefix (tl_webpki_roots lib) roots"
  using assms
  by (auto simp: create_upstream_root_store_def res_simps add_roots_Inr_iff split: option.splits)

subsection \<open>Loading certificates\<close>

record ('cert, 'skey) certified_key =
  ck_certs :: "'cert list"
  ck_signing_key :: 'skey

definition load_certificate ::
    "('cert, 'anchor, 'key, 'skey) tls_lib \<Rightarrow> certificate_config
     \<Rightarrow> dns_proxy_error + ('cert, 'skey) certified_key" where
  "load_certificate lib cc =
     and_then (map_err (\<lambda>e. Certificate (LoadFailed (cert_file cc) (''Failed to read: '' @ e)))
                 (tl_read_file lib (cert_file cc))) (\<lambda>cert_bytes.
     and_then (map_err (\<lambda>e. Certificate (LoadFailed (key_file cc) (''Failed to read: '' @ e)))
                 (tl_read_file lib (key_file cc))) (\<lambda>key_bytes.
     and_then (map_err (\<lambda>e. Certificate (InvalidFormat (''Failed to parse certificate: '' @ e)))
                 (tl_pem_certs lib cert_bytes)) (\<lambda>certs.
     and_then (ensure (certs \<noteq> [])
                 (Certificate (InvalidFormat ''No certificates found in certificate file''))) (\<lambda>_.
     and_then (ok_or (Certificate (PrivateKey ''No private key found in key file''))
                 (tl_pem_first_key lib key_bytes)) (\<lambda>first.
     and_then (map_err (\<lambda>e. Certificate (PrivateKey (''Failed to parse private key: '' @ e))) first) (\<lambda>key.
     and_then (map_err (\<lambda>e. Certificate (PrivateKey (''Failed to create signing key: '' @ e)))
                 (tl_signing_key lib key)) (\<lambda>skey.
     Inr \<lparr>ck_certs = certs, ck_signing_key = skey\<rparr>)))))))"

record 'ck certificate_resolver =
  cr_certs :: "(string \<times> 'ck) list"
  cr_default :: "'ck option"

definition certificate_resolver_new ::
    "('cert, 'anchor, 'key, 'skey) tls_lib \<Rightarrow> tls_config
     \<Rightarrow> dns_proxy_error + ('cert, 'skey) certified_key certificate_resolver" where
  "certificate_resolver_new lib tls =
     and_then (case tls_default tls of None \<Rightarrow> Inr None
               | Some cc \<Rightarrow> and_then (load_certificate lib cc) (\<lambda>ck. Inr (Some ck))) (\<lambda>dflt.
     and_then (try_fold (\<lambda>(domain, cc) certs.
                 and_then (load_certificate lib cc) (\<lambda>ck.
                 Inr (AList.update (to_ascii_lowercase domain) ck certs))) (tls_certs tls) []) (\<lambda>certs.
     Inr \<lparr>cr_certs = certs, cr_default = dflt\<rparr>))"

subsection \<open>Selecting a certificate\<close>

definition covers_subdomain :: "string \<Rightarrow> string \<Rightarrow> bool" where
  "covers_subdomain base domain \<longleftrightarrow>
     ends_with domain base \<and> length base < length domain
     \<and> domain ! (length domain - length base - 1) = CHR ''.''"

definition get_cert_for_domain ::
    "'ck certificate_resolver \<Rightarrow> string \<Rightarrow> dns_proxy_error + 'ck" where
  "get_cert_for_domain r requested =
     (let domain = to_ascii_lowercase (trim_end_char CHR ''.'' requested)
      in case map_of (cr_certs r) domain of
           Some cert \<Rightarrow> Inr cert
         | None \<Rightarrow>
            (case max_by_key (\<lambda>(base, _). length base)
                    (filter (\<lambda>(base, _). covers_subdomain base domain) (cr_certs r)) of
               Some (_, cert) \<Rightarrow> Inr cert
             | None \<Rightarrow> ok_or (Certificate (NotConfigured domain)) (cr_default r)))"

text \<open>\<open>DynamicCertResolver::resolve\<close>: no SNI, no certificate.\<close>

definition resolve_certificate :: "'ck certificate_resolver \<Rightarrow> string option \<Rightarrow> 'ck option" where
  "resolve_certificate r server_name =
     (case server_name of None \<Rightarrow> None
      | Some sni \<Rightarrow> (case get_cert_for_domain r sni of Inl _ \<Rightarrow> None | Inr cert \<Rightarrow> Some cert))"

lemma covers_subdomain_iff:
  "covers_subdomain base domain \<longleftrightarrow> (\<exists>p. domain = p @ CHR ''.'' # base)"
proof
  assume c: "covers_subdomain base domain"
  then obtain r where r: "domain = r @ base"
    by (auto simp: covers_subdomain_def ends_with_def suffix_def)
  with c have ne: "r \<noteq> []"
    by (auto simp: covers_subdomain_def)
  then have "domain ! (length domain - length base - 1) = last r"
    using r by (simp add: nth_append last_conv_nth)
  then have "last r = CHR ''.''"
    using c by (simp add: covers_subdomain_def)
  then have "domain = butlast r @ CHR ''.'' # base"
    using r append_butlast_last_id [OF ne] by simp
  then show "\<exists>p. domain = p @ CHR ''.'' # base" by blast
next
  assume "\<exists>p. domain = p @ CHR ''.'' # base"
  then obtain p where "domain = (p @ ''.'') @ base" by auto
  then show "covers_subdomain base domain"
    by (simp add: covers_subdomain_def ends_with_def suffix_def nth_append)
qed

lemma covers_subdomain_same_length:
  assumes "covers_subdomain b d" and "covers_subdomain b' d" and "length b = length b'"
  shows "b = b'"
proof -
  have "suffix b d" and "suffix b' d"
    using assms(1,2) by (simp_all add: covers_subdomain_def ends_with_def)
  then show ?thesis
    using assms(3) by (metis suffix_length_suffix suffix_order.antisym order_refl)
qed

text \<open>The longest configured base domain above a name, and its certificate.\<close>

definition longest_base :: "(string \<times> 'ck) list \<Rightarrow> string \<Rightarrow> string \<Rightarrow> 'ck \<Rightarrow> bool" where
  "longest_base certs domain base ck \<longleftrightarrow>
     (base, ck) \<in> set certs \<and> covers_subdomain base domain
     \<and> (\<forall>(b, _) \<in> set certs. covers_subdomain b domain \<longrightarrow> length b \<le> length base)"

lemma longest_base_unique:
  assumes "distinct (map fst certs)" and "longest_base certs d b ck" and "longest_base certs d b' ck'"
  shows "b = b' \<and> ck = ck'"
proof -
  have "length b = length b'"
    using assms(2,3) by (fastforce simp: longest_base_def)
  then have "b = b'"
    using assms(2,3) covers_subdomain_same_length by (auto simp: longest_base_def)
  then show ?thesis
    using assms by (auto simp: longest_base_def dest: eq_key_imp_eq_value)
qed

lemma max_by_key_longest_base:
  assumes "max_by_key (\<lambda>(base, _). length base)
             (filter (\<lambda>(base, _). covers_subdomain base d) certs) = Some (b, ck)"
  shows "longest_base certs d b ck"
  using max_by_key_Some [OF assms] by (auto simp: longest_base_def)

lemma get_cert_for_domain_cases:
  fixes r :: "'ck certificate_resolver" and requested :: string
  defines "d \<equiv> to_ascii_lowercase (trim_end_char CHR ''.'' requested)"
  shows "map_of (cr_certs r) d = Some ck \<Longrightarrow> get_cert_for_domain r requested = Inr ck"
    and "map_of (cr_certs r) d = None \<Longrightarrow> distinct (map fst (cr_certs r)) \<Longrightarrow>
           longest_base (cr_certs r) d b ck \<Longrightarrow> get_cert_for_domain r requested = Inr ck"
    and "map_of (cr_certs r) d = None \<Longrightarrow>
           \<forall>(b, _) \<in> set (cr_certs r). \<not> covers_subdomain b d \<Longrightarrow>
           get_cert_for_domain r requested = ok_or (Certificate (NotConfigured d)) (cr_default r)"
proof -
  show "get_cert_for_domain r requested = Inr ck" if "map_of (cr_certs r) d = Some ck"
    using that by (simp add: get_cert_for_domain_def d_def)
next
  let ?fs = "filter (\<lambda>(base, _). covers_subdomain base d) (cr_certs r)"
  show "get_cert_for_domain r requested = Inr ck"
    if none: "map_of (cr_certs r) d = None" and dist: "distinct (map fst (cr_certs r))"
      and lb: "longest_base (cr_certs r) d b ck"
  proof -
    have "?fs \<noteq> []"
      using lb by (auto simp: longest_base_def filter_empty_conv)
    then obtain b' ck' where m: "max_by_key (\<lambda>(base, _). length base) ?fs = Some (b', ck')"
      using max_by_key_None_iff by (metis option.exhaust surj_pair)
    then have "ck' = ck"
      using max_by_key_longest_base [OF m] longest_base_unique [OF dist lb] by blast
    with m none show ?thesis
      by (simp add: get_cert_for_domain_def d_def [symmetric])
  qed
next
  show "get_cert_for_domain r requested = ok_or (Certificate (NotConfigured d)) (cr_default r)"
    if none: "map_of (cr_certs r) d = None"
      and nc: "\<forall>(b, _) \<in> set (cr_certs r). \<not> covers_subdomain b d"
  proof -
    have "filter (\<lambda>(base, _). covers_subdomain base d) (cr_certs r) = []"
      using nc by (auto simp: filter_empty_conv)
    then show ?thesis
      using none by (simp add: get_cert_for_domain_def d_def [symmetric])
  qed
qed

text \<open>Every lookup falls into one of the three cases, so the answer only depends on the map.\<close>

lemma longest_base_exists:
  assumes "\<not> (\<forall>(b, _) \<in> set certs. \<not> covers_subdomain b d)"
  shows "\<exists>b ck. longest_base certs d b ck"
proof -
  have "filter (\<lambda>(base, _). covers_subdomain base d) certs \<noteq> []"
    using assms by (auto simp: filter_empty_conv)
  then obtain b ck where m: "max_by_key (\<lambda>(base, _). length base)
      (filter (\<lambda>(base, _). covers_subdomain base d) certs) = Some (b, ck)"
    using max_by_key_None_iff by (metis option.exhaust surj_pair)
  show ?thesis using max_by_key_longest_base [OF m] by blast
qed

lemma get_cert_for_domain_order_free:
  assumes "distinct (map fst certs)" and dist': "distinct (map fst certs')"
    and set_eq: "set certs' = set certs"
  shows "get_cert_for_domain \<lparr>cr_certs = certs', cr_default = dflt\<rparr> requested
           = get_cert_for_domain \<lparr>cr_certs = certs, cr_default = dflt\<rparr> requested"
proof -
  let ?d = "to_ascii_lowercase (trim_end_char CHR ''.'' requested)"
  let ?r = "\<lparr>cr_certs = certs, cr_default = dflt\<rparr>" and ?r' = "\<lparr>cr_certs = certs', cr_default = dflt\<rparr>"
  have map_eq: "map_of certs' = map_of certs"
    using dist' assms(1) set_eq by (simp add: map_of_inject_set)
  have lb_eq: "longest_base certs' d b ck \<longleftrightarrow> longest_base certs d b ck" for d b ck
    by (simp add: longest_base_def set_eq)
  consider ck where "map_of certs ?d = Some ck"
    | b ck where "map_of certs ?d = None" "longest_base certs ?d b ck"
    | "map_of certs ?d = None" "\<forall>(b, _) \<in> set certs. \<not> covers_subdomain b ?d"
    using longest_base_exists by (metis option.exhaust)
  then show ?thesis
  proof cases
    case (1 ck)
    then show ?thesis
      using get_cert_for_domain_cases(1) [of ?r] get_cert_for_domain_cases(1) [of ?r'] map_eq by simp
  next
    case (2 b ck)
    then show ?thesis
      using get_cert_for_domain_cases(2) [of ?r requested b ck]
        get_cert_for_domain_cases(2) [of ?r' requested b ck] map_eq assms(1) dist' lb_eq by simp
  next
    case 3
    then show ?thesis
      using get_cert_for_domain_cases(3) [of ?r] get_cert_for_domain_cases(3) [of ?r'] map_eq set_eq
      by simp
  qed
qed

text \<open>A key that ends in a dot never serves a request: the requested name is trimmed, the key is not.\<close>

lemma dotted_key_not_selected:
  assumes "b \<noteq> []" and "last b = CHR ''.''"
  shows "b \<noteq> to_ascii_lowercase (trim_end_char CHR ''.'' requested)"
    and "\<not> covers_subdomain b (to_ascii_lowercase (trim_end_char CHR ''.'' requested))"
proof -
  let ?d = "to_ascii_lowercase (trim_end_char CHR ''.'' requested)"
  have last_d: "?d \<noteq> [] \<Longrightarrow> last ?d \<noteq> CHR ''.''"
    using trim_end_char_not_end [of "CHR ''.''" requested]
    by (auto simp: to_ascii_lowercase_def last_map ascii_simps)
  then show "b \<noteq> ?d" using assms by auto
  show "\<not> covers_subdomain b ?d"
  proof
    assume "covers_subdomain b ?d"
    then obtain p where "?d = p @ CHR ''.'' # b"
      by (auto simp: covers_subdomain_iff)
    with last_d show False using assms by simp
  qed
qed

end
