(* ===== verification/Config_Validation.thy ===== *)
theory Config_Validation
  imports Rewriter Tls_Utils
begin

section \<open>Validation of a configuration (\<open>AppConfig::validate\<close>)\<close>

text \<open>
  The checks of \<open>validate_structure\<close> in the order of the code, each with its message,
  and the predicate they decide. \<open>std::net::SocketAddr\<close> parsing and
  \<open>std::fs::metadata\<close> depend on the host and are the parameter \<open>validation_env\<close>; an IP
  address is an abstract type.
\<close>

record 'ip validation_env =
  ve_parse_socket_addr :: "string \<Rightarrow> ('ip \<times> u16) option"
  ve_file_exists :: "string \<Rightarrow> bool"

record listener =
  ls_name :: string
  ls_transport :: string
  ls_enabled :: bool
  ls_bind_address :: string
  ls_port :: u16

definition port_listener :: "string \<Rightarrow> string \<Rightarrow> server_port_config \<Rightarrow> listener" where
  "port_listener name transport s = \<lparr>ls_name = name, ls_transport = transport,
     ls_enabled = sp_enabled s, ls_bind_address = sp_bind_address s, ls_port = sp_port s\<rparr>"

definition standard_listeners :: "servers_config \<Rightarrow> listener list" where
  "standard_listeners s =
     [port_listener ''dot'' ''tcp'' (srv_dot s), port_listener ''doh'' ''tcp'' (srv_doh s),
      port_listener ''doq'' ''udp'' (srv_doq s), port_listener ''doh3'' ''udp'' (srv_doh3 s)]"

definition healthcheck_listener :: "servers_config \<Rightarrow> listener" where
  "healthcheck_listener s = \<lparr>ls_name = ''healthcheck'', ls_transport = ''tcp'',
     ls_enabled = hc_enabled (srv_healthcheck s),
     ls_bind_address = hc_bind_address (srv_healthcheck s), ls_port = hc_port (srv_healthcheck s)\<rparr>"

definition check_listener ::
    "'ip validation_env \<Rightarrow> listener \<Rightarrow> (string \<times> 'ip \<times> u16) list
     \<Rightarrow> anyhow_error + (string \<times> 'ip \<times> u16) list" where
  "check_listener env l ports =
     (if ls_enabled l then
        let addr = host_port (ls_bind_address l) (ls_port l)
        in case ve_parse_socket_addr env addr of
             Some (ip, port) \<Rightarrow>
               if (ls_transport l, ip, port) \<in> set ports
               then Inl (''Port conflict: '' @ show_nat (unat port) @ '' is already used by another server'')
               else Inr ((ls_transport l, ip, port) # ports)
           | None \<Rightarrow> Inl (''Invalid bind address for '' @ ls_name l @ '': '' @ addr)
      else Inr ports)"

definition check_certificate_files ::
    "'ip validation_env \<Rightarrow> string \<Rightarrow> string \<Rightarrow> certificate_config \<Rightarrow> anyhow_error + unit" where
  "check_certificate_files env cert_msg key_msg cc =
     and_then (ensure (ve_file_exists env (cert_file cc)) (cert_msg @ cert_file cc)) (\<lambda>_.
     ensure (ve_file_exists env (key_file cc)) (key_msg @ key_file cc))"

definition any_dns_listener :: "servers_config \<Rightarrow> bool" where
  "any_dns_listener s \<longleftrightarrow>
     list_ex id [sp_enabled (srv_dot s), sp_enabled (srv_doh s), sp_enabled (srv_doq s), sp_enabled (srv_doh3 s)]"

definition validate_structure :: "'ip validation_env \<Rightarrow> app_config \<Rightarrow> anyhow_error + unit" where
  "validate_structure env c =
     and_then (try_fold (check_listener env) (standard_listeners (cfg_servers c)) []) (\<lambda>ports.
     and_then (check_listener env (healthcheck_listener (cfg_servers c)) ports) (\<lambda>_.
     and_then (case tls_default (cfg_tls c) of None \<Rightarrow> Inr ()
               | Some cc \<Rightarrow> check_certificate_files env ''Default certificate file not found: ''
                              ''Default key file not found: '' cc) (\<lambda>_.
     and_then (try_fold (\<lambda>(domain, cc) _.
                 check_certificate_files env (''Certificate file not found for '' @ domain @ '': '')
                   (''Key file not found for '' @ domain @ '': '') cc) (tls_certs (cfg_tls c)) ()) (\<lambda>_.
     and_then (case upstream_ca_file (cfg_tls c) of None \<Rightarrow> Inr ()
               | Some p \<Rightarrow> ensure (ve_file_exists env p)
                             (''Upstream CA certificate file not found: '' @ p)) (\<lambda>_.
     and_then (ensure (base_domains (cfg_rewrite c) \<noteq> [])
                 ''At least one base domain must be configured for SNI rewriting'') (\<lambda>_.
     and_then (ensure (starts_with (target_suffix (cfg_rewrite c)) ''.'')
                 (''Target suffix must start with '' @ [CHR 0x27] @ ''.'' @ [CHR 0x27] @ '' (e.g., ''
                    @ [CHR 0x27] @ ''.example.cn'' @ [CHR 0x27] @ '')'')) (\<lambda>_.
     and_then (ensure (\<not> (list_ex (\<lambda>d. \<not> is_ascii_dns_name d) (base_domains (cfg_rewrite c))
                          \<or> \<not> is_ascii_dns_suffix (target_suffix (cfg_rewrite c))))
                 ''Rewrite domains must be lowercase ASCII DNS names'') (\<lambda>_.
     and_then (ensure (\<not> (max_connections_per_listener (cfg_limits c) = 0
                          \<or> max_inflight_requests_per_connection (cfg_limits c) = 0
                          \<or> max_upstream_pool_entries (cfg_limits c) = 0
                          \<or> transaction_timeout_seconds (cfg_limits c) = 0))
                 ''All resource limits must be greater than zero'') (\<lambda>_.
     and_then (ensure (\<not> (any_dns_listener (cfg_servers c) \<and> tls_default (cfg_tls c) = None
                          \<and> tls_certs (cfg_tls c) = []))
                 ''At least one TLS certificate is required when a DNS ingress listener is enabled'') (\<lambda>_.
     and_then (try_fold (\<lambda>(protocol, endpoint) _. ensure (starts_with (hu_path endpoint) ''/'')
                 (protocol @ '' upstream path must start with '' @ [CHR 0x27] @ ''/'' @ [CHR 0x27]))
                 [(''doh'', up_doh (cfg_upstream c)), (''doh3'', up_doh3 (cfg_upstream c))] ()) (\<lambda>_.
     try_fold (\<lambda>(protocol, server) _. ensure (starts_with (sp_path server) ''/'')
                 (protocol @ '' listener path must start with '' @ [CHR 0x27] @ ''/'' @ [CHR 0x27]))
                 [(''doh'', srv_doh (cfg_servers c)), (''doh3'', srv_doh3 (cfg_servers c))] ())))))))))))"

definition validate_and_load_upstream_roots ::
    "'ip validation_env \<Rightarrow> ('cert, 'anchor, 'key, 'skey) tls_lib \<Rightarrow> app_config
     \<Rightarrow> anyhow_error + 'anchor list" where
  "validate_and_load_upstream_roots env lib c =
     and_then (validate_structure env c) (\<lambda>_.
     map_err (\<lambda>e. ''Invalid upstream CA certificate bundle: '' @ show_error e)
       (load_upstream_root_store lib (upstream_ca_file (cfg_tls c))))"

definition validate ::
    "'ip validation_env \<Rightarrow> ('cert, 'anchor, 'key, 'skey) tls_lib \<Rightarrow> app_config \<Rightarrow> anyhow_error + unit" where
  "validate env lib c = and_then (validate_and_load_upstream_roots env lib c) (\<lambda>_. Inr ())"

subsection \<open>What validation decides\<close>

definition all_listeners :: "app_config \<Rightarrow> listener list" where
  "all_listeners c = standard_listeners (cfg_servers c) @ [healthcheck_listener (cfg_servers c)]"

definition listener_addr :: "'ip validation_env \<Rightarrow> listener \<Rightarrow> (string \<times> 'ip \<times> u16) option" where
  "listener_addr env l =
     map_option (Pair (ls_transport l))
       (ve_parse_socket_addr env (host_port (ls_bind_address l) (ls_port l)))"

definition enabled_addrs :: "'ip validation_env \<Rightarrow> listener list \<Rightarrow> (string \<times> 'ip \<times> u16) option list" where
  "enabled_addrs env ls = map (listener_addr env) (filter ls_enabled ls)"

text \<open>Every enabled listener has an address, and no two share transport, IP and port.\<close>

definition listeners_ok :: "'ip validation_env \<Rightarrow> listener list \<Rightarrow> bool" where
  "listeners_ok env ls \<longleftrightarrow> None \<notin> set (enabled_addrs env ls) \<and> distinct (enabled_addrs env ls)"

definition certificate_files_ok :: "'ip validation_env \<Rightarrow> certificate_config \<Rightarrow> bool" where
  "certificate_files_ok env cc \<longleftrightarrow> ve_file_exists env (cert_file cc) \<and> ve_file_exists env (key_file cc)"

definition limits_ok :: "limits_config \<Rightarrow> bool" where
  "limits_ok l \<longleftrightarrow> 0 < max_connections_per_listener l \<and> 0 < max_inflight_requests_per_connection l
     \<and> 0 < max_upstream_pool_entries l \<and> 0 < transaction_timeout_seconds l"

definition paths_ok :: "app_config \<Rightarrow> bool" where
  "paths_ok c \<longleftrightarrow>
     (\<forall>p \<in> {hu_path (up_doh (cfg_upstream c)), hu_path (up_doh3 (cfg_upstream c)),
            sp_path (srv_doh (cfg_servers c)), sp_path (srv_doh3 (cfg_servers c))}. starts_with p ''/'')"

definition config_ok :: "'ip validation_env \<Rightarrow> app_config \<Rightarrow> bool" where
  "config_ok env c \<longleftrightarrow>
     listeners_ok env (all_listeners c)
     \<and> (\<forall>cc \<in> set_option (tls_default (cfg_tls c)) \<union> snd ` set (tls_certs (cfg_tls c)). certificate_files_ok env cc)
     \<and> (\<forall>p \<in> set_option (upstream_ca_file (cfg_tls c)). ve_file_exists env p)
     \<and> valid_rewrite_config (cfg_rewrite c)
     \<and> limits_ok (cfg_limits c)
     \<and> (any_dns_listener (cfg_servers c) \<longrightarrow> tls_default (cfg_tls c) \<noteq> None \<or> tls_certs (cfg_tls c) \<noteq> [])
     \<and> paths_ok c"

lemma check_listener_Inr_iff:
  "check_listener env l ports = Inr ports' \<longleftrightarrow>
     (if ls_enabled l
      then \<exists>a. listener_addr env l = Some a \<and> a \<notin> set ports \<and> ports' = a # ports
      else ports' = ports)"
  by (auto simp: check_listener_def listener_addr_def Let_def split: option.splits)

text \<open>The loop keeps the addresses it has seen, so it succeeds exactly when they are distinct.\<close>

lemma check_listeners_Inr_iff:
  "(\<exists>ports'. try_fold (check_listener env) ls ports = Inr ports') \<longleftrightarrow>
     listeners_ok env ls \<and> set (enabled_addrs env ls) \<inter> Some ` set ports = {}"
proof (induction ls arbitrary: ports)
  case Nil
  then show ?case by (simp add: listeners_ok_def enabled_addrs_def)
next
  case (Cons l ls)
  show ?case
  proof (cases "ls_enabled l")
    case False
    then have "try_fold (check_listener env) (l # ls) ports = try_fold (check_listener env) ls ports"
      and "enabled_addrs env (l # ls) = enabled_addrs env ls"
      by (simp_all add: check_listener_def enabled_addrs_def)
    then show ?thesis
      using Cons.IH [of ports] by (simp add: listeners_ok_def del: try_fold.simps)
  next
    case True
    then have addrs: "enabled_addrs env (l # ls) = listener_addr env l # enabled_addrs env ls"
      by (simp add: enabled_addrs_def)
    show ?thesis
    proof (cases "\<exists>a. listener_addr env l = Some a \<and> a \<notin> set ports")
      case True
      then obtain a where a: "listener_addr env l = Some a" "a \<notin> set ports" by blast
      then have "check_listener env l ports = Inr (a # ports)"
        using \<open>ls_enabled l\<close> by (simp add: check_listener_Inr_iff)
      then have step: "try_fold (check_listener env) (l # ls) ports
          = try_fold (check_listener env) ls (a # ports)" by simp
      show ?thesis
        unfolding step Cons.IH addrs listeners_ok_def using a by auto
    next
      case False
      then have "\<nexists>ports'. check_listener env l ports = Inr ports'"
        using \<open>ls_enabled l\<close> by (auto simp: check_listener_Inr_iff)
      then have "\<nexists>ports'. try_fold (check_listener env) (l # ls) ports = Inr ports'"
        by (auto simp: res_simps)
      moreover have "listener_addr env l = None \<or> (\<exists>a \<in> set ports. listener_addr env l = Some a)"
        using False by (cases "listener_addr env l") auto
      ultimately show ?thesis
        unfolding addrs listeners_ok_def by auto
    qed
  qed
qed

lemma try_fold_append:
  "try_fold f (xs @ ys) s = and_then (try_fold f xs s) (try_fold f ys)"
proof (induction xs arbitrary: s)
  case Nil
  then show ?case by simp
next
  case (Cons x xs)
  then show ?case by (cases "f x s") auto
qed

lemma listeners_stage_iff:
  "(\<exists>ports ports'. try_fold (check_listener env) (standard_listeners (cfg_servers c)) [] = Inr ports
      \<and> check_listener env (healthcheck_listener (cfg_servers c)) ports = Inr ports')
   \<longleftrightarrow> listeners_ok env (all_listeners c)"
proof -
  have "(\<exists>ports'. try_fold (check_listener env) (all_listeners c) [] = Inr ports')
      \<longleftrightarrow> listeners_ok env (all_listeners c)"
    by (simp add: check_listeners_Inr_iff)
  then show ?thesis
    by (simp add: all_listeners_def try_fold_append res_simps) blast
qed

lemma check_certificate_files_Inr_iff:
  "check_certificate_files env m k cc = Inr () \<longleftrightarrow> certificate_files_ok env cc"
  by (simp add: check_certificate_files_def certificate_files_ok_def res_simps)

lemma check_certs_Inr_iff:
  "try_fold (\<lambda>(domain, cc) _. check_certificate_files env (m domain) (k domain) cc) certs () = Inr ()
     \<longleftrightarrow> (\<forall>cc \<in> snd ` set certs. certificate_files_ok env cc)"
proof -
  have eq: "(\<lambda>(domain, cc) (_ :: unit). check_certificate_files env (m domain) (k domain) cc)
      = (\<lambda>x _. case x of (domain, cc) \<Rightarrow> check_certificate_files env (m domain) (k domain) cc)"
    by auto
  show ?thesis
    unfolding eq try_fold_unit_Inr_iff by (auto simp: check_certificate_files_Inr_iff)
qed

lemma validate_structure_iff: "validate_structure env c = Inr () \<longleftrightarrow> config_ok env c"
proof -
  have opt: "(case x of None \<Rightarrow> Inr () | Some y \<Rightarrow> f y) = Inr () \<longleftrightarrow> (\<forall>y \<in> set_option x. f y = Inr ())"
    for x :: "'z option" and f :: "'z \<Rightarrow> anyhow_error + unit"
    by (cases x) auto
  show ?thesis
    unfolding validate_structure_def config_ok_def
    by (auto simp: res_simps opt check_certificate_files_Inr_iff check_certs_Inr_iff
        listeners_stage_iff [symmetric] valid_rewrite_config_def limits_ok_def paths_ok_def
        is_ascii_dns_suffix_def list_ex_iff list_all_iff word_neq_0_conv)
qed

lemma config_ok_rewriter:
  assumes "config_ok env c"
  shows "valid_rewriter (create_rewriter (cfg_rewrite c))"
    and "rw_config (create_rewriter (cfg_rewrite c)) = cfg_rewrite c"
  using assms by (simp_all add: config_ok_def create_rewriter_def valid_rewriter_new new_rewriter_canonical)

end
