(* ===== verification/Backoff.thy ===== *)
theory Backoff
  imports Prelude
begin

section \<open>Exponential backoff (\<open>src/utils/backoff.rs\<close>)\<close>

text \<open>
  The delay computation at its machine widths (saturating \<open>u64\<close> arithmetic) and the
  shared attempt counter: as a sequential operation, and as the two atomic accesses it
  is made of, interleaved over any number of callers. A \<open>Duration\<close> is its number of
  milliseconds.
\<close>

definition saturating_mul :: "u64 \<Rightarrow> u64 \<Rightarrow> u64" where
  "saturating_mul a b = (if unat a * unat b < 2 ^ 64 then a * b else - 1)"

definition saturating_pow :: "u64 \<Rightarrow> nat \<Rightarrow> u64" where
  "saturating_pow a n = (if unat a ^ n < 2 ^ 64 then a ^ n else - 1)"

definition exponential_backoff :: "u32 \<Rightarrow> u64 \<Rightarrow> u64 \<Rightarrow> u64" where
  "exponential_backoff attempt base_delay_ms max_delay_ms =
     min (saturating_mul base_delay_ms (saturating_pow 2 (unat (min attempt 10)))) max_delay_ms"

lemma unat_saturating_mul: "unat (saturating_mul a b) = min (unat a * unat b) (2 ^ 64 - 1)"
proof (cases "unat a * unat b < 2 ^ 64")
  case True
  then show ?thesis by (simp add: saturating_mul_def unat_word_ariths)
next
  case False
  moreover have "unat (- 1 :: u64) = 2 ^ 64 - 1"
    by (simp add: unsigned_minus_1_eq_mask mask_eq_exp_minus_1)
  ultimately show ?thesis by (simp add: saturating_mul_def)
qed

lemma unat_two_pow:
  assumes "n < 64"
  shows "unat ((2 :: u64) ^ n) = 2 ^ n"
proof -
  have "(2 :: u64) ^ n = of_nat (2 ^ n)" by simp
  then show ?thesis
    using assms by (simp only: unsigned_of_nat) (simp add: take_bit_nat_eq_self)
qed

lemma unat_min_word: "unat (min a b) = min (unat (a :: 'w::len word)) (unat b)"
  by (simp add: min_def word_le_nat_alt)

lemma unat_exponential_backoff:
  "unat (exponential_backoff attempt base maxd) =
     min (unat base * 2 ^ min (unat attempt) 10) (unat maxd)"
proof -
  let ?n = "min (unat attempt) 10"
  have n: "unat (min attempt 10) = ?n"
    by (simp add: unat_min_word)
  have lt: "(2 :: nat) ^ ?n < 2 ^ 64"
    by (rule power_strict_increasing) auto
  then have "unat (saturating_pow 2 ?n) = 2 ^ ?n"
    by (simp add: saturating_pow_def unat_two_pow)
  moreover have "unat maxd \<le> 2 ^ 64 - 1"
    using unsigned_less [of maxd, where 'a = nat] by simp
  ultimately show ?thesis
    unfolding exponential_backoff_def unat_min_word unat_saturating_mul n by simp
qed

lemma exponential_backoff_mono:
  assumes "a \<le> b"
  shows "exponential_backoff a base maxd \<le> exponential_backoff b base maxd"
proof -
  have "min (unat a) 10 \<le> min (unat b) 10"
    using assms by (auto simp: word_le_nat_alt)
  then have "unat base * 2 ^ min (unat a) 10 \<le> unat base * 2 ^ min (unat b) 10"
    by (intro mult_le_mono2 power_increasing) simp_all
  then show ?thesis
    unfolding word_le_nat_alt unat_exponential_backoff by (rule min.mono) simp
qed

subsection \<open>The counter\<close>

record backoff_counter =
  bc_counter :: u32

definition backoff_new :: backoff_counter where
  "backoff_new = \<lparr>bc_counter = 0\<rparr>"

text \<open>The two atomic accesses of \<open>next_delay\<close>: \<open>fetch_add\<close>, and the store that resets.\<close>

definition backoff_fetch :: "backoff_counter \<Rightarrow> u32 \<times> backoff_counter" where
  "backoff_fetch c = (bc_counter c, c\<lparr>bc_counter := bc_counter c + 1\<rparr>)"

definition backoff_finish :: "u32 \<Rightarrow> backoff_counter \<Rightarrow> backoff_counter" where
  "backoff_finish attempt c = (if 10 \<le> attempt then c\<lparr>bc_counter := 0\<rparr> else c)"

definition next_delay :: "u64 \<Rightarrow> u64 \<Rightarrow> backoff_counter \<Rightarrow> u64 \<times> backoff_counter" where
  "next_delay base_delay_ms max_delay_ms c =
     (let (attempt, c') = backoff_fetch c;
          delay = exponential_backoff attempt base_delay_ms max_delay_ms
      in (delay, backoff_finish attempt c'))"

text \<open>The delays of \<open>n\<close> calls in sequence, and the counter after them.\<close>

fun next_delays :: "u64 \<Rightarrow> u64 \<Rightarrow> nat \<Rightarrow> backoff_counter \<Rightarrow> u64 list \<times> backoff_counter" where
  "next_delays base maxd 0 c = ([], c)"
| "next_delays base maxd (Suc n) c =
     (let (ds, c') = next_delays base maxd n c; (d, c'') = next_delay base maxd c'
      in (ds @ [d], c''))"

lemma next_delay_counter:
  assumes "unat (bc_counter c) = k mod 11"
  shows "fst (next_delay base maxd c) = exponential_backoff (of_nat (k mod 11)) base maxd"
    and "unat (bc_counter (snd (next_delay base maxd c))) = Suc k mod 11"
proof -
  have c: "bc_counter c = of_nat (k mod 11)"
    using assms by (metis of_nat_unat ucast_id)
  then show "fst (next_delay base maxd c) = exponential_backoff (of_nat (k mod 11)) base maxd"
    by (simp add: next_delay_def backoff_fetch_def)
  have lt: "k mod 11 < 11" by simp
  show "unat (bc_counter (snd (next_delay base maxd c))) = Suc k mod 11"
  proof (cases "k mod 11 = 10")
    case True
    then have "Suc k mod 11 = 0" by (simp add: mod_Suc)
    moreover have "bc_counter c = 10" using c True by simp
    ultimately show ?thesis
      by (simp add: next_delay_def backoff_fetch_def backoff_finish_def)
  next
    case False
    then have "Suc k mod 11 = Suc (k mod 11)" by (simp add: mod_Suc)
    moreover have "\<not> 10 \<le> bc_counter c"
      using assms False lt by (simp add: word_le_nat_alt)
    moreover have "unat (bc_counter c + 1) = Suc (k mod 11)"
    proof -
      have "Suc (unat (bc_counter c)) < 2 ^ 32" using assms lt by simp
      then show ?thesis using assms by (simp add: unat_word_ariths)
    qed
    ultimately show ?thesis
      by (simp add: next_delay_def backoff_fetch_def backoff_finish_def)
  qed
qed

lemma next_delays_from_new:
  "fst (next_delays base maxd n backoff_new)
       = map (\<lambda>k. exponential_backoff (of_nat (k mod 11)) base maxd) [0..<n]
   \<and> unat (bc_counter (snd (next_delays base maxd n backoff_new))) = n mod 11"
proof (induction n)
  case 0
  then show ?case by (simp add: backoff_new_def)
next
  case (Suc n)
  obtain ds c' where r: "next_delays base maxd n backoff_new = (ds, c')" by fastforce
  with Suc.IH have "ds = map (\<lambda>k. exponential_backoff (of_nat (k mod 11)) base maxd) [0..<n]"
    and c': "unat (bc_counter c') = n mod 11" by simp_all
  then show ?case
    using r next_delay_counter [OF c', of base maxd]
    by (auto simp: split_beta Let_def)
qed

subsection \<open>Concurrent callers\<close>

text \<open>
  \<open>bs_pending\<close> holds the attempts fetched by callers that have not finished their call
  yet. The two accesses of different callers interleave freely.
\<close>

record backoff_sys =
  bs_counter :: backoff_counter
  bs_pending :: "u32 list"

definition backoff_init :: "backoff_sys \<Rightarrow> bool" where
  "backoff_init s \<longleftrightarrow> s = \<lparr>bs_counter = backoff_new, bs_pending = []\<rparr>"

inductive backoff_step :: "nat \<Rightarrow> backoff_sys \<Rightarrow> backoff_sys \<Rightarrow> bool" for callers :: nat where
  fetch: "length (bs_pending s) < callers \<Longrightarrow> backoff_fetch (bs_counter s) = (a, c) \<Longrightarrow>
     backoff_step callers s (s\<lparr>bs_counter := c, bs_pending := a # bs_pending s\<rparr>)"
| finish: "a \<in> set (bs_pending s) \<Longrightarrow>
     backoff_step callers s (s\<lparr>bs_counter := backoff_finish a (bs_counter s),
                               bs_pending := remove1 a (bs_pending s)\<rparr>)"

definition late_attempts :: "u32 list \<Rightarrow> nat" where
  "late_attempts as = length (filter (\<lambda>a. 10 \<le> a) as)"

text \<open>Every attempt past the tenth still owes a reset, so the counter stays near its limit.\<close>

definition backoff_inv :: "nat \<Rightarrow> backoff_sys \<Rightarrow> bool" where
  "backoff_inv callers s \<longleftrightarrow>
     length (bs_pending s) \<le> callers
     \<and> unat (bc_counter (bs_counter s)) \<le> 10 + late_attempts (bs_pending s)"

lemma late_attempts_le: "late_attempts as \<le> length as"
  by (simp add: late_attempts_def)

lemma late_attempts_remove1:
  "a \<in> set as \<Longrightarrow> late_attempts (remove1 a as) = (if 10 \<le> a then late_attempts as - 1 else late_attempts as)"
proof (induction as)
  case Nil
  then show ?case by simp
next
  case (Cons x as)
  show ?case
  proof (cases "x = a")
    case True
    then show ?thesis by (simp add: late_attempts_def)
  next
    case False
    with Cons.prems have a: "a \<in> set as" by simp
    then have "10 \<le> a \<Longrightarrow> 0 < late_attempts as"
      by (auto simp: late_attempts_def filter_empty_conv)
    with False Cons.IH [OF a] show ?thesis by (auto simp: late_attempts_def)
  qed
qed

lemma backoff_inv_step:
  assumes "callers + 11 < 2 ^ 32" and "backoff_inv callers s" and "backoff_step callers s t"
  shows "backoff_inv callers t"
  using assms(3)
proof cases
  case (fetch a c)
  have bound: "Suc (unat (bc_counter (bs_counter s))) < 2 ^ 32"
    using assms(1,2) late_attempts_le [of "bs_pending s"] by (simp add: backoff_inv_def)
  then have "unat (bc_counter (bs_counter s) + 1) = Suc (unat (bc_counter (bs_counter s)))"
    by (simp add: unat_word_ariths)
  moreover have "c = (bs_counter s)\<lparr>bc_counter := bc_counter (bs_counter s) + 1\<rparr>"
    "a = bc_counter (bs_counter s)"
    using fetch(3) by (auto simp: backoff_fetch_def)
  ultimately show ?thesis
    using fetch(1,2) assms(2)
    by (auto simp: backoff_inv_def late_attempts_def word_le_nat_alt)
next
  case (finish a)
  have len: "length (remove1 a (bs_pending s)) \<le> callers"
    using assms(2) by (auto simp: backoff_inv_def length_remove1)
  show ?thesis
  proof (cases "10 \<le> a")
    case True
    then show ?thesis using finish len by (simp add: backoff_inv_def backoff_finish_def)
  next
    case False
    then show ?thesis
      using finish len assms(2) late_attempts_remove1 [OF finish(2)]
      by (simp add: backoff_inv_def backoff_finish_def)
  qed
qed

interpretation backoff_sys: inductive_invariant backoff_init "backoff_step callers"
  "\<lambda>s. callers + 11 < 2 ^ 32 \<longrightarrow> backoff_inv callers s" for callers
proof unfold_locales
  fix s
  assume "backoff_init s"
  then show "callers + 11 < 2 ^ 32 \<longrightarrow> backoff_inv callers s"
    by (simp add: backoff_init_def backoff_inv_def backoff_new_def)
qed (blast intro: backoff_inv_step)

lemma backoff_reachable_inv:
  "callers + 11 < 2 ^ 32 \<Longrightarrow> reachable backoff_init (backoff_step callers) s \<Longrightarrow> backoff_inv callers s"
  using backoff_sys.reachable_inv by blast

end
