(* ===== verification/Metrics.thy ===== *)
theory Metrics
  imports Prelude "HOL-Library.Multiset"
begin

section \<open>Counters (\<open>src/metrics.rs\<close>)\<close>

text \<open>
  Eight atomic 64 bit counters that wrap on overflow. A \<open>Duration\<close> is its number of
  microseconds (a \<open>u128\<close>). The decimal rendering of a duration in seconds goes
  through \<open>f64\<close> and is a parameter of \<open>prometheus\<close>.
\<close>

record metrics =
  total_requests :: u64
  successful_requests :: u64
  failed_requests :: u64
  bytes_received :: u64
  bytes_sent :: u64
  sni_rewrites :: u64
  upstream_errors :: u64
  processing_duration_micros :: u64

definition metrics_new :: metrics where
  "metrics_new = \<lparr>total_requests = 0, successful_requests = 0, failed_requests = 0,
     bytes_received = 0, bytes_sent = 0, sni_rewrites = 0, upstream_errors = 0,
     processing_duration_micros = 0\<rparr>"

definition record_request :: "bool \<Rightarrow> u64 \<Rightarrow> u64 \<Rightarrow> nat \<Rightarrow> metrics \<Rightarrow> metrics" where
  "record_request success received sent duration m =
     (let m = m\<lparr>total_requests := total_requests m + 1\<rparr>;
          m = (if success then m\<lparr>successful_requests := successful_requests m + 1\<rparr>
               else m\<lparr>failed_requests := failed_requests m + 1\<rparr>);
          m = m\<lparr>bytes_received := bytes_received m + received\<rparr>;
          m = m\<lparr>bytes_sent := bytes_sent m + sent\<rparr>
      in m\<lparr>processing_duration_micros :=
             processing_duration_micros m + of_nat (min duration (2 ^ 64 - 1))\<rparr>)"

definition record_sni_rewrite :: "metrics \<Rightarrow> metrics" where
  "record_sni_rewrite m = m\<lparr>sni_rewrites := sni_rewrites m + 1\<rparr>"

definition record_upstream_error :: "metrics \<Rightarrow> metrics" where
  "record_upstream_error m = m\<lparr>upstream_errors := upstream_errors m + 1\<rparr>"

text \<open>\<open>snapshot\<close> loads every counter; with no concurrent writer it is the counters' values.\<close>

definition snapshot :: "metrics \<Rightarrow> metrics" where
  "snapshot m = \<lparr>total_requests = total_requests m, successful_requests = successful_requests m,
     failed_requests = failed_requests m, bytes_received = bytes_received m,
     bytes_sent = bytes_sent m, sni_rewrites = sni_rewrites m,
     upstream_errors = upstream_errors m,
     processing_duration_micros = processing_duration_micros m\<rparr>"

definition newline :: string where "newline = [CHR 0x0A]"

definition prometheus_counter :: "string \<Rightarrow> u64 \<Rightarrow> string" where
  "prometheus_counter name v =
     ''# TYPE '' @ name @ '' counter'' @ newline @ name @ '' '' @ show_nat (unat v) @ newline"

definition prometheus :: "(u64 \<Rightarrow> string) \<Rightarrow> metrics \<Rightarrow> string" where
  "prometheus show_seconds m =
     (let s = snapshot m
      in prometheus_counter ''dns_ingress_requests_total'' (total_requests s)
         @ prometheus_counter ''dns_ingress_requests_success_total'' (successful_requests s)
         @ prometheus_counter ''dns_ingress_requests_failed_total'' (failed_requests s)
         @ prometheus_counter ''dns_ingress_bytes_received_total'' (bytes_received s)
         @ prometheus_counter ''dns_ingress_bytes_sent_total'' (bytes_sent s)
         @ prometheus_counter ''dns_ingress_sni_rewrites_total'' (sni_rewrites s)
         @ prometheus_counter ''dns_ingress_upstream_errors_total'' (upstream_errors s)
         @ ''# TYPE dns_ingress_request_duration_seconds summary'' @ newline
         @ ''dns_ingress_request_duration_seconds_sum ''
         @ show_seconds (processing_duration_micros s) @ newline
         @ ''dns_ingress_request_duration_seconds_count ''
         @ show_nat (unat (total_requests s)) @ newline)"

subsection \<open>Runs of recordings\<close>

datatype metric_op =
    RecordRequest bool u64 u64 nat
  | RecordSniRewrite
  | RecordUpstreamError

fun apply_metric :: "metric_op \<Rightarrow> metrics \<Rightarrow> metrics" where
  "apply_metric (RecordRequest ok r s d) = record_request ok r s d"
| "apply_metric RecordSniRewrite = record_sni_rewrite"
| "apply_metric RecordUpstreamError = record_upstream_error"

definition apply_metrics :: "metric_op list \<Rightarrow> metrics \<Rightarrow> metrics" where
  "apply_metrics ops = fold apply_metric ops"

lemma record_request_simps [simp]:
  "total_requests (record_request ok r s d m) = total_requests m + 1"
  "successful_requests (record_request ok r s d m) = successful_requests m + (if ok then 1 else 0)"
  "failed_requests (record_request ok r s d m) = failed_requests m + (if ok then 0 else 1)"
  "bytes_received (record_request ok r s d m) = bytes_received m + r"
  "bytes_sent (record_request ok r s d m) = bytes_sent m + s"
  "sni_rewrites (record_request ok r s d m) = sni_rewrites m"
  "upstream_errors (record_request ok r s d m) = upstream_errors m"
  "processing_duration_micros (record_request ok r s d m)
     = processing_duration_micros m + of_nat (min d (2 ^ 64 - 1))"
  by (simp_all add: record_request_def Let_def)

lemma record_sni_rewrite_simps [simp]:
  "total_requests (record_sni_rewrite m) = total_requests m"
  "successful_requests (record_sni_rewrite m) = successful_requests m"
  "failed_requests (record_sni_rewrite m) = failed_requests m"
  "bytes_received (record_sni_rewrite m) = bytes_received m"
  "bytes_sent (record_sni_rewrite m) = bytes_sent m"
  "sni_rewrites (record_sni_rewrite m) = sni_rewrites m + 1"
  "upstream_errors (record_sni_rewrite m) = upstream_errors m"
  "processing_duration_micros (record_sni_rewrite m) = processing_duration_micros m"
  by (simp_all add: record_sni_rewrite_def)

lemma record_upstream_error_simps [simp]:
  "total_requests (record_upstream_error m) = total_requests m"
  "successful_requests (record_upstream_error m) = successful_requests m"
  "failed_requests (record_upstream_error m) = failed_requests m"
  "bytes_received (record_upstream_error m) = bytes_received m"
  "bytes_sent (record_upstream_error m) = bytes_sent m"
  "sni_rewrites (record_upstream_error m) = sni_rewrites m"
  "upstream_errors (record_upstream_error m) = upstream_errors m + 1"
  "processing_duration_micros (record_upstream_error m) = processing_duration_micros m"
  by (simp_all add: record_upstream_error_def)

lemma snapshot_eq [simp]: "snapshot m = m"
  by (simp add: snapshot_def)

definition metrics_balanced :: "metrics \<Rightarrow> bool" where
  "metrics_balanced m \<longleftrightarrow> total_requests m = successful_requests m + failed_requests m"

lemma metrics_balanced_new: "metrics_balanced metrics_new"
  by (simp add: metrics_balanced_def metrics_new_def)

lemma metrics_balanced_apply: "metrics_balanced m \<Longrightarrow> metrics_balanced (apply_metric op m)"
  by (cases op) (simp_all add: metrics_balanced_def)

lemma metrics_balanced_apply_metrics:
  "metrics_balanced m \<Longrightarrow> metrics_balanced (apply_metrics ops m)"
  unfolding apply_metrics_def
  by (induction ops arbitrary: m) (simp_all add: metrics_balanced_apply)

end
