(* ===== verification/Props_Config.thy ===== *)
theory Props_Config
  imports Config_Validation Backoff Metrics
begin

section \<open>Properties of configuration, names, certificates and counters\<close>

text \<open>
  What validation decides, what a rewritten name looks like, which certificate is chosen,
  the delays of the backoff counter and the bookkeeping of the metrics. Each property
  that has hypotheses is followed by an instance of it.
\<close>

subsection \<open>Rewriting\<close>

text \<open>
  C4 What \<open>rewrite\<close> returns: a result exactly when the suffix starts with a dot, the
  normalised name has only host name characters, and it lies under a configured base
  domain; then the first such base in configuration order decides the prefix, and the
  target is the prefix followed by the target suffix.
\<close>

theorem rewrite_first_base:
  "rewrite rw sni = Some r \<longleftrightarrow>
     starts_with (target_suffix (rw_config rw)) ''.'' \<and> list_all dns_char (normalize_sni sni)
     \<and> (\<exists>bs1 b bs2 p. base_domains (rw_config rw) = bs1 @ b # bs2
          \<and> p \<noteq> [] \<and> normalize_sni sni = p @ CHR ''.'' # b
          \<and> (\<forall>b' \<in> set bs1. \<not> matches_base b' (normalize_sni sni))
          \<and> r = \<lparr>rr_original = normalize_sni sni, rr_prefix = p,
                 rr_target_hostname = p @ target_suffix (rw_config rw)\<rparr>)"
proof -
  have "normalize_sni [] = []" by (simp add: normalize_sni_def)
  then show ?thesis
    unfolding rewrite_Some_iff extract_prefix_from_Some_iff under_base_def by (cases "sni = []") auto
qed

definition sample_config :: rewrite_config where
  "sample_config = \<lparr>base_domains = [''example.com'', ''example.org''], target_suffix = ''.example.cn''\<rparr>"

lemma sample_normalize: "normalize_sni ''WWW.example.org.'' = ''www.example.org''"
  by code_simp

lemma sample_no_match: "\<not> matches_base ''example.com'' ''www.example.org''"
  unfolding matches_base_def under_base_def
  by (auto dest!: arg_cong [where f = last] simp: last_append)

theorem rewrite_first_base_witness:
  "rewrite (create_rewriter sample_config) ''WWW.example.org.'' =
     Some \<lparr>rr_original = ''www.example.org'', rr_prefix = ''www'', rr_target_hostname = ''www.example.cn''\<rparr>"
  unfolding rewrite_first_base sample_normalize
  by (intro conjI exI [of _ "[''example.com'']"] exI [of _ "''example.org''"] exI [of _ "[]"]
      exI [of _ "''www''"])
     (simp_all add: sample_no_match sample_config_def create_rewriter_def new_rewriter_def trim_end_char_def
        to_ascii_lowercase_def lower_char_def ascii_upper_def starts_with_def dns_char_def
        ascii_lower_def ascii_digit_def)


text \<open>A configuration with one TLS certificate, the other settings at their defaults.\<close>

definition sample_env :: "nat validation_env" where
  "sample_env = \<lparr>ve_parse_socket_addr =
       (\<lambda>a. map_of [(''0.0.0.0:853'', (0, 853)), (''0.0.0.0:443'', (0, 443)), (''0.0.0.0:8080'', (0, 8080))] a),
     ve_file_exists = (\<lambda>_. True)\<rparr>"

definition sample_app_config :: app_config where
  "sample_app_config = default_app_config\<lparr>cfg_tls := default_tls\<lparr>tls_default :=
     Some \<lparr>cert_file = ''cert.pem'', key_file = ''key.pem''\<rparr>\<rparr>\<rparr>"

lemma show_nat_ports:
  "show_nat 853 = ''853''" "show_nat 443 = ''443''" "show_nat 8080 = ''8080''"
  by (simp_all add: show_nat.simps digit_char_def char_of_eq_iff)

lemma sample_rewrite_valid: "valid_rewrite_config (cfg_rewrite sample_app_config)"
  by code_simp

lemma sample_config_ok: "config_ok sample_env sample_app_config"
proof -
  have "listeners_ok sample_env (all_listeners sample_app_config)"
    by (simp add: listeners_ok_def enabled_addrs_def all_listeners_def standard_listeners_def
        healthcheck_listener_def port_listener_def listener_addr_def sample_env_def sample_app_config_def
        default_app_config_def default_healthcheck_def host_port_def show_nat_ports)
  moreover have "limits_ok (cfg_limits sample_app_config)" and "paths_ok sample_app_config"
    by (simp_all add: sample_app_config_def default_app_config_def default_limits_def limits_ok_def
        paths_ok_def default_doh_path_def starts_with_def)
  ultimately show ?thesis
    using sample_rewrite_valid
    by (simp add: config_ok_def sample_env_def sample_app_config_def default_app_config_def
        default_tls_def certificate_files_ok_def)
qed


text \<open>
  If no configured base domain lies under another one, the order of the configured
  base domains does not matter.
\<close>

lemma rewrite_order_free:
  assumes "no_nested_bases (base_domains (rw_config rw))"
    and "set (base_domains (rw_config rw')) = set (base_domains (rw_config rw))"
    and "target_suffix (rw_config rw') = target_suffix (rw_config rw)"
  shows "rewrite rw' sni = rewrite rw sni"
proof -
  have "rewrite rw' sni = Some r \<longleftrightarrow> rewrite rw sni = Some r" for r
    unfolding rewrite_Some_iff using extract_prefix_from_order_free [OF assms(1,2)] assms(3) by simp
  then show ?thesis by (metis option.exhaust)
qed

text \<open>Nested base domains do depend on it.\<close>

lemma rewrite_order_matters:
  "rewrite (new_rewriter \<lparr>base_domains = [''org'', ''a.org''], target_suffix = ''.cn''\<rparr>) ''x.a.org''
     \<noteq> rewrite (new_rewriter \<lparr>base_domains = [''a.org'', ''org''], target_suffix = ''.cn''\<rparr>) ''x.a.org''"
  by code_simp

text \<open>Letter case and trailing dots of the name a client sends do not matter.\<close>

lemma rewrite_case_and_dots:
  "rewrite rw (to_ascii_lowercase sni @ replicate n CHR ''.'') = rewrite rw sni"
proof -
  have "rewrite rw (to_ascii_lowercase sni) = rewrite rw sni"
    by (rule rewrite_cong_normalize) (simp_all add: ascii_simps)
  then show ?thesis by (simp add: rewrite_dots)
qed

subsection \<open>Names and configuration\<close>


text \<open>
  C17 Validation succeeds exactly for the configurations that meet \<open>config_ok\<close> (listeners
  with an address each, none sharing transport, address and port; certificate files that
  exist; canonical rewrite names; limits above zero; a certificate for the DNS listeners;
  paths that start with a slash) and whose trust store loads.
\<close>

theorem validate_decides_config_ok:
  "validate env lib c = Inr () \<longleftrightarrow>
     config_ok env c \<and> (\<exists>roots. load_upstream_root_store lib (upstream_ca_file (cfg_tls c)) = Inr roots)"
  by (auto simp: validate_def validate_and_load_upstream_roots_def res_simps validate_structure_iff)

text \<open>The built-in default configuration is not one of them: it has DNS listeners and no certificate.\<close>

lemma default_config_rejected: "\<not> config_ok env default_app_config"
  by (simp add: config_ok_def default_app_config_def default_tls_def any_dns_listener_def)

text \<open>
  Loading a configuration file succeeds exactly when it can be read, is TOML without
  any of the fields version 2 removed, and deserialises: a removed field is never
  silently ignored, whatever the deserialiser does with it.
\<close>

lemma from_file_rejects_removed_fields:
  "from_file read_file parse_toml deserialize p = Inr c \<longleftrightarrow>
     (\<exists>content v. read_file p = Some content \<and> parse_toml content = Some v
        \<and> (\<forall>(s, k) \<in> set removed_v1_fields. \<not> toml_has_key v s k)
        \<and> deserialize content = Some c)"
proof -
  have unit_ex: "(\<exists>u. r = Inr u \<and> P) \<longleftrightarrow> r = Inr () \<and> P" for r :: "anyhow_error + unit" and P
    by auto
  show ?thesis
    unfolding from_file_def and_then_Inr_iff ok_or_Inr_iff unit_ex reject_removed_v1_fields_ok_iff by blast
qed

definition v1_document :: toml where
  "v1_document = TomlTable [(''tls'', TomlTable [(''require_client_cert'', TomlLeaf)])]"

subsection \<open>Certificates\<close>


text \<open>A certificate is a number here.\<close>

definition sample_resolver :: "nat certificate_resolver" where
  "sample_resolver = \<lparr>cr_certs = [(''org'', 1), (''example.org'', 2)], cr_default = Some 0\<rparr>"


text \<open>
  A certificate configured under a name with a trailing dot is never presented: the
  requested name is stripped of its dots, the configured one is not, so the answer is the
  same without that entry.
\<close>

lemma dotted_certificate_name_unused:
  assumes "name \<noteq> [] \<and> last name = CHR ''.''"
  shows "get_cert_for_domain \<lparr>cr_certs = (name, ck) # certs, cr_default = dflt\<rparr> requested
    = get_cert_for_domain \<lparr>cr_certs = certs, cr_default = dflt\<rparr> requested"
  using dotted_key_not_selected [of name requested] assms
  by (cases "map_of certs (to_ascii_lowercase (trim_end_char CHR ''.'' requested))")
     (simp_all add: get_cert_for_domain_def Let_def split: option.split)

subsection \<open>Backoff and metrics\<close>

text \<open>
  The delays a fresh counter gives to calls one after the other: the base delay doubles
  with every call, capped at the maximum delay, and starts again with every eleventh call;
  nothing overflows at any base or maximum.
\<close>

lemma backoff_delays:
  "map unat (fst (next_delays base maxd n backoff_new))
     = map (\<lambda>k. min (unat base * 2 ^ (k mod 11)) (unat maxd)) [0..<n]"
proof -
  have "unat (of_nat (k mod 11) :: u32) = k mod 11" for k
    using mod_less_divisor [of 11 k] by (simp add: unsigned_of_nat take_bit_nat_eq_self)
  moreover have "min (k mod 11) 10 = k mod 11" for k :: nat
    using mod_less_divisor [of 11 k] by simp
  ultimately show ?thesis
    by (simp add: next_delays_from_new unat_exponential_backoff comp_def)
qed

text \<open>
  With the two atomic accesses of its calls interleaved over any number of concurrent
  callers, the counter never exceeds ten by more than the number of callers, so it never
  wraps.
\<close>

lemma backoff_concurrent_bound:
  assumes "reachable backoff_init (backoff_step callers) s" and "callers + 11 < 2 ^ 32"
  shows "unat (bc_counter (bs_counter s)) \<le> 10 + callers"
  using backoff_reachable_inv [OF assms(2,1)] late_attempts_le [of "bs_pending s"]
  by (simp add: backoff_inv_def)

text \<open>What one recording adds to each counter.\<close>

fun requests_in :: "metric_op \<Rightarrow> bool \<Rightarrow> u64" where
  "requests_in (RecordRequest ok r s d) success = (if ok = success then 1 else 0)"
| "requests_in _ success = 0"

fun bytes_in :: "metric_op \<Rightarrow> u64 \<times> u64" where
  "bytes_in (RecordRequest ok r s d) = (r, s)"
| "bytes_in _ = (0, 0)"

text \<open>
  After any run of recordings every counter is the sum of what was recorded, modulo its
  width and whatever the order, and the requests are the successful and the failed ones.
\<close>

lemma metrics_are_sums:
  "let m = apply_metrics ops metrics_new in
     successful_requests m = sum_list (map (\<lambda>op. requests_in op True) ops)
     \<and> failed_requests m = sum_list (map (\<lambda>op. requests_in op False) ops)
     \<and> total_requests m = successful_requests m + failed_requests m
     \<and> bytes_received m = sum_list (map (fst \<circ> bytes_in) ops)
     \<and> bytes_sent m = sum_list (map (snd \<circ> bytes_in) ops)
     \<and> sni_rewrites m = of_nat (count_list ops RecordSniRewrite)
     \<and> upstream_errors m = of_nat (count_list ops RecordUpstreamError)"
proof -
  have sums: "successful_requests (apply_metrics ops m)
        = successful_requests m + sum_list (map (\<lambda>op. requests_in op True) ops)
      \<and> failed_requests (apply_metrics ops m)
        = failed_requests m + sum_list (map (\<lambda>op. requests_in op False) ops)
      \<and> bytes_received (apply_metrics ops m) = bytes_received m + sum_list (map (fst \<circ> bytes_in) ops)
      \<and> bytes_sent (apply_metrics ops m) = bytes_sent m + sum_list (map (snd \<circ> bytes_in) ops)
      \<and> sni_rewrites (apply_metrics ops m) = sni_rewrites m + of_nat (count_list ops RecordSniRewrite)
      \<and> upstream_errors (apply_metrics ops m)
        = upstream_errors m + of_nat (count_list ops RecordUpstreamError)" for m
    unfolding apply_metrics_def
  proof (induction ops arbitrary: m)
    case Nil
    then show ?case by simp
  next
    case (Cons op ops)
    then show ?case by (cases op) (simp_all add: ac_simps)
  qed
  have "total_requests (apply_metrics ops metrics_new)
      = successful_requests (apply_metrics ops metrics_new) + failed_requests (apply_metrics ops metrics_new)"
    using metrics_balanced_apply_metrics [OF metrics_balanced_new] by (simp add: metrics_balanced_def)
  then show ?thesis using sums [of metrics_new] by (simp add: Let_def metrics_new_def)
qed

end
