(* ===== verification/Quic_Pool.thy ===== *)
theory Quic_Pool
  imports Errors "HOL-Library.AList" "HOL-Library.Multiset"
begin

section \<open>Bounded QUIC and HTTP/3 session pools (\<open>src/upstream/quic_pool.rs\<close>)\<close>

text \<open>
  Both pools keep sessions in a map under a mutex and bound them by a semaphore: a
  permit lives in a \<open>PoolSlot\<close> shared (an \<open>Arc\<close>) by the cache entry and every lease
  handed out, and returns to the semaphore when the last of them is dropped. The two
  pools differ in their key and in how a connection is dialled; the operations are
  modelled once over any key type and composed per pool as the code does.
  A connection is a number; whether it is still open is the environment's
  \<open>alive\<close>, which the code asks through \<open>close_reason\<close> (QUIC) or the \<open>alive\<close> flag its
  driver clears (HTTP/3). Slots are numbered in the order they are created,
  \<open>slot_refs\<close> is \<open>Arc::strong_count\<close>. The map is an association list whose order
  stands for its unspecified iteration order.
\<close>

datatype quic_application = Doq | H3

fun alpn :: "quic_application \<Rightarrow> string" where
  "alpn Doq = ''doq''"
| "alpn H3 = ''h3''"

type_synonym quic_key = "quic_application \<times> string \<times> u16"
type_synonym h3_key = "string \<times> u16"

record lease =
  lease_conn :: nat
  lease_slot :: nat

record cached_lease =
  cl_lease :: lease
  cl_last_used :: nat

record 'k pool =
  entries :: "('k \<times> cached_lease) list"
  permits :: nat
  slot_refs :: "nat \<Rightarrow> nat"
  next_slot :: nat

definition pool_with_max :: "nat \<Rightarrow> 'k pool" where
  "pool_with_max max_entries =
     \<lparr>entries = [], permits = max_entries, slot_refs = (\<lambda>_. 0), next_slot = 0\<rparr>"

subsection \<open>Slots\<close>

definition try_acquire :: "'k pool \<Rightarrow> (nat \<times> 'k pool) option" where
  "try_acquire p =
     (if permits p = 0 then None
      else Some (next_slot p, p\<lparr>permits := permits p - 1,
                               slot_refs := (slot_refs p)(next_slot p := 1),
                               next_slot := Suc (next_slot p)\<rparr>))"

definition clone_slot :: "nat \<Rightarrow> 'k pool \<Rightarrow> 'k pool" where
  "clone_slot sl p = p\<lparr>slot_refs := (slot_refs p)(sl := Suc (slot_refs p sl))\<rparr>"

definition drop_slot :: "nat \<Rightarrow> 'k pool \<Rightarrow> 'k pool" where
  "drop_slot sl p =
     (let p' = p\<lparr>slot_refs := (slot_refs p)(sl := slot_refs p sl - 1)\<rparr>
      in if slot_refs p sl = 1 then p'\<lparr>permits := Suc (permits p')\<rparr> else p')"

definition is_idle :: "'k pool \<Rightarrow> lease \<Rightarrow> bool" where
  "is_idle p l \<longleftrightarrow> slot_refs p (lease_slot l) = 1"

subsection \<open>The critical sections of \<open>get\<close>\<close>

text \<open>A live entry is touched and its lease cloned.\<close>

definition cached_hit :: "(nat \<Rightarrow> bool) \<Rightarrow> nat \<Rightarrow> 'k \<Rightarrow> 'k pool \<Rightarrow> (lease \<times> 'k pool) option" where
  "cached_hit alive now key p =
     (case map_of (entries p) key of
        Some e \<Rightarrow>
          if alive (lease_conn (cl_lease e))
          then Some (cl_lease e, clone_slot (lease_slot (cl_lease e))
                 (p\<lparr>entries := AList.update key (e\<lparr>cl_last_used := now\<rparr>) (entries p)\<rparr>))
          else None
      | None \<Rightarrow> None)"

definition remove_entry :: "'k \<Rightarrow> 'k pool \<Rightarrow> 'k pool" where
  "remove_entry key p =
     (case map_of (entries p) key of
        Some e \<Rightarrow> drop_slot (lease_slot (cl_lease e)) (p\<lparr>entries := AList.delete key (entries p)\<rparr>)
      | None \<Rightarrow> p)"

definition first_check :: "(nat \<Rightarrow> bool) \<Rightarrow> nat \<Rightarrow> 'k \<Rightarrow> 'k pool \<Rightarrow> lease option \<times> 'k pool" where
  "first_check alive now key p =
     (case cached_hit alive now key p of
        Some (l, p') \<Rightarrow> (Some l, p')
      | None \<Rightarrow> (None, remove_entry key p))"

definition entry_alive :: "(nat \<Rightarrow> bool) \<Rightarrow> 'k \<times> cached_lease \<Rightarrow> bool" where
  "entry_alive alive x \<longleftrightarrow> alive (lease_conn (cl_lease (snd x)))"

definition retain_alive :: "(nat \<Rightarrow> bool) \<Rightarrow> 'k pool \<Rightarrow> 'k pool" where
  "retain_alive alive p =
     fold drop_slot (map (\<lambda>x. lease_slot (cl_lease (snd x))) (filter (\<lambda>x. \<not> entry_alive alive x) (entries p)))
       (p\<lparr>entries := filter (entry_alive alive) (entries p)\<rparr>)"

text \<open>The least recently used idle entry leaves the map; its slot is still held by \<open>evicted\<close>.\<close>

definition evict_lru :: "'k pool \<Rightarrow> nat option \<times> 'k pool" where
  "evict_lru p =
     (case min_by_key (\<lambda>(_, e). cl_last_used e) (filter (\<lambda>(_, e). is_idle p (cl_lease e)) (entries p)) of
        None \<Rightarrow> (None, p)
      | Some (key, e) \<Rightarrow> (Some (lease_slot (cl_lease e)), p\<lparr>entries := AList.delete key (entries p)\<rparr>))"

definition evict_section :: "(nat \<Rightarrow> bool) \<Rightarrow> 'k pool \<Rightarrow> nat option \<times> 'k pool" where
  "evict_section alive p = evict_lru (retain_alive alive p)"

definition drop_evicted :: "nat option \<Rightarrow> 'k pool \<Rightarrow> 'k pool" where
  "drop_evicted ev p = (case ev of None \<Rightarrow> p | Some sl \<Rightarrow> drop_slot sl p)"

text \<open>The new connection becomes the entry of its key; a dead entry in its place is dropped.\<close>

definition insert_entry :: "nat \<Rightarrow> 'k \<Rightarrow> lease \<Rightarrow> 'k pool \<Rightarrow> 'k pool" where
  "insert_entry now key l p =
     (let old = map_of (entries p) key;
          p' = clone_slot (lease_slot l)
                 (p\<lparr>entries := AList.update key \<lparr>cl_lease = l, cl_last_used = now\<rparr> (entries p)\<rparr>)
      in case old of None \<Rightarrow> p' | Some e \<Rightarrow> drop_slot (lease_slot (cl_lease e)) p')"

subsection \<open>\<open>acquire_slot\<close>, \<open>get\<close> and \<open>invalidate\<close> run without interference\<close>

definition overloaded_error :: "string \<Rightarrow> u16 \<Rightarrow> string \<Rightarrow> dns_proxy_error" where
  "overloaded_error hostname port protocol = Overloaded (host_port hostname port) protocol"

definition pool_upstream_error :: "string \<Rightarrow> u16 \<Rightarrow> string \<Rightarrow> dns_proxy_error" where
  "pool_upstream_error hostname port reason =
     Upstream (ConnectionFailed (host_port hostname port) reason)"

definition acquire_slot ::
    "dns_proxy_error \<Rightarrow> (nat \<Rightarrow> bool) \<Rightarrow> 'k pool \<Rightarrow> (dns_proxy_error + nat) \<times> 'k pool" where
  "acquire_slot err alive p =
     (case try_acquire p of
        Some (sl, p') \<Rightarrow> (Inr sl, p')
      | None \<Rightarrow>
         (let (ev, p1) = evict_section alive p;
              p2 = drop_evicted ev p1
          in case try_acquire p2 of
               Some (sl, p3) \<Rightarrow> (Inr sl, p3)
             | None \<Rightarrow> (Inl err, p2)))"

definition quic_acquire_slot ::
    "(nat \<Rightarrow> bool) \<Rightarrow> string \<Rightarrow> u16 \<Rightarrow> quic_key pool \<Rightarrow> (dns_proxy_error + nat) \<times> quic_key pool" where
  "quic_acquire_slot alive hostname port = acquire_slot (overloaded_error hostname port ''QUIC'') alive"

definition h3_acquire_slot ::
    "(nat \<Rightarrow> bool) \<Rightarrow> string \<Rightarrow> u16 \<Rightarrow> h3_key pool \<Rightarrow> (dns_proxy_error + nat) \<times> h3_key pool" where
  "h3_acquire_slot alive hostname port = acquire_slot (overloaded_error hostname port ''HTTP/3'') alive"

text \<open>
  What name resolution and the QUIC handshake return (a connection is its number), and
  the errors \<open>get\<close> makes of it. HTTP/3 then sets up a client session on the
  connection, which may fail too (\<open>setup\<close> is the error, if any).
\<close>

datatype dial_result =
    LookupFailed string
  | NoAddresses
  | ConnectFailed string
  | Connected nat

fun quic_dial :: "string \<Rightarrow> u16 \<Rightarrow> dial_result \<Rightarrow> dns_proxy_error + nat" where
  "quic_dial hostname port (LookupFailed e) = Inl (pool_upstream_error hostname port e)"
| "quic_dial hostname port NoAddresses =
     Inl (pool_upstream_error hostname port ''DNS lookup returned no addresses'')"
| "quic_dial hostname port (ConnectFailed e) = Inl (pool_upstream_error hostname port e)"
| "quic_dial hostname port (Connected c) = Inr c"

definition h3_dial :: "string \<Rightarrow> u16 \<Rightarrow> dial_result \<Rightarrow> string option \<Rightarrow> dns_proxy_error + nat" where
  "h3_dial hostname port dial setup =
     and_then (quic_dial hostname port dial) (\<lambda>c.
     case setup of
       None \<Rightarrow> Inr c
     | Some e \<Rightarrow> Inl (Protocol (''HTTP/3 client setup failed: '' @ e)))"

text \<open>The last critical section: someone else may have published a session meanwhile.\<close>

definition publish ::
    "(nat \<Rightarrow> bool) \<Rightarrow> nat \<Rightarrow> 'k \<Rightarrow> nat \<Rightarrow> nat \<Rightarrow> 'k pool \<Rightarrow> lease \<times> 'k pool" where
  "publish alive now key conn sl p =
     (case cached_hit alive now key p of
        Some (l, p') \<Rightarrow> (l, drop_slot sl p')
      | None \<Rightarrow> (let l = \<lparr>lease_conn = conn, lease_slot = sl\<rparr> in (l, insert_entry now key l p)))"

definition pool_get ::
    "('k pool \<Rightarrow> (dns_proxy_error + nat) \<times> 'k pool) \<Rightarrow> (dns_proxy_error + nat)
     \<Rightarrow> (nat \<Rightarrow> bool) \<Rightarrow> nat \<Rightarrow> 'k \<Rightarrow> 'k pool \<Rightarrow> (dns_proxy_error + lease) \<times> 'k pool" where
  "pool_get acquire dialled alive now key p =
     (case first_check alive now key p of
        (Some l, p1) \<Rightarrow> (Inr l, p1)
      | (None, p1) \<Rightarrow>
         (case acquire p1 of
            (Inl e, p2) \<Rightarrow> (Inl e, p2)
          | (Inr sl, p2) \<Rightarrow>
             (case cached_hit alive now key p2 of
                Some (l, p3) \<Rightarrow> (Inr l, drop_slot sl p3)
              | None \<Rightarrow>
                 (case dialled of
                    Inl e \<Rightarrow> (Inl e, drop_slot sl p2)
                  | Inr conn \<Rightarrow> (let (l, p3) = publish alive now key conn sl p2 in (Inr l, p3))))))"

definition quic_pool_get ::
    "(nat \<Rightarrow> bool) \<Rightarrow> nat \<Rightarrow> dial_result \<Rightarrow> quic_application \<Rightarrow> string \<Rightarrow> u16 \<Rightarrow> quic_key pool
     \<Rightarrow> (dns_proxy_error + lease) \<times> quic_key pool" where
  "quic_pool_get alive now dial application hostname port =
     pool_get (quic_acquire_slot alive hostname port) (quic_dial hostname port dial) alive now
       (application, hostname, port)"

definition h3_pool_get ::
    "(nat \<Rightarrow> bool) \<Rightarrow> nat \<Rightarrow> dial_result \<Rightarrow> string option \<Rightarrow> string \<Rightarrow> u16 \<Rightarrow> h3_key pool
     \<Rightarrow> (dns_proxy_error + lease) \<times> h3_key pool" where
  "h3_pool_get alive now dial setup hostname port =
     pool_get (h3_acquire_slot alive hostname port) (h3_dial hostname port dial setup) alive now
       (hostname, port)"

definition quic_pool_invalidate :: "quic_application \<Rightarrow> string \<Rightarrow> u16 \<Rightarrow> quic_key pool \<Rightarrow> quic_key pool" where
  "quic_pool_invalidate application hostname port = remove_entry (application, hostname, port)"

definition h3_pool_invalidate :: "string \<Rightarrow> u16 \<Rightarrow> h3_key pool \<Rightarrow> h3_key pool" where
  "h3_pool_invalidate hostname port = remove_entry (hostname, port)"

end
