(* ===== verification/Pool_Accounting.thy ===== *)
theory Pool_Accounting
  imports Quic_Pool
begin

section \<open>Permit accounting and concurrent use of the session pools\<close>

text \<open>
  The contract of the slot operations as a locale: \<open>ok H p\<close> says that the pool's
  reference counts and permits agree with the multiset \<open>H\<close> of everything that holds a
  slot. On top of it, the pool operations preserve the accounting, and a step
  relation interleaves the critical sections of any number of \<open>get\<close> calls with
  returned leases, invalidations, cancellations and connections that die.
\<close>

subsection \<open>The slot contract\<close>

locale slot_accounting =
  fixes ok :: "nat multiset \<Rightarrow> 'p \<Rightarrow> bool"
    and acquire :: "'p \<Rightarrow> (nat \<times> 'p) option"
    and clone :: "nat \<Rightarrow> 'p \<Rightarrow> 'p"
    and release :: "nat \<Rightarrow> 'p \<Rightarrow> 'p"
    and free :: "'p \<Rightarrow> nat"
    and capacity :: nat
  assumes acquire_ok: "ok H p \<Longrightarrow> acquire p = Some (sl, p') \<Longrightarrow> sl \<notin># H \<and> ok (add_mset sl H) p'"
    and acquire_None: "ok H p \<Longrightarrow> acquire p = None \<longleftrightarrow> free p = 0"
    and clone_ok: "ok H p \<Longrightarrow> sl \<in># H \<Longrightarrow> ok (add_mset sl H) (clone sl p)"
    and release_ok: "ok (add_mset sl H) p \<Longrightarrow> ok H (release sl p)"
    and free_ok: "ok H p \<Longrightarrow> free p + card (set_mset H) = capacity"
begin

lemma release_all: "ok (mset sls + H) p \<Longrightarrow> ok H (fold release sls p)"
  by (induction sls arbitrary: p) (auto intro: release_ok)

lemma live_slots_le: "ok H p \<Longrightarrow> card (set_mset H) \<le> capacity"
  using free_ok by fastforce

lemma distinct_holders_le:
  assumes "ok H p" and "set xs \<subseteq> set_mset H" and "distinct xs"
  shows "length xs \<le> capacity"
proof -
  have "card (set xs) \<le> card (set_mset H)"
    using assms(2) by (intro card_mono) auto
  then show ?thesis
    using live_slots_le [OF assms(1)] assms(3) by (simp add: distinct_card)
qed

lemma exhausted_iff: "ok H p \<Longrightarrow> acquire p = None \<longleftrightarrow> card (set_mset H) = capacity"
  using acquire_None free_ok by fastforce

lemma all_released: "ok {#} p \<Longrightarrow> free p = capacity"
  using free_ok by fastforce

end

definition slots_ok :: "nat \<Rightarrow> nat multiset \<Rightarrow> 'k pool \<Rightarrow> bool" where
  "slots_ok max_entries H p \<longleftrightarrow>
     (\<forall>sl. slot_refs p sl = count H sl)
     \<and> permits p + card (set_mset H) = max_entries
     \<and> (\<forall>sl \<in># H. sl < next_slot p)"

lemma slots_ok_acquire:
  assumes "slots_ok m H p" and "try_acquire p = Some (sl, p')"
  shows "sl \<notin># H \<and> slots_ok m (add_mset sl H) p'"
proof -
  from assms(2) have p': "permits p \<noteq> 0" "sl = next_slot p"
    "p' = p\<lparr>permits := permits p - 1, slot_refs := (slot_refs p)(sl := 1), next_slot := Suc sl\<rparr>"
    by (auto simp: try_acquire_def split: if_splits)
  have fresh: "sl \<notin># H"
    using assms(1) p'(2) by (auto simp: slots_ok_def)
  then have "card (set_mset (add_mset sl H)) = Suc (card (set_mset H))"
    by simp
  with fresh p' assms(1) show ?thesis
    by (auto simp: slots_ok_def not_in_iff less_Suc_eq)
qed

lemma slots_ok_clone: "slots_ok m H p \<Longrightarrow> sl \<in># H \<Longrightarrow> slots_ok m (add_mset sl H) (clone_slot sl p)"
  by (auto simp: slots_ok_def clone_slot_def insert_absorb)

lemma slots_ok_drop:
  assumes "slots_ok m (add_mset sl H) p"
  shows "slots_ok m H (drop_slot sl p)"
proof (cases "sl \<in># H")
  case True
  then have "slot_refs p sl \<noteq> 1"
    using assms by (simp add: slots_ok_def)
  then have "drop_slot sl p = p\<lparr>slot_refs := (slot_refs p)(sl := slot_refs p sl - 1)\<rparr>"
    by (simp add: drop_slot_def Let_def)
  with True assms show ?thesis
    by (auto simp: slots_ok_def insert_absorb)
next
  case False
  then have "slot_refs p sl = 1"
    using assms by (simp add: slots_ok_def not_in_iff)
  moreover have "card (set_mset (add_mset sl H)) = Suc (card (set_mset H))"
    using False by simp
  ultimately show ?thesis
    using False assms by (auto simp: slots_ok_def drop_slot_def not_in_iff Let_def)
qed

interpretation pool_slots: slot_accounting "slots_ok m" try_acquire clone_slot drop_slot permits m for m
proof unfold_locales
  show "slots_ok m H p \<Longrightarrow> try_acquire p = Some (sl, p') \<Longrightarrow> sl \<notin># H \<and> slots_ok m (add_mset sl H) p'"
    for H sl and p p' :: "'k pool" by (rule slots_ok_acquire)
  show "slots_ok m H p \<Longrightarrow> (try_acquire p = None) = (permits p = 0)" for H and p :: "'k pool"
    by (simp add: try_acquire_def)
  show "slots_ok m H p \<Longrightarrow> sl \<in># H \<Longrightarrow> slots_ok m (add_mset sl H) (clone_slot sl p)"
    for H sl and p :: "'k pool" by (rule slots_ok_clone)
  show "slots_ok m (add_mset sl H) p \<Longrightarrow> slots_ok m H (drop_slot sl p)"
    for H sl and p :: "'k pool" by (rule slots_ok_drop)
  show "slots_ok m H p \<Longrightarrow> permits p + card (set_mset H) = m" for H and p :: "'k pool"
    by (simp add: slots_ok_def)
qed

lemma slots_ok_entries [simp]: "slots_ok m H (p\<lparr>entries := es\<rparr>) \<longleftrightarrow> slots_ok m H p"
  by (simp add: slots_ok_def)

lemma clone_slot_entries [simp]: "entries (clone_slot sl p) = entries p"
  by (simp add: clone_slot_def)

lemma drop_slot_entries [simp]: "entries (drop_slot sl p) = entries p"
  by (simp add: drop_slot_def Let_def)

lemma fold_drop_slot_entries [simp]: "entries (fold drop_slot sls p) = entries p"
  by (induction sls arbitrary: p) auto

subsection \<open>The slots the cache holds\<close>

definition entry_slot :: "'k \<times> cached_lease \<Rightarrow> nat" where
  "entry_slot x = lease_slot (cl_lease (snd x))"

definition cache_slots :: "('k \<times> cached_lease) list \<Rightarrow> nat multiset" where
  "cache_slots es = mset (map entry_slot es)"

definition keys_distinct :: "'k pool \<Rightarrow> bool" where
  "keys_distinct p \<longleftrightarrow> distinct (map fst (entries p))"

lemma cache_slots_delete:
  "distinct (map fst es) \<Longrightarrow> map_of es k = Some e \<Longrightarrow>
     cache_slots es = add_mset (lease_slot (cl_lease e)) (cache_slots (AList.delete k es))"
proof (induction es)
  case Nil
  then show ?case by simp
next
  case (Cons x es)
  show ?case
  proof (cases "fst x = k")
    case True
    then have "AList.delete k (x # es) = es"
      using Cons.prems(1) by (auto simp: AList.delete_eq filter_id_conv rev_image_eqI)
    moreover have "snd x = e"
      using Cons.prems(2) True by (cases x) simp
    ultimately show ?thesis by (simp add: cache_slots_def entry_slot_def)
  next
    case False
    then have "AList.delete k (x # es) = x # AList.delete k es" and "map_of es k = Some e"
      using Cons.prems(2) by (cases x; simp add: AList.delete_eq)+
    with Cons show ?thesis by (simp add: cache_slots_def add_mset_commute)
  qed
qed

lemma cache_slots_update_new:
  "map_of es k = None \<Longrightarrow>
     cache_slots (AList.update k e es) = add_mset (lease_slot (cl_lease e)) (cache_slots es)"
  by (induction es) (auto simp: cache_slots_def entry_slot_def split: if_splits)

lemma cache_slots_update_old:
  "map_of es k = Some e' \<Longrightarrow>
     add_mset (lease_slot (cl_lease e')) (cache_slots (AList.update k e es))
       = add_mset (lease_slot (cl_lease e)) (cache_slots es)"
  by (induction es) (auto simp: cache_slots_def entry_slot_def add_mset_commute split: if_splits)

lemma cache_slots_filter:
  "cache_slots es = mset (map entry_slot (filter (\<lambda>x. \<not> P x) es)) + cache_slots (filter P es)"
  by (induction es) (auto simp: cache_slots_def)

lemma map_of_slot_in_cache: "map_of es k = Some e \<Longrightarrow> lease_slot (cl_lease e) \<in># cache_slots es"
  by (induction es) (auto simp: cache_slots_def entry_slot_def split: if_splits)

subsection \<open>Each critical section keeps the accounting\<close>

lemma cached_hit_cache:
  assumes "cached_hit alive now key p = Some (l, p')"
  shows "cache_slots (entries p') = cache_slots (entries p)" and "lease_slot l \<in># cache_slots (entries p)"
    and "keys_distinct p \<Longrightarrow> keys_distinct p'" and "alive (lease_conn l)"
proof -
  from assms obtain e where e: "map_of (entries p) key = Some e" "alive (lease_conn (cl_lease e))"
    "l = cl_lease e"
    "p' = clone_slot (lease_slot (cl_lease e))
            (p\<lparr>entries := AList.update key (e\<lparr>cl_last_used := now\<rparr>) (entries p)\<rparr>)"
    by (auto simp: cached_hit_def split: option.splits if_splits)
  show "cache_slots (entries p') = cache_slots (entries p)"
    using cache_slots_update_old [OF e(1), of "e\<lparr>cl_last_used := now\<rparr>"] e(4) by simp
  show "lease_slot l \<in># cache_slots (entries p)"
    using map_of_slot_in_cache [OF e(1)] e(3) by simp
  show "keys_distinct p \<Longrightarrow> keys_distinct p'"
    using e(4) by (simp add: keys_distinct_def distinct_update)
  show "alive (lease_conn l)" using e by simp
qed

lemma cached_hit_ok:
  assumes "slots_ok m (cache_slots (entries p) + H) p" and "cached_hit alive now key p = Some (l, p')"
  shows "slots_ok m (cache_slots (entries p') + add_mset (lease_slot l) H) p'"
proof -
  from assms(2) obtain e where e: "l = cl_lease e"
    "p' = clone_slot (lease_slot (cl_lease e))
            (p\<lparr>entries := AList.update key (e\<lparr>cl_last_used := now\<rparr>) (entries p)\<rparr>)"
    by (auto simp: cached_hit_def split: option.splits if_splits)
  have "lease_slot l \<in># cache_slots (entries p) + H"
    using cached_hit_cache(2) [OF assms(2)] by simp
  then have "slots_ok m (add_mset (lease_slot l) (cache_slots (entries p) + H)) p'"
    using assms(1) e by (auto intro: slots_ok_clone)
  then show ?thesis
    using cached_hit_cache(1) [OF assms(2)] by simp
qed

lemma remove_entry_ok:
  assumes "slots_ok m (cache_slots (entries p) + H) p" and "keys_distinct p"
  shows "slots_ok m (cache_slots (entries (remove_entry key p)) + H) (remove_entry key p)"
    and "keys_distinct (remove_entry key p)"
    and "cache_slots (entries (remove_entry key p)) \<subseteq># cache_slots (entries p)"
proof -
  have del: "cache_slots (entries p) = add_mset (lease_slot (cl_lease e)) (cache_slots (AList.delete key (entries p)))"
    if "map_of (entries p) key = Some e" for e
    using that assms(2) by (simp add: cache_slots_delete keys_distinct_def)
  show "slots_ok m (cache_slots (entries (remove_entry key p)) + H) (remove_entry key p)"
    using assms(1) by (auto simp: remove_entry_def del intro: slots_ok_drop split: option.split)
  show "keys_distinct (remove_entry key p)"
    using assms(2) by (auto simp: remove_entry_def keys_distinct_def distinct_delete split: option.split)
  show "cache_slots (entries (remove_entry key p)) \<subseteq># cache_slots (entries p)"
    by (auto simp: remove_entry_def del split: option.split)
qed

lemma retain_alive_ok:
  assumes "slots_ok m (cache_slots (entries p) + H) p"
  shows "slots_ok m (cache_slots (entries (retain_alive alive p)) + H) (retain_alive alive p)"
proof -
  let ?es = "filter (entry_alive alive) (entries p)"
  have "slots_ok m (mset (map entry_slot (filter (\<lambda>x. \<not> entry_alive alive x) (entries p)))
          + (cache_slots ?es + H)) (p\<lparr>entries := ?es\<rparr>)"
    using assms cache_slots_filter [of "entries p" "entry_alive alive"] by (simp add: add.assoc)
  then have "slots_ok m (cache_slots ?es + H)
      (fold drop_slot (map entry_slot (filter (\<lambda>x. \<not> entry_alive alive x) (entries p))) (p\<lparr>entries := ?es\<rparr>))"
    by (rule pool_slots.release_all)
  then show ?thesis
    by (simp add: retain_alive_def entry_slot_def [abs_def])
qed

lemma retain_alive_entries: "entries (retain_alive alive p) = filter (entry_alive alive) (entries p)"
  by (simp add: retain_alive_def)

definition evicted_slots :: "nat option \<Rightarrow> nat multiset" where
  "evicted_slots ev = (case ev of None \<Rightarrow> {#} | Some sl \<Rightarrow> {#sl#})"

lemma evict_lru_ok:
  assumes "slots_ok m (cache_slots (entries p) + H) p" and "keys_distinct p"
    and "evict_lru p = (ev, p')"
  shows "slots_ok m (cache_slots (entries p') + (evicted_slots ev + H)) p'"
    and "keys_distinct p'"
    and "cache_slots (entries p) = cache_slots (entries p') + evicted_slots ev"
proof -
  consider "ev = None" "p' = p"
    | k e where "min_by_key (\<lambda>(_, e). cl_last_used e)
          (filter (\<lambda>(_, e). is_idle p (cl_lease e)) (entries p)) = Some (k, e)"
        "ev = Some (lease_slot (cl_lease e))" "p' = p\<lparr>entries := AList.delete k (entries p)\<rparr>"
    using assms(3) by (auto simp: evict_lru_def split: option.splits)
  then have eq: "cache_slots (entries p) = cache_slots (entries p') + evicted_slots ev \<and> keys_distinct p'
      \<and> slots_ok m (cache_slots (entries p) + H) p'"
  proof cases
    case 1
    then show ?thesis using assms by (simp add: evicted_slots_def)
  next
    case (2 k e)
    from min_by_key_Some [OF 2(1)] have "(k, e) \<in> set (entries p)" by auto
    then have "map_of (entries p) k = Some e"
      using assms(2) by (simp add: keys_distinct_def)
    then show ?thesis
      using 2(2,3) assms(1,2)
      by (simp add: evicted_slots_def keys_distinct_def distinct_delete cache_slots_delete)
  qed
  then show "cache_slots (entries p) = cache_slots (entries p') + evicted_slots ev" "keys_distinct p'"
    by simp_all
  show "slots_ok m (cache_slots (entries p') + (evicted_slots ev + H)) p'"
    using eq by (metis add.assoc)
qed

lemma evict_section_ok:
  assumes "slots_ok m (cache_slots (entries p) + H) p" and "keys_distinct p"
    and "evict_section alive p = (ev, p')"
  shows "slots_ok m (cache_slots (entries p') + (evicted_slots ev + H)) p'"
    and "keys_distinct p'"
    and "cache_slots (entries p') + evicted_slots ev \<subseteq># cache_slots (entries p)"
proof -
  let ?q = "retain_alive alive p"
  have q: "slots_ok m (cache_slots (entries ?q) + H) ?q" "keys_distinct ?q"
    using retain_alive_ok [OF assms(1)] assms(2)
    by (simp_all add: keys_distinct_def retain_alive_entries distinct_map_filter)
  note ev = evict_lru_ok [OF q assms(3) [unfolded evict_section_def]]
  show "slots_ok m (cache_slots (entries p') + (evicted_slots ev + H)) p'" "keys_distinct p'"
    by (rule ev)+
  show "cache_slots (entries p') + evicted_slots ev \<subseteq># cache_slots (entries p)"
    using ev(3) cache_slots_filter [of "entries p" "entry_alive alive"]
    by (simp add: retain_alive_entries)
qed

lemma drop_evicted_ok: "slots_ok m (evicted_slots ev + H) p \<Longrightarrow> slots_ok m H (drop_evicted ev p)"
  by (auto simp: drop_evicted_def evicted_slots_def intro: slots_ok_drop split: option.splits)

lemma drop_evicted_entries [simp]: "entries (drop_evicted ev p) = entries p"
  by (simp add: drop_evicted_def split: option.split)

lemma insert_entry_ok:
  assumes "slots_ok m (cache_slots (entries p) + add_mset (lease_slot l) H) p" and "keys_distinct p"
  shows "slots_ok m (cache_slots (entries (insert_entry now key l p)) + add_mset (lease_slot l) H)
           (insert_entry now key l p)"
    and "keys_distinct (insert_entry now key l p)"
    and "cache_slots (entries (insert_entry now key l p)) \<subseteq># add_mset (lease_slot l) (cache_slots (entries p))"
proof -
  let ?e = "\<lparr>cl_lease = l, cl_last_used = now\<rparr>"
  let ?es = "AList.update key ?e (entries p)"
  let ?p' = "clone_slot (lease_slot l) (p\<lparr>entries := ?es\<rparr>)"
  have cloned: "slots_ok m (add_mset (lease_slot l) (cache_slots (entries p) + add_mset (lease_slot l) H)) ?p'"
    using assms(1) by (intro slots_ok_clone) auto
  have "slots_ok m (cache_slots (entries (insert_entry now key l p)) + add_mset (lease_slot l) H)
           (insert_entry now key l p)
      \<and> cache_slots (entries (insert_entry now key l p)) \<subseteq># add_mset (lease_slot l) (cache_slots (entries p))"
  proof (cases "map_of (entries p) key")
    case None
    then have "insert_entry now key l p = ?p'"
      by (simp add: insert_entry_def)
    moreover have "cache_slots ?es = add_mset (lease_slot l) (cache_slots (entries p))"
      using cache_slots_update_new [OF None, of ?e] by simp
    ultimately show ?thesis using cloned by simp
  next
    case (Some e)
    then have ins: "insert_entry now key l p = drop_slot (lease_slot (cl_lease e)) ?p'"
      by (simp add: insert_entry_def)
    have upd: "add_mset (lease_slot (cl_lease e)) (cache_slots ?es)
        = add_mset (lease_slot l) (cache_slots (entries p))"
      using cache_slots_update_old [OF Some, of ?e] by simp
    have "slots_ok m (add_mset (lease_slot (cl_lease e)) (cache_slots ?es + add_mset (lease_slot l) H)) ?p'"
      using cloned upd by (metis union_mset_add_mset_left)
    then have "slots_ok m (cache_slots ?es + add_mset (lease_slot l) H) (drop_slot (lease_slot (cl_lease e)) ?p')"
      by (rule slots_ok_drop)
    moreover have "cache_slots ?es \<subseteq># add_mset (lease_slot l) (cache_slots (entries p))"
      using upd by (metis add_mset_add_single mset_subset_eq_add_left)
    ultimately show ?thesis
      using ins by simp
  qed
  then show "slots_ok m (cache_slots (entries (insert_entry now key l p)) + add_mset (lease_slot l) H)
           (insert_entry now key l p)"
    and "cache_slots (entries (insert_entry now key l p)) \<subseteq># add_mset (lease_slot l) (cache_slots (entries p))"
    by simp_all
  show "keys_distinct (insert_entry now key l p)"
    using assms(2) by (auto simp: insert_entry_def keys_distinct_def distinct_update Let_def split: option.split)
qed

end
