(* ===== verification/Pool_Concurrency.thy ===== *)
theory Pool_Concurrency
  imports Pool_Accounting
begin

section \<open>Interleaved use of a session pool\<close>

text \<open>
  \<open>get\<close> releases the mutex at every \<open>await\<close>, so calls interleave between its critical
  sections; a call may be cancelled there (its caller's timeout fires), leases are
  returned at any time, sessions are invalidated and connections die. A call in
  progress is the point it waits at. The bags of calls and of leases in use are
  multisets; which of them moves next is not determined.
\<close>

datatype 'k call =
    NeedSlot 'k               \<comment> \<open>missed in the cache, before the first try for a permit\<close>
  | Evicting 'k "nat option"  \<comment> \<open>after the eviction, its entry not yet dropped\<close>
  | Retrying 'k               \<comment> \<open>before the second try for a permit\<close>
  | HasSlot 'k nat            \<comment> \<open>owns a permit, before the second look at the cache\<close>
  | Dialing 'k nat            \<comment> \<open>resolving and connecting\<close>
  | Publishing 'k nat nat     \<comment> \<open>connected, before the last look at the cache\<close>

fun call_slots :: "'k call \<Rightarrow> nat multiset" where
  "call_slots (NeedSlot k) = {#}"
| "call_slots (Evicting k ev) = evicted_slots ev"
| "call_slots (Retrying k) = {#}"
| "call_slots (HasSlot k sl) = {#sl#}"
| "call_slots (Dialing k sl) = {#sl#}"
| "call_slots (Publishing k sl c) = {#sl#}"

fun abandon_call :: "'k call \<Rightarrow> 'k pool \<Rightarrow> 'k pool" where
  "abandon_call (NeedSlot k) p = p"
| "abandon_call (Evicting k ev) p = drop_evicted ev p"
| "abandon_call (Retrying k) p = p"
| "abandon_call (HasSlot k sl) p = drop_slot sl p"
| "abandon_call (Dialing k sl) p = drop_slot sl p"
| "abandon_call (Publishing k sl c) p = drop_slot sl p"

record 'k pool_sys =
  ps_pool :: "'k pool"
  ps_calls :: "'k call multiset"
  ps_leases :: "lease multiset"
  ps_closed :: "nat set"
  ps_next_conn :: nat

definition open_in :: "'k pool_sys \<Rightarrow> nat \<Rightarrow> bool" where
  "open_in s c \<longleftrightarrow> c \<notin> ps_closed s"

definition pool_init :: "nat \<Rightarrow> 'k pool_sys \<Rightarrow> bool" where
  "pool_init m s \<longleftrightarrow> s = \<lparr>ps_pool = pool_with_max m, ps_calls = {#}, ps_leases = {#},
     ps_closed = {}, ps_next_conn = 0\<rparr>"

inductive pool_step :: "'k pool_sys \<Rightarrow> 'k pool_sys \<Rightarrow> bool" where
  get_hit: "first_check (open_in s) now key (ps_pool s) = (Some l, p) \<Longrightarrow>
     pool_step s (s\<lparr>ps_pool := p, ps_leases := add_mset l (ps_leases s)\<rparr>)"
| get_miss: "first_check (open_in s) now key (ps_pool s) = (None, p) \<Longrightarrow>
     pool_step s (s\<lparr>ps_pool := p, ps_calls := add_mset (NeedSlot key) (ps_calls s)\<rparr>)"
| acquire: "ps_calls s = add_mset (NeedSlot key) C \<Longrightarrow> try_acquire (ps_pool s) = Some (sl, p) \<Longrightarrow>
     pool_step s (s\<lparr>ps_pool := p, ps_calls := add_mset (HasSlot key sl) C\<rparr>)"
| evict: "ps_calls s = add_mset (NeedSlot key) C \<Longrightarrow> try_acquire (ps_pool s) = None \<Longrightarrow>
     evict_section (open_in s) (ps_pool s) = (ev, p) \<Longrightarrow>
     pool_step s (s\<lparr>ps_pool := p, ps_calls := add_mset (Evicting key ev) C\<rparr>)"
| drop_evicted: "ps_calls s = add_mset (Evicting key ev) C \<Longrightarrow>
     pool_step s (s\<lparr>ps_pool := drop_evicted ev (ps_pool s), ps_calls := add_mset (Retrying key) C\<rparr>)"
| retry: "ps_calls s = add_mset (Retrying key) C \<Longrightarrow> try_acquire (ps_pool s) = Some (sl, p) \<Longrightarrow>
     pool_step s (s\<lparr>ps_pool := p, ps_calls := add_mset (HasSlot key sl) C\<rparr>)"
| overload: "ps_calls s = add_mset (Retrying key) C \<Longrightarrow> try_acquire (ps_pool s) = None \<Longrightarrow>
     pool_step s (s\<lparr>ps_calls := C\<rparr>)"
| recheck_hit: "ps_calls s = add_mset (HasSlot key sl) C \<Longrightarrow>
     cached_hit (open_in s) now key (ps_pool s) = Some (l, p) \<Longrightarrow>
     pool_step s (s\<lparr>ps_pool := drop_slot sl p, ps_calls := C, ps_leases := add_mset l (ps_leases s)\<rparr>)"
| recheck_miss: "ps_calls s = add_mset (HasSlot key sl) C \<Longrightarrow>
     cached_hit (open_in s) now key (ps_pool s) = None \<Longrightarrow>
     pool_step s (s\<lparr>ps_calls := add_mset (Dialing key sl) C\<rparr>)"
| dial_failed: "ps_calls s = add_mset (Dialing key sl) C \<Longrightarrow>
     pool_step s (s\<lparr>ps_pool := drop_slot sl (ps_pool s), ps_calls := C\<rparr>)"
| dialed: "ps_calls s = add_mset (Dialing key sl) C \<Longrightarrow>
     pool_step s (s\<lparr>ps_calls := add_mset (Publishing key sl (ps_next_conn s)) C,
                    ps_next_conn := Suc (ps_next_conn s)\<rparr>)"
| publish: "ps_calls s = add_mset (Publishing key sl c) C \<Longrightarrow>
     publish (open_in s) now key c sl (ps_pool s) = (l, p) \<Longrightarrow>
     pool_step s (s\<lparr>ps_pool := p, ps_calls := C, ps_leases := add_mset l (ps_leases s)\<rparr>)"
| cancel: "ps_calls s = add_mset call C \<Longrightarrow>
     pool_step s (s\<lparr>ps_pool := abandon_call call (ps_pool s), ps_calls := C\<rparr>)"
| return_lease: "ps_leases s = add_mset l B \<Longrightarrow>
     pool_step s (s\<lparr>ps_pool := drop_slot (lease_slot l) (ps_pool s), ps_leases := B\<rparr>)"
| invalidate: "pool_step s (s\<lparr>ps_pool := remove_entry key (ps_pool s)\<rparr>)"
| close: "pool_step s (s\<lparr>ps_closed := insert c (ps_closed s)\<rparr>)"

subsection \<open>The invariant\<close>

definition calls_slots :: "'k call multiset \<Rightarrow> nat multiset" where
  "calls_slots C = \<Sum>\<^sub># (image_mset call_slots C)"

text \<open>Owners of a permit are cache entries and calls; leases only share an owner's slot, or outlive it.\<close>

definition owner_slots :: "'k pool_sys \<Rightarrow> nat multiset" where
  "owner_slots s = cache_slots (entries (ps_pool s)) + calls_slots (ps_calls s)"

definition lease_slots :: "'k pool_sys \<Rightarrow> nat multiset" where
  "lease_slots s = image_mset lease_slot (ps_leases s)"

definition unshared :: "nat multiset \<Rightarrow> bool" where
  "unshared M \<longleftrightarrow> (\<forall>sl. count M sl \<le> 1)"

definition pool_sys_inv :: "nat \<Rightarrow> 'k pool_sys \<Rightarrow> bool" where
  "pool_sys_inv m s \<longleftrightarrow>
     slots_ok m (owner_slots s + lease_slots s) (ps_pool s)
     \<and> keys_distinct (ps_pool s) \<and> unshared (owner_slots s)"

lemma calls_slots_simps [simp]:
  "calls_slots {#} = {#}"
  "calls_slots (add_mset c C) = call_slots c + calls_slots C"
  by (simp_all add: calls_slots_def)

lemma unshared_mono: "M \<subseteq># N \<Longrightarrow> unshared N \<Longrightarrow> unshared M"
  unfolding unshared_def by (meson le_trans mset_subset_eq_count)

lemma unshared_add: "unshared M \<Longrightarrow> sl \<notin># M \<Longrightarrow> unshared (add_mset sl M)"
  by (auto simp: unshared_def not_in_iff)

lemma pool_sys_inv_init: "pool_init m s \<Longrightarrow> pool_sys_inv m s"
  by (simp add: pool_init_def pool_sys_inv_def slots_ok_def pool_with_max_def owner_slots_def
      lease_slots_def keys_distinct_def unshared_def cache_slots_def)

lemma pool_sys_inv_alt:
  "pool_sys_inv m s \<longleftrightarrow>
     slots_ok m (cache_slots (entries (ps_pool s)) + (calls_slots (ps_calls s) + image_mset lease_slot (ps_leases s))) (ps_pool s)
     \<and> keys_distinct (ps_pool s)
     \<and> unshared (cache_slots (entries (ps_pool s)) + calls_slots (ps_calls s))"
  by (simp add: pool_sys_inv_def owner_slots_def lease_slots_def add.assoc)

lemma abandon_call_ok:
  "slots_ok m (call_slots c + H) p \<Longrightarrow> slots_ok m H (abandon_call c p)"
  by (cases c) (auto intro: slots_ok_drop drop_evicted_ok)

lemma abandon_call_entries [simp]: "entries (abandon_call c p) = entries p"
  by (cases c) simp_all

lemma acquire_inv:
  assumes inv: "slots_ok m (cache_slots (entries q) + (calls_slots C + L)) q" "keys_distinct q"
      "unshared (cache_slots (entries q) + calls_slots C)"
    and acq: "try_acquire q = Some (sl, p)"
  shows "slots_ok m (cache_slots (entries p) + (add_mset sl (calls_slots C) + L)) p"
    and "keys_distinct p" and "unshared (cache_slots (entries p) + add_mset sl (calls_slots C))"
proof -
  have same: "entries p = entries q"
    using acq by (auto simp: try_acquire_def split: if_splits)
  from slots_ok_acquire [OF inv(1) acq]
  show "slots_ok m (cache_slots (entries p) + (add_mset sl (calls_slots C) + L)) p"
    and "keys_distinct p" and "unshared (cache_slots (entries p) + add_mset sl (calls_slots C))"
    using same inv(2,3) by (auto simp: keys_distinct_def intro: unshared_add)
qed

lemma first_check_inv:
  assumes inv: "slots_ok m (cache_slots (entries q) + (K + L)) q" "keys_distinct q"
      "unshared (cache_slots (entries q) + K)"
    and fc: "first_check alive now key q = (r, p)"
  shows "slots_ok m (cache_slots (entries p) + (K + (case r of None \<Rightarrow> L | Some l \<Rightarrow> add_mset (lease_slot l) L))) p"
    and "keys_distinct p" and "unshared (cache_slots (entries p) + K)"
proof -
  have "slots_ok m (cache_slots (entries p) + (K + (case r of None \<Rightarrow> L | Some l \<Rightarrow> add_mset (lease_slot l) L))) p
      \<and> keys_distinct p \<and> unshared (cache_slots (entries p) + K)"
  proof (cases "cached_hit alive now key q")
    case None
    then have p: "r = None" "p = remove_entry key q"
      using fc by (auto simp: first_check_def)
    have "cache_slots (entries p) + K \<subseteq># cache_slots (entries q) + K"
      using p(2) remove_entry_ok(3) [OF inv(1,2)] by simp
    then have "unshared (cache_slots (entries p) + K)"
      using inv(3) by (rule unshared_mono)
    then show ?thesis
      using p remove_entry_ok(1,2) [OF inv(1,2), of key] by simp
  next
    case (Some lp)
    then obtain l where hit: "cached_hit alive now key q = Some (l, p)" and r: "r = Some l"
      using fc by (cases lp) (auto simp: first_check_def)
    show ?thesis
      using cached_hit_ok [OF inv(1) hit] cached_hit_cache(1,3) [OF hit] inv(2,3) r by simp
  qed
  then show "slots_ok m (cache_slots (entries p) + (K + (case r of None \<Rightarrow> L | Some l \<Rightarrow> add_mset (lease_slot l) L))) p"
    and "keys_distinct p" and "unshared (cache_slots (entries p) + K)" by simp_all
qed

lemma publish_inv:
  assumes inv: "slots_ok m (cache_slots (entries q) + (add_mset sl K + L)) q" "keys_distinct q"
      "unshared (cache_slots (entries q) + add_mset sl K)"
    and pb: "publish alive now key c sl q = (l, p)"
  shows "slots_ok m (cache_slots (entries p) + (K + add_mset (lease_slot l) L)) p"
    and "keys_distinct p" and "unshared (cache_slots (entries p) + K)"
proof -
  have "slots_ok m (cache_slots (entries p) + (K + add_mset (lease_slot l) L)) p
      \<and> keys_distinct p \<and> unshared (cache_slots (entries p) + K)"
  proof (cases "cached_hit alive now key q")
    case None
    then have l: "l = \<lparr>lease_conn = c, lease_slot = sl\<rparr>" and p: "p = insert_entry now key l q"
      using pb by (auto simp: publish_def Let_def)
    have ok: "slots_ok m (cache_slots (entries q) + add_mset (lease_slot l) (K + L)) q"
      using inv(1) l by simp
    have "cache_slots (entries p) + K \<subseteq># cache_slots (entries q) + add_mset sl K"
      using insert_entry_ok(3) [OF ok inv(2), of now key] p l by simp
    then have "unshared (cache_slots (entries p) + K)"
      using inv(3) by (rule unshared_mono)
    then show ?thesis
      using insert_entry_ok(1,2) [OF ok inv(2), of now key] p by simp
  next
    case (Some lq)
    then obtain q' where hit: "cached_hit alive now key q = Some (l, q')" and p: "p = drop_slot sl q'"
      using pb by (cases lq) (auto simp: publish_def)
    have "slots_ok m (cache_slots (entries q') + add_mset (lease_slot l) (add_mset sl (K + L))) q'"
      using cached_hit_ok [of m q "add_mset sl (K + L)"] inv(1) hit by simp
    then have "slots_ok m (add_mset sl (cache_slots (entries q') + add_mset (lease_slot l) (K + L))) q'"
      by (simp add: add_mset_commute)
    then have "slots_ok m (cache_slots (entries q') + add_mset (lease_slot l) (K + L)) p"
      unfolding p by (rule slots_ok_drop)
    moreover have "unshared (cache_slots (entries q) + K)"
      using inv(3) by (rule unshared_mono [rotated]) simp
    ultimately show ?thesis
      using cached_hit_cache(1,3) [OF hit] inv(2) p by (simp add: keys_distinct_def)
  qed
  then show "slots_ok m (cache_slots (entries p) + (K + add_mset (lease_slot l) L)) p"
    and "keys_distinct p" and "unshared (cache_slots (entries p) + K)" by simp_all
qed

lemma drop_call_slot:
  assumes "slots_ok m (Es + ((call_slots c + K) + L)) p" and "unshared (Es + (call_slots c + K))"
  shows "slots_ok m (Es + (K + L)) (abandon_call c p)" and "unshared (Es + K)"
proof -
  have "slots_ok m (call_slots c + (Es + (K + L))) p"
    using assms(1) by (simp add: ac_simps)
  then show "slots_ok m (Es + (K + L)) (abandon_call c p)"
    by (rule abandon_call_ok)
  show "unshared (Es + K)"
    using assms(2) by (rule unshared_mono [rotated]) simp
qed

lemma pool_step_inv:
  assumes "pool_sys_inv m s" and "pool_step s t"
  shows "pool_sys_inv m t"
  using assms(2)
proof cases
  case (get_hit now key l p)
  then show ?thesis
    using assms(1) first_check_inv [of m "ps_pool s" "calls_slots (ps_calls s)"
        "image_mset lease_slot (ps_leases s)" "open_in s" now key "Some l" p]
    by (simp add: pool_sys_inv_alt)
next
  case (get_miss now key p)
  then show ?thesis
    using assms(1) first_check_inv [of m "ps_pool s" "calls_slots (ps_calls s)"
        "image_mset lease_slot (ps_leases s)" "open_in s" now key None p]
    by (simp add: pool_sys_inv_alt)
next
  case (acquire key C sl p)
  then show ?thesis
    using assms(1) acquire_inv [of m "ps_pool s" C "image_mset lease_slot (ps_leases s)" sl p] by (simp add: pool_sys_inv_alt)
next
  case (evict key C ev p)
  let ?L = "image_mset lease_slot (ps_leases s)"
  have inv: "slots_ok m (cache_slots (entries (ps_pool s)) + (calls_slots C + ?L)) (ps_pool s)"
    "keys_distinct (ps_pool s)" "unshared (cache_slots (entries (ps_pool s)) + calls_slots C)"
    using assms(1) evict(2) by (simp_all add: pool_sys_inv_alt)
  note es = evict_section_ok [OF inv(1,2) evict(4)]
  have "unshared (cache_slots (entries p) + (evicted_slots ev + calls_slots C))"
    using unshared_mono [OF _ inv(3)] es(3) by (simp add: add.assoc [symmetric])
  then show ?thesis
    using evict(1) es(1,2) by (simp add: pool_sys_inv_alt add.assoc)
next
  case (drop_evicted key ev C)
  then show ?thesis
    using assms(1) drop_call_slot [of m "cache_slots (entries (ps_pool s))" "Evicting key ev" "calls_slots C"
        "image_mset lease_slot (ps_leases s)" "ps_pool s"]
    by (simp add: pool_sys_inv_alt keys_distinct_def)
next
  case (retry key C sl p)
  then show ?thesis
    using assms(1) acquire_inv [of m "ps_pool s" C "image_mset lease_slot (ps_leases s)" sl p] by (simp add: pool_sys_inv_alt)
next
  case (overload key C)
  then show ?thesis using assms(1) by (simp add: pool_sys_inv_alt)
next
  case (recheck_hit key sl C now l p)
  let ?L = "image_mset lease_slot (ps_leases s)"
  have pb: "publish (open_in s) now key 0 sl (ps_pool s) = (l, drop_slot sl p)"
    using recheck_hit(3) by (simp add: publish_def)
  show ?thesis
    using assms(1) recheck_hit(1,2) publish_inv [OF _ _ _ pb, of m "calls_slots C" ?L]
    by (simp add: pool_sys_inv_alt)
next
  case (recheck_miss key sl C now)
  then show ?thesis using assms(1) by (simp add: pool_sys_inv_alt)
next
  case (dial_failed key sl C)
  then show ?thesis
    using assms(1) drop_call_slot [of m "cache_slots (entries (ps_pool s))" "Dialing key sl" "calls_slots C"
        "image_mset lease_slot (ps_leases s)" "ps_pool s"]
    by (simp add: pool_sys_inv_alt keys_distinct_def)
next
  case (dialed key sl C)
  then show ?thesis using assms(1) by (simp add: pool_sys_inv_alt)
next
  case (publish key sl c C now l p)
  then show ?thesis
    using assms(1) publish_inv [OF _ _ _ publish(3), of m "calls_slots C" "image_mset lease_slot (ps_leases s)"]
    by (simp add: pool_sys_inv_alt)
next
  case (cancel call C)
  then show ?thesis
    using assms(1) drop_call_slot [of m "cache_slots (entries (ps_pool s))" call "calls_slots C"
        "image_mset lease_slot (ps_leases s)" "ps_pool s"]
    by (simp add: pool_sys_inv_alt keys_distinct_def)
next
  case (return_lease l B)
  have "slots_ok m (add_mset (lease_slot l) (cache_slots (entries (ps_pool s))
      + (calls_slots (ps_calls s) + image_mset lease_slot B))) (ps_pool s)"
    using assms(1) return_lease(2) by (simp add: pool_sys_inv_alt)
  then show ?thesis
    using assms(1) return_lease(1) slots_ok_drop by (simp add: pool_sys_inv_alt keys_distinct_def)
next
  case (invalidate key)
  let ?H = "calls_slots (ps_calls s) + image_mset lease_slot (ps_leases s)"
  have inv: "slots_ok m (cache_slots (entries (ps_pool s)) + ?H) (ps_pool s)" "keys_distinct (ps_pool s)"
    using assms(1) by (simp_all add: pool_sys_inv_alt)
  have "cache_slots (entries (remove_entry key (ps_pool s))) + calls_slots (ps_calls s)
      \<subseteq># cache_slots (entries (ps_pool s)) + calls_slots (ps_calls s)"
    by (rule subset_mset.add_right_mono) (rule remove_entry_ok(3) [OF inv])
  moreover have "unshared (cache_slots (entries (ps_pool s)) + calls_slots (ps_calls s))"
    using assms(1) by (simp add: pool_sys_inv_alt)
  ultimately have "unshared (cache_slots (entries (remove_entry key (ps_pool s))) + calls_slots (ps_calls s))"
    by (rule unshared_mono)
  then show ?thesis
    using invalidate remove_entry_ok(1,2) [OF inv, of key] by (simp add: pool_sys_inv_alt)
next
  case (close c)
  then show ?thesis using assms(1) by (simp add: pool_sys_inv_alt)
qed

interpretation pool_sys: inductive_invariant "pool_init m" pool_step "pool_sys_inv m" for m
  by unfold_locales (auto intro: pool_sys_inv_init pool_step_inv)

subsection \<open>What the invariant gives\<close>

text \<open>Calls that own a permit: they are resolving, connecting or about to publish.\<close>

fun owns_permit :: "'k call \<Rightarrow> bool" where
  "owns_permit (HasSlot k sl) = True"
| "owns_permit (Dialing k sl) = True"
| "owns_permit (Publishing k sl c) = True"
| "owns_permit _ = False"

lemma size_filter_le_calls_slots:
  "size (filter_mset owns_permit C) \<le> size (calls_slots C)"
proof (induction C)
  case empty
  then show ?case by simp
next
  case (add c C)
  then show ?case by (cases c) (auto simp: evicted_slots_def split: option.split)
qed

lemma unshared_size: "unshared M \<Longrightarrow> size M = card (set_mset M)"
proof (induction M)
  case empty
  then show ?case by simp
next
  case (add x M)
  have "unshared M"
    using add.prems by (rule unshared_mono [rotated]) simp
  moreover have "x \<notin># M"
    using add.prems by (auto simp: unshared_def not_in_iff split: if_splits dest: spec [of _ x])
  ultimately show ?case using add.IH by simp
qed

lemma pool_sys_capacity:
  assumes "pool_sys_inv m s"
  shows "permits (ps_pool s) + card (set_mset (owner_slots s + lease_slots s)) = m"
    and "length (entries (ps_pool s)) + size (filter_mset owns_permit (ps_calls s)) \<le> m"
proof -
  let ?H = "owner_slots s + lease_slots s"
  have ok: "slots_ok m ?H (ps_pool s)" and u: "unshared (owner_slots s)"
    using assms by (simp_all add: pool_sys_inv_def)
  show total: "permits (ps_pool s) + card (set_mset ?H) = m"
    using pool_slots.free_ok [OF ok] .
  have "length (entries (ps_pool s)) + size (filter_mset owns_permit (ps_calls s)) \<le> size (owner_slots s)"
    using size_filter_le_calls_slots [of "ps_calls s"] by (simp add: owner_slots_def cache_slots_def)
  also have "\<dots> = card (set_mset (owner_slots s))"
    by (rule unshared_size [OF u])
  also have "\<dots> \<le> card (set_mset ?H)"
    by (intro card_mono) auto
  finally show "length (entries (ps_pool s)) + size (filter_mset owns_permit (ps_calls s)) \<le> m"
    using total by simp
qed

lemma pool_sys_quiescent:
  assumes "pool_sys_inv m s" and "ps_calls s = {#}" and "ps_leases s = {#}"
  shows "permits (ps_pool s) + length (entries (ps_pool s)) = m"
proof -
  have "owner_slots s + lease_slots s = cache_slots (entries (ps_pool s))"
    using assms(2,3) by (simp add: owner_slots_def lease_slots_def)
  moreover have "card (set_mset (cache_slots (entries (ps_pool s)))) = length (entries (ps_pool s))"
    using assms unshared_size [of "cache_slots (entries (ps_pool s))"]
    by (simp add: pool_sys_inv_def owner_slots_def cache_slots_def)
  ultimately show ?thesis
    using pool_sys_capacity(1) [OF assms(1)] by simp
qed

lemma pool_sys_lease_reserved:
  assumes "pool_sys_inv m s" and "l \<in># ps_leases s"
  shows "0 < slot_refs (ps_pool s) (lease_slot l)" and "permits (ps_pool s) < m"
proof -
  have ok: "slots_ok m (owner_slots s + lease_slots s) (ps_pool s)"
    and l: "lease_slot l \<in># owner_slots s + lease_slots s"
    using assms by (auto simp: pool_sys_inv_def lease_slots_def)
  then show "0 < slot_refs (ps_pool s) (lease_slot l)"
    by (simp only: slots_ok_def) (simp only: count_greater_zero_iff)
  have "0 < card (set_mset (owner_slots s + lease_slots s))"
    using l by (metis card_gt_0_iff empty_iff finite_set_mset)
  then show "permits (ps_pool s) < m"
    using pool_slots.free_ok [OF ok] by linarith
qed

end
