(* ===== verification/Pool_Behaviour.thy ===== *)
theory Pool_Behaviour
  imports Pool_Concurrency
begin

section \<open>What a single pool operation does\<close>

text \<open>
  The functional behaviour of \<open>get\<close>, \<open>acquire_slot\<close> and \<open>invalidate\<close> on a pool whose
  accounting is in order: reuse of a live session, exactly when a call is refused,
  which entry is evicted.
\<close>

text \<open>A pool whose references are those of its entries and the holders \<open>H\<close> outside the cache.\<close>

definition pool_ok :: "nat \<Rightarrow> nat multiset \<Rightarrow> 'k pool \<Rightarrow> bool" where
  "pool_ok m H p \<longleftrightarrow>
     slots_ok m (cache_slots (entries p) + H) p \<and> keys_distinct p \<and> unshared (cache_slots (entries p))"

lemma pool_ok_in_system:
  "pool_sys_inv m s \<Longrightarrow> pool_ok m (calls_slots (ps_calls s) + lease_slots s) (ps_pool s)"
  using unshared_mono [of "cache_slots (entries (ps_pool s))" "owner_slots s"]
  by (simp add: pool_sys_inv_def pool_ok_def owner_slots_def add.assoc)

lemma pool_ok_new: "pool_ok m {#} (pool_with_max m)"
  by (simp add: pool_ok_def slots_ok_def pool_with_max_def keys_distinct_def unshared_def cache_slots_def)

lemma unshared_count: "unshared M \<Longrightarrow> x \<in># M \<Longrightarrow> count M x = 1"
  using count_greater_zero_iff [of M x] by (simp add: unshared_def le_antisym Suc_leI)

lemma in_rest_iff: "count (M + N) x = 1 \<Longrightarrow> x \<in># M \<Longrightarrow> x \<notin># N"
proof -
  assume c: "count (M + N) x = 1" and "x \<in># M"
  then have "count M x \<noteq> 0" by (simp only: count_eq_zero_iff not_not)
  then have "count N x = 0" using c unfolding count_union by linarith
  then show "x \<notin># N" by (simp only: count_eq_zero_iff not_False_eq_True)
qed

lemma in_both_not_one: "x \<in># N \<Longrightarrow> x \<in># M \<Longrightarrow> count (M + N) x \<noteq> 1"
  by (meson in_rest_iff)

subsection \<open>Reuse\<close>

lemma pool_get_reuses:
  assumes "map_of (entries p) key = Some e" and "alive (lease_conn (cl_lease e))"
  shows "\<exists>p'. pool_get acquire dialled alive now key p = (Inr (cl_lease e), p')
     \<and> permits p' = permits p \<and> map fst (entries p') = map fst (entries p)
     \<and> map_of (entries p') key = Some (e\<lparr>cl_last_used := now\<rparr>)"
proof -
  let ?p' = "clone_slot (lease_slot (cl_lease e))
     (p\<lparr>entries := AList.update key (e\<lparr>cl_last_used := now\<rparr>) (entries p)\<rparr>)"
  have "key \<in> fst ` set (entries p)"
    using assms(1) by (metis domI dom_map_of_conv_image_fst)
  then have "map fst (entries ?p') = map fst (entries p)"
    by (simp add: update_keys)
  moreover have "map_of (entries ?p') key = Some (e\<lparr>cl_last_used := now\<rparr>)"
    by (simp add: update_conv)
  moreover have "permits ?p' = permits p"
    by (simp add: clone_slot_def)
  moreover have "pool_get acquire dialled alive now key p = (Inr (cl_lease e), ?p')"
    using assms by (simp add: pool_get_def first_check_def cached_hit_def)
  ultimately show ?thesis by blast
qed

subsection \<open>When a call is refused\<close>

lemma evicted_slot_leaves:
  assumes "slots_ok m (cache_slots (entries p) + H) p" and "keys_distinct p"
    and "\<exists>x \<in> set (entries p). is_idle p (cl_lease (snd x))"
  shows "\<exists>sl p'. evict_lru p = (Some sl, p') \<and> sl \<in># cache_slots (entries p)
     \<and> sl \<notin># cache_slots (entries p') + H"
proof -
  let ?idle = "filter (\<lambda>(_, e). is_idle p (cl_lease e)) (entries p)"
  have "?idle \<noteq> []"
    using assms(3) by (auto simp: filter_empty_conv)
  then obtain k e where m: "min_by_key (\<lambda>(_, e). cl_last_used e) ?idle = Some (k, e)"
    using min_by_key_None_iff by (metis option.exhaust surj_pair)
  let ?sl = "lease_slot (cl_lease e)" and ?p' = "p\<lparr>entries := AList.delete k (entries p)\<rparr>"
  have ev: "evict_lru p = (Some ?sl, ?p')"
    using m by (simp add: evict_lru_def)
  have ke: "(k, e) \<in> set (entries p)" and idle: "is_idle p (cl_lease e)"
    using min_by_key_Some [OF m] by auto
  have split: "cache_slots (entries p) = add_mset ?sl (cache_slots (entries ?p'))"
    using ke assms(2) by (simp add: keys_distinct_def cache_slots_delete)
  have "count (cache_slots (entries p) + H) ?sl = 1"
    using idle assms(1) by (simp add: is_idle_def slots_ok_def)
  then have "?sl \<notin># cache_slots (entries ?p') + H"
    unfolding split by (simp add: not_in_iff)
  then show ?thesis
    using ev split by (metis union_single_eq_member)
qed

lemma acquire_slot_refuses_iff:
  assumes ok: "pool_ok m H p"
  shows "fst (acquire_slot err alive p) = Inl err
     \<longleftrightarrow> permits p = 0 \<and> (\<forall>x \<in> set (entries p). \<not> is_idle p (cl_lease (snd x)))"
proof (cases "permits p = 0")
  case False
  then show ?thesis by (simp add: acquire_slot_def try_acquire_def)
next
  case True
  have so: "slots_ok m (cache_slots (entries p) + H) p" and kd: "keys_distinct p"
    and un: "unshared (cache_slots (entries p))"
    using ok by (simp_all add: pool_ok_def)
  let ?p1 = "retain_alive alive p"
  obtain ev p2 where es: "evict_lru ?p1 = (ev, p2)" by fastforce
  let ?p3 = "drop_evicted ev p2"
  have so1: "slots_ok m (cache_slots (entries ?p1) + H) ?p1"
    by (rule retain_alive_ok [OF so])
  have kd1: "keys_distinct ?p1"
    using kd by (simp add: keys_distinct_def retain_alive_entries distinct_map_filter)
  note ev = evict_lru_ok [OF so1 kd1 es]
  have so3: "slots_ok m (cache_slots (entries p2) + H) ?p3"
    using ev(1) by (intro drop_evicted_ok) (simp add: ac_simps)
  have sub1: "cache_slots (entries ?p1) \<subseteq># cache_slots (entries p)"
    using cache_slots_filter [of "entries p" "entry_alive alive"] by (simp add: retain_alive_entries)
  have sub: "cache_slots (entries p2) \<subseteq># cache_slots (entries p)"
    using sub1 ev(3) by (metis mset_subset_eq_add_left subset_mset.order_trans)
  have refused: "fst (acquire_slot err alive p) = Inl err \<longleftrightarrow> permits ?p3 = 0"
    using True es by (simp add: acquire_slot_def try_acquire_def evict_section_def Let_def)
  have full: "card (set_mset (cache_slots (entries p) + H)) = m"
    using pool_slots.free_ok [OF so] True by simp
  have "permits ?p3 = 0 \<longleftrightarrow> card (set_mset (cache_slots (entries p2) + H)) = card (set_mset (cache_slots (entries p) + H))"
    using pool_slots.free_ok [OF so3] full by linarith
  moreover have "set_mset (cache_slots (entries p2) + H) \<subseteq> set_mset (cache_slots (entries p) + H)"
    using set_mset_mono [OF sub] by auto
  ultimately have sets: "permits ?p3 = 0
      \<longleftrightarrow> set_mset (cache_slots (entries p2) + H) = set_mset (cache_slots (entries p) + H)"
    by (metis card_subset_eq finite_set_mset)
  have "set_mset (cache_slots (entries p2) + H) = set_mset (cache_slots (entries p) + H)
      \<longleftrightarrow> (\<forall>x \<in> set (entries p). \<not> is_idle p (cl_lease (snd x)))"
  proof
    assume eq: "set_mset (cache_slots (entries p2) + H) = set_mset (cache_slots (entries p) + H)"
    show "\<forall>x \<in> set (entries p). \<not> is_idle p (cl_lease (snd x))"
    proof (intro ballI notI)
      fix x
      assume x: "x \<in> set (entries p)" and idle: "is_idle p (cl_lease (snd x))"
      let ?sl = "entry_slot x"
      have in_cache: "?sl \<in># cache_slots (entries p)"
        using x by (simp add: cache_slots_def)
      have c1: "count (cache_slots (entries p) + H) ?sl = 1"
        using idle so by (simp add: is_idle_def slots_ok_def entry_slot_def)
      then have "?sl \<notin># H"
        using in_cache by (rule in_rest_iff)
      then have "?sl \<in># cache_slots (entries p2)"
        using eq in_cache by (auto simp: set_eq_iff)
      then have in1: "?sl \<in># cache_slots (entries ?p1)"
        using ev(3) by simp
      then obtain y where y: "y \<in> set (entries ?p1)" "entry_slot y = ?sl"
        by (auto simp: cache_slots_def)
      have "count (cache_slots (entries ?p1) + H) ?sl = 1"
      proof -
        have "0 < count (cache_slots (entries ?p1)) ?sl"
          using in1 by (simp only: count_greater_zero_iff)
        moreover have "count (cache_slots (entries ?p1)) ?sl \<le> count (cache_slots (entries p)) ?sl"
          by (rule mset_subset_eq_count [OF sub1])
        ultimately show ?thesis using c1 unfolding count_union by linarith
      qed
      then have "is_idle ?p1 (cl_lease (snd y))"
        using so1 y(2) by (simp add: is_idle_def slots_ok_def entry_slot_def)
      then obtain sl where "ev = Some sl" "sl \<in># cache_slots (entries ?p1)"
          "sl \<notin># cache_slots (entries p2) + H"
        using evicted_slot_leaves [OF so1 kd1] y(1) es by auto
      then show False
        using eq set_mset_mono [OF sub1] by auto
    qed
  next
    assume busy: "\<forall>x \<in> set (entries p). \<not> is_idle p (cl_lease (snd x))"
    have "sl \<in># H" if "sl \<in># cache_slots (entries p)" for sl
    proof (rule ccontr)
      assume "sl \<notin># H"
      moreover have "count (cache_slots (entries p)) sl = 1"
        by (rule unshared_count [OF un that])
      ultimately have "slot_refs p sl = 1"
        using so by (simp add: slots_ok_def not_in_iff)
      then show False
        using busy that by (auto simp: cache_slots_def is_idle_def entry_slot_def)
    qed
    then show "set_mset (cache_slots (entries p2) + H) = set_mset (cache_slots (entries p) + H)"
      using set_mset_mono [OF sub] by auto
  qed
  then show ?thesis
    unfolding refused sets using True by simp
qed

subsection \<open>Which entry is evicted\<close>

lemma evict_lru_victim:
  assumes "evict_lru p = (Some sl, p')" and "keys_distinct p"
  shows "\<exists>k e. map_of (entries p) k = Some e \<and> lease_slot (cl_lease e) = sl \<and> is_idle p (cl_lease e)
     \<and> entries p' = AList.delete k (entries p)
     \<and> (\<forall>x \<in> set (entries p). is_idle p (cl_lease (snd x)) \<longrightarrow> cl_last_used e \<le> cl_last_used (snd x))"
proof -
  from assms(1) obtain k e where m: "min_by_key (\<lambda>(_, e). cl_last_used e)
        (filter (\<lambda>(_, e). is_idle p (cl_lease e)) (entries p)) = Some (k, e)"
      "sl = lease_slot (cl_lease e)" "p' = p\<lparr>entries := AList.delete k (entries p)\<rparr>"
    by (auto simp: evict_lru_def split: option.splits)
  from min_by_key_Some [OF m(1)] m(2,3) assms(2) show ?thesis
    by (intro exI [of _ k] exI [of _ e]) (auto simp: keys_distinct_def)
qed

text \<open>An entry that is in use and alive survives the eviction of \<open>acquire_slot\<close>.\<close>

lemma evict_section_keeps_borrowed:
  assumes ok: "pool_ok m H p" and e: "map_of (entries p) key = Some e"
    and live: "alive (lease_conn (cl_lease e))" and used: "\<not> is_idle p (cl_lease e)"
    and es: "evict_section alive p = (ev, p')"
  shows "map_of (entries p') key = Some e"
proof -
  let ?p1 = "retain_alive alive p"
  have so: "slots_ok m (cache_slots (entries p) + H) p" and kd: "keys_distinct p"
    and un: "unshared (cache_slots (entries p))"
    using ok by (simp_all add: pool_ok_def)
  have so1: "slots_ok m (cache_slots (entries ?p1) + H) ?p1" by (rule retain_alive_ok [OF so])
  have kd1: "keys_distinct ?p1"
    using kd by (simp add: keys_distinct_def retain_alive_entries distinct_map_filter)
  have ke: "(key, e) \<in> set (entries ?p1)"
    using e live by (auto simp: retain_alive_entries entry_alive_def dest: map_of_SomeD)
  let ?sl = "lease_slot (cl_lease e)"
  have in_cache: "?sl \<in># cache_slots (entries p)" by (rule map_of_slot_in_cache [OF e])
  then have c: "count (cache_slots (entries p)) ?sl = 1"
    by (rule unshared_count [OF un])
  have "count (cache_slots (entries p) + H) ?sl \<noteq> 1"
    using used so by (simp add: is_idle_def slots_ok_def)
  then have "count H ?sl \<noteq> 0"
    using c by simp
  then have "?sl \<in># H"
    by (simp add: not_in_iff)
  moreover have "?sl \<in># cache_slots (entries ?p1)"
    using ke by (auto simp: cache_slots_def entry_slot_def rev_image_eqI)
  ultimately have "count (cache_slots (entries ?p1) + H) ?sl \<noteq> 1"
    by (rule in_both_not_one)
  moreover have "slot_refs ?p1 ?sl = count (cache_slots (entries ?p1) + H) ?sl"
    using so1 unfolding slots_ok_def by blast
  ultimately have used1: "\<not> is_idle ?p1 (cl_lease e)"
    unfolding is_idle_def by (simp only: not_False_eq_True)
  have map1: "map_of (entries ?p1) key = Some e"
    using ke kd1 by (simp add: keys_distinct_def)
  show ?thesis
  proof (cases ev)
    case None
    then show ?thesis
      using es map1 by (auto simp: evict_section_def evict_lru_def split: option.splits)
  next
    case (Some sl)
    from evict_lru_victim [OF es [unfolded evict_section_def Some] kd1] obtain k e'
      where k: "map_of (entries ?p1) k = Some e'" "is_idle ?p1 (cl_lease e')"
        "entries p' = AList.delete k (entries ?p1)" by blast
    then have "k \<noteq> key" using map1 used1 by auto
    then show ?thesis using map1 k(3) by (simp add: delete_conv')
  qed
qed

end
