(* ===== verification/Pool_Refinement.thy ===== *)
theory Pool_Refinement
  imports Pool_Behaviour
begin

section \<open>A call of \<open>get\<close> as steps of the shared pool\<close>

text \<open>
  The detailed \<open>pool_get\<close>, which runs a call from its first look at the cache to the lease or
  the error, is a run of the step relation of \<open>Pool_Concurrency\<close> in which nothing else moves:
  every state it ends in is one the interleaved system can reach, so the invariant of the
  system holds of the sequential code as well.
\<close>

definition pool_at ::
    "'k pool_sys \<Rightarrow> 'k pool \<Rightarrow> 'k call multiset \<Rightarrow> lease multiset \<Rightarrow> nat \<Rightarrow> 'k pool_sys" where
  "pool_at s p C B n = s\<lparr>ps_pool := p, ps_calls := C, ps_leases := B, ps_next_conn := n\<rparr>"

lemma pool_at_simps [simp]:
  "ps_pool (pool_at s p C B n) = p" "ps_calls (pool_at s p C B n) = C"
  "ps_leases (pool_at s p C B n) = B" "ps_next_conn (pool_at s p C B n) = n"
  "open_in (pool_at s p C B n) = open_in s"
  "(pool_at s p C B n)\<lparr>ps_pool := p'\<rparr> = pool_at s p' C B n"
  "(pool_at s p C B n)\<lparr>ps_calls := C'\<rparr> = pool_at s p C' B n"
  "(pool_at s p C B n)\<lparr>ps_leases := B'\<rparr> = pool_at s p C B' n"
  "(pool_at s p C B n)\<lparr>ps_next_conn := n'\<rparr> = pool_at s p C B n'"
  by (simp_all add: pool_at_def open_in_def fun_eq_iff)

lemma pool_at_self: "pool_at s (ps_pool s) (ps_calls s) (ps_leases s) (ps_next_conn s) = s"
  by (simp add: pool_at_def)

definition leased :: "lease multiset \<Rightarrow> (dns_proxy_error + lease) \<Rightarrow> lease multiset" where
  "leased B r = (case r of Inl _ \<Rightarrow> B | Inr l \<Rightarrow> add_mset l B)"

lemma steps_trans: "r\<^sup>*\<^sup>* a b \<Longrightarrow> r b c \<Longrightarrow> r\<^sup>*\<^sup>* a c"
  by (rule rtranclp.rtrancl_into_rtrancl)

text \<open>From a missed lookup to a permit, or to the refusal.\<close>

lemma acquire_slot_steps:
  assumes "acquire_slot err (open_in s) p = (r, p')"
  shows "pool_step\<^sup>*\<^sup>* (pool_at s p (add_mset (NeedSlot key) C) B n)
     (pool_at s p' (case r of Inl _ \<Rightarrow> C | Inr sl \<Rightarrow> add_mset (HasSlot key sl) C) B n)"
proof (cases "try_acquire p")
  case (Some x)
  then obtain sl q where sl: "try_acquire p = Some (sl, q)" by (cases x) auto
  then have "r = Inr sl" "p' = q" using assms by (simp_all add: acquire_slot_def)
  then show ?thesis
    using pool_step.acquire [of "pool_at s p (add_mset (NeedSlot key) C) B n" key C sl q] sl
    by (simp add: r_into_rtranclp)
next
  case None
  obtain ev p1 where ev: "evict_section (open_in s) p = (ev, p1)" by fastforce
  let ?p2 = "drop_evicted ev p1"
  have "pool_step (pool_at s p (add_mset (NeedSlot key) C) B n) (pool_at s p1 (add_mset (Evicting key ev) C) B n)"
    using pool_step.evict [of "pool_at s p (add_mset (NeedSlot key) C) B n" key C ev p1] None ev by simp
  moreover have "pool_step (pool_at s p1 (add_mset (Evicting key ev) C) B n)
      (pool_at s ?p2 (add_mset (Retrying key) C) B n)"
    using pool_step.drop_evicted [of "pool_at s p1 (add_mset (Evicting key ev) C) B n" key ev C] by simp
  ultimately have steps: "pool_step\<^sup>*\<^sup>* (pool_at s p (add_mset (NeedSlot key) C) B n)
      (pool_at s ?p2 (add_mset (Retrying key) C) B n)"
    by (meson r_into_rtranclp steps_trans)
  show ?thesis
  proof (cases "try_acquire ?p2")
    case None': None
    then have "r = Inl err" "p' = ?p2" using assms None ev by (simp_all add: acquire_slot_def)
    then show ?thesis
      using steps_trans [OF steps] None'
        pool_step.overload [of "pool_at s ?p2 (add_mset (Retrying key) C) B n" key C] by simp
  next
    case (Some x)
    then obtain sl q where sl: "try_acquire ?p2 = Some (sl, q)" by (cases x) auto
    then have "r = Inr sl" "p' = q" using assms None ev by (simp_all add: acquire_slot_def)
    then show ?thesis
      using steps_trans [OF steps] sl
        pool_step.retry [of "pool_at s ?p2 (add_mset (Retrying key) C) B n" key C sl q] by simp
  qed
qed

text \<open>With a permit: the second look at the cache, the connection and its publication.\<close>

lemma dial_and_publish_steps:
  assumes get: "(case cached_hit (open_in s) now key p of
                Some (l, p3) \<Rightarrow> (Inr l, drop_slot sl p3)
              | None \<Rightarrow>
                 (case dialled of
                    Inl e \<Rightarrow> (Inl e, drop_slot sl p)
                  | Inr conn \<Rightarrow> (let (l, p3) = publish (open_in s) now key conn sl p in (Inr l, p3))))
     = (r, p')"
    and conn: "\<And>c. dialled = Inr c \<Longrightarrow> c = n"
  shows "\<exists>n'. pool_step\<^sup>*\<^sup>* (pool_at s p (add_mset (HasSlot key sl) C) B n) (pool_at s p' C (leased B r) n')"
proof (cases "cached_hit (open_in s) now key p")
  case (Some x)
  then obtain l q where "cached_hit (open_in s) now key p = Some (l, q)" by (cases x) auto
  then have "pool_step (pool_at s p (add_mset (HasSlot key sl) C) B n) (pool_at s p' C (leased B r) n)"
    using get pool_step.recheck_hit [of "pool_at s p (add_mset (HasSlot key sl) C) B n" key sl C now l q]
    by (auto simp: leased_def)
  then show ?thesis by (blast intro: r_into_rtranclp)
next
  case None
  then have miss: "pool_step\<^sup>*\<^sup>* (pool_at s p (add_mset (HasSlot key sl) C) B n)
      (pool_at s p (add_mset (Dialing key sl) C) B n)"
    using pool_step.recheck_miss [of "pool_at s p (add_mset (HasSlot key sl) C) B n" key sl C now]
    by (simp add: r_into_rtranclp)
  show ?thesis
  proof (cases dialled)
    case (Inl e)
    then have r: "r = Inl e" "p' = drop_slot sl p" using get None by simp_all
    have "pool_step (pool_at s p (add_mset (Dialing key sl) C) B n) (pool_at s p' C (leased B r) n)"
      using pool_step.dial_failed [of "pool_at s p (add_mset (Dialing key sl) C) B n" key sl C] r
      by (simp add: leased_def)
    then show ?thesis using steps_trans [OF miss] by blast
  next
    case (Inr c)
    then have c: "c = n" by (rule conn)
    obtain l q where pub: "publish (open_in s) now key n sl p = (l, q)" by fastforce
    then have r: "r = Inr l" "p' = q" using get None Inr c by simp_all
    have "pool_step (pool_at s p (add_mset (Dialing key sl) C) B n)
        (pool_at s p (add_mset (Publishing key sl n) C) B (Suc n))"
      using pool_step.dialed [of "pool_at s p (add_mset (Dialing key sl) C) B n" key sl C] by simp
    moreover have "pool_step (pool_at s p (add_mset (Publishing key sl n) C) B (Suc n))
        (pool_at s p' C (leased B r) (Suc n))"
      using pool_step.publish [of "pool_at s p (add_mset (Publishing key sl n) C) B (Suc n)" key sl n C now l q]
        pub r by (simp add: leased_def)
    ultimately show ?thesis using steps_trans [OF steps_trans [OF miss]] by blast
  qed
qed

lemma pool_get_steps:
  assumes get: "pool_get (acquire_slot err (open_in s)) dialled (open_in s) now key (ps_pool s) = (r, p')"
    and conn: "\<And>c. dialled = Inr c \<Longrightarrow> c = ps_next_conn s"
  shows "\<exists>n. pool_step\<^sup>*\<^sup>* s (s\<lparr>ps_pool := p', ps_leases := leased (ps_leases s) r, ps_next_conn := n\<rparr>)"
proof -
  let ?C = "ps_calls s" and ?B = "ps_leases s" and ?n = "ps_next_conn s"
  have goal: "s\<lparr>ps_pool := p', ps_leases := leased ?B r, ps_next_conn := n\<rparr> = pool_at s p' ?C (leased ?B r) n" for n
    by (simp add: pool_at_def)
  obtain found p1 where fc: "first_check (open_in s) now key (ps_pool s) = (found, p1)" by fastforce
  show ?thesis
  proof (cases found)
    case (Some l)
    then have "r = Inr l" "p' = p1" using get fc by (simp_all add: pool_get_def)
    then have "pool_step s (pool_at s p' ?C (leased ?B r) ?n)"
      using pool_step.get_hit [of s now key l p1] fc Some by (simp add: leased_def pool_at_def)
    then show ?thesis unfolding goal by (blast intro: r_into_rtranclp)
  next
    case None
    then have miss: "pool_step s (pool_at s p1 (add_mset (NeedSlot key) ?C) ?B ?n)"
      using pool_step.get_miss [of s now key p1] fc by (simp add: pool_at_def)
    obtain a p2 where acq: "acquire_slot err (open_in s) p1 = (a, p2)" by fastforce
    note steps = converse_rtranclp_into_rtranclp [of pool_step, OF miss acquire_slot_steps [OF acq, of key ?C ?B ?n]]
    show ?thesis
    proof (cases a)
      case (Inl e)
      then have "r = Inl e" "p' = p2" using get fc None acq by (simp_all add: pool_get_def)
      then show ?thesis unfolding goal using steps Inl by (auto simp: leased_def)
    next
      case (Inr sl)
      have "(case cached_hit (open_in s) now key p2 of
                Some (l, p3) \<Rightarrow> (Inr l, drop_slot sl p3)
              | None \<Rightarrow>
                 (case dialled of
                    Inl e \<Rightarrow> (Inl e, drop_slot sl p2)
                  | Inr conn \<Rightarrow> (let (l, p3) = publish (open_in s) now key conn sl p2 in (Inr l, p3))))
         = (r, p')"
        using get fc None acq Inr by (simp add: pool_get_def)
      from dial_and_publish_steps [OF this conn, of ?C ?B] obtain n where
        "pool_step\<^sup>*\<^sup>* (pool_at s p2 (add_mset (HasSlot key sl) ?C) ?B ?n) (pool_at s p' ?C (leased ?B r) n)"
        by blast
      then show ?thesis unfolding goal using steps Inr by (auto intro: rtranclp_trans)
    qed
  qed
qed

end
