(* ===== verification/Http_Pool.thy ===== *)
theory Http_Pool
  imports Prelude "HOL-Library.AList"
begin

section \<open>The pool of HTTP clients (\<open>src/upstream/pool.rs\<close>)\<close>

text \<open>
  One \<open>hyper\<close> client per upstream host name, in a \<open>DashMap\<close> that is evicted from when
  it reaches \<open>max_clients\<close>. A client is its construction parameters and a number that
  stands for its identity. \<open>get_client\<close> is modelled as the code runs it alone, and as
  the separate map accesses it consists of, interleaved over concurrent callers: no
  lock spans them.
  The eviction removes a key while the iterator that produced it is still alive, a temporary
  of the \<open>if let\<close> that lasts until the end of its block. \<open>DashMap\<close> documents that \<open>remove\<close> may
  deadlock while a reference into the map is held; whether a live iterator is one is the
  parameter \<open>iter_guard\<close>, and the call then does not return.
\<close>

record 'anchor http_client =
  client_id :: nat
  client_keepalive :: nat
  client_connect_timeout :: nat
  client_roots :: "'anchor list"
  client_https_or_http :: bool
  client_http2 :: bool
  client_max_idle_per_host :: nat
  client_idle_timeout :: nat
  client_set_host :: bool

record 'anchor connection_pool =
  hp_clients :: "(string \<times> 'anchor http_client) list"
  hp_keepalive_timeout :: nat
  hp_connection_timeout :: nat
  hp_max_idle_connections :: nat
  hp_max_clients :: nat
  hp_root_store :: "'anchor list"

text \<open>\<open>with_config\<close> and the constructors on top of it; \<open>default_roots\<close> is the platform trust store.\<close>

definition with_config :: "'anchor list \<Rightarrow> nat \<Rightarrow> nat \<Rightarrow> nat \<Rightarrow> 'anchor connection_pool" where
  "with_config default_roots keepalive_timeout connection_timeout max_idle_connections =
     \<lparr>hp_clients = [], hp_keepalive_timeout = keepalive_timeout,
      hp_connection_timeout = connection_timeout,
      hp_max_idle_connections = max_idle_connections, hp_max_clients = 256,
      hp_root_store = default_roots\<rparr>"

definition connection_pool_new :: "'anchor list \<Rightarrow> 'anchor connection_pool" where
  "connection_pool_new default_roots = with_config default_roots 60 10 10"

definition with_max_clients_and_root_store ::
    "'anchor list \<Rightarrow> nat \<Rightarrow> 'anchor list \<Rightarrow> 'anchor connection_pool" where
  "with_max_clients_and_root_store default_roots max_clients roots =
     (connection_pool_new default_roots)\<lparr>hp_max_clients := max_clients, hp_root_store := roots\<rparr>"

definition create_client :: "nat \<Rightarrow> 'anchor connection_pool \<Rightarrow> 'anchor http_client" where
  "create_client ident pool =
     \<lparr>client_id = ident, client_keepalive = hp_keepalive_timeout pool,
      client_connect_timeout = hp_connection_timeout pool, client_roots = hp_root_store pool,
      client_https_or_http = True, client_http2 = True,
      client_max_idle_per_host = hp_max_idle_connections pool,
      client_idle_timeout = hp_keepalive_timeout pool, client_set_host = False\<rparr>"

subsection \<open>\<open>get_client\<close> run alone\<close>

definition or_insert :: "string \<Rightarrow> 'c \<Rightarrow> (string \<times> 'c) list \<Rightarrow> (string \<times> 'c) list" where
  "or_insert key c cs = (case map_of cs key of Some _ \<Rightarrow> cs | None \<Rightarrow> (key, c) # cs)"

definition evict_first :: "bool \<Rightarrow> 'anchor connection_pool \<Rightarrow> 'anchor connection_pool option" where
  "evict_first iter_guard pool =
     (if hp_max_clients pool \<le> length (hp_clients pool)
      then (case hp_clients pool of
              [] \<Rightarrow> Some pool
            | (key, _) # _ \<Rightarrow>
                if iter_guard then None
                else Some (pool\<lparr>hp_clients := AList.delete key (hp_clients pool)\<rparr>))
      else Some pool)"

definition get_client ::
    "bool \<Rightarrow> nat \<Rightarrow> string \<Rightarrow> 'anchor connection_pool
     \<Rightarrow> ('anchor http_client \<times> 'anchor connection_pool) option" where
  "get_client iter_guard ident sni pool =
     (case map_of (hp_clients pool) sni of
        Some client \<Rightarrow> Some (client, pool)
      | None \<Rightarrow>
         (case evict_first iter_guard pool of
            None \<Rightarrow> None
          | Some pool1 \<Rightarrow>
             (let client = create_client ident pool1;
                  pool2 = pool1\<lparr>hp_clients := or_insert sni client (hp_clients pool1)\<rparr>
              in Some ((case map_of (hp_clients pool2) sni of Some c \<Rightarrow> c | None \<Rightarrow> client), pool2))))"

text \<open>The keys of a map are distinct; a map at its bound has room for one more entry once one is evicted.\<close>

definition http_pool_ok :: "'anchor connection_pool \<Rightarrow> bool" where
  "http_pool_ok pool \<longleftrightarrow>
     distinct (map fst (hp_clients pool)) \<and> length (hp_clients pool) \<le> max 1 (hp_max_clients pool)"

lemma distinct_or_insert: "distinct (map fst cs) \<Longrightarrow> distinct (map fst (or_insert key c cs))"
  by (auto simp: or_insert_def map_of_eq_None_iff split: option.splits)

lemma length_delete_key:
  "distinct (map fst xs) \<Longrightarrow> k \<in> fst ` set xs \<Longrightarrow> Suc (length (AList.delete k xs)) = length xs"
proof (induction xs)
  case Nil
  then show ?case by simp
next
  case (Cons x xs)
  show ?case
  proof (cases "fst x = k")
    case True
    then have "k \<notin> fst ` set xs" using Cons.prems(1) by auto
    then have "AList.delete k xs = xs" by (simp add: delete_idem)
    with True show ?thesis by (cases x) simp
  next
    case False
    with Cons show ?thesis by (cases x) auto
  qed
qed

lemma evict_first_length:
  assumes "http_pool_ok pool" and ev: "evict_first iter_guard pool = Some pool1"
  shows "length (hp_clients pool1) < max 1 (hp_max_clients pool)"
    and "distinct (map fst (hp_clients pool1))"
    and "hp_max_clients pool1 = hp_max_clients pool"
proof -
  have len: "length (hp_clients pool) \<le> max 1 (hp_max_clients pool)"
    and dist: "distinct (map fst (hp_clients pool))"
    using assms(1) by (simp_all add: http_pool_ok_def)
  show "length (hp_clients pool1) < max 1 (hp_max_clients pool)"
  proof (cases "hp_max_clients pool \<le> length (hp_clients pool)")
    case False
    then show ?thesis using ev by (simp add: evict_first_def)
  next
    case True
    show ?thesis
    proof (cases "hp_clients pool")
      case Nil
      then show ?thesis using ev by (simp add: evict_first_def split: if_splits)
    next
      case (Cons x xs)
      then obtain key c where x: "hp_clients pool = (key, c) # xs" by (cases x) auto
      then have "Suc (length (AList.delete key (hp_clients pool))) = length (hp_clients pool)"
        using dist by (intro length_delete_key) auto
      then have "length (AList.delete key (hp_clients pool)) < max 1 (hp_max_clients pool)"
        using len by linarith
      then show ?thesis
        using True x ev by (auto simp: evict_first_def split: if_splits)
    qed
  qed
  show "distinct (map fst (hp_clients pool1))"
    using dist ev by (auto simp: evict_first_def distinct_delete split: list.splits prod.splits if_splits)
  show "hp_max_clients pool1 = hp_max_clients pool"
    using ev by (auto simp: evict_first_def split: list.splits prod.splits if_splits)
qed

lemma get_client_ok:
  assumes ok: "http_pool_ok pool" and got: "get_client iter_guard ident sni pool = Some (c, pool')"
  shows "http_pool_ok pool'"
proof (cases "map_of (hp_clients pool) sni")
  case (Some c')
  then show ?thesis using ok got by (simp add: get_client_def)
next
  case None
  then obtain pool1 where ev: "evict_first iter_guard pool = Some pool1"
    using got by (auto simp: get_client_def split: option.splits)
  note ev1 = evict_first_length [OF ok ev]
  have "length (or_insert sni c (hp_clients pool1)) \<le> max 1 (hp_max_clients pool)" for c
    using ev1(1) by (auto simp: or_insert_def split: option.splits)
  then show ?thesis
    using got None ev ev1(2,3)
    by (auto simp: get_client_def Let_def http_pool_ok_def distinct_or_insert)
qed

text \<open>The client handed out is the one the pool now holds for the name.\<close>

lemma get_client_cached:
  assumes "get_client iter_guard ident sni pool = Some (c, pool')"
  shows "map_of (hp_clients pool') sni = Some c"
  using assms by (auto simp: get_client_def Let_def or_insert_def split: option.splits)

lemma get_client_reuses:
  "map_of (hp_clients pool) sni = Some c \<Longrightarrow> get_client iter_guard ident sni pool = Some (c, pool)"
  by (simp add: get_client_def)

text \<open>When the call returns.\<close>

lemma get_client_returns_iff:
  "(\<exists>c pool'. get_client iter_guard ident sni pool = Some (c, pool')) \<longleftrightarrow>
     sni \<in> fst ` set (hp_clients pool) \<or> length (hp_clients pool) < hp_max_clients pool
     \<or> hp_clients pool = [] \<or> \<not> iter_guard"
proof (cases "map_of (hp_clients pool) sni")
  case None
  then show ?thesis
    by (cases "hp_clients pool")
       (auto simp: get_client_def evict_first_def Let_def map_of_eq_None_iff split: if_splits)
next
  case (Some c)
  then have "sni \<in> fst ` set (hp_clients pool)" by (metis domI dom_map_of_conv_image_fst)
  with Some show ?thesis by (simp add: get_client_def)
qed

subsection \<open>\<open>get_client\<close> as the map accesses it makes\<close>

text \<open>The points between two accesses of the map.\<close>

datatype http_call =
    Missed string          \<comment> \<open>the name was not found\<close>
  | AtLimit string         \<comment> \<open>\<open>len\<close> was at least \<open>max_clients\<close>\<close>
  | Victim string string   \<comment> \<open>the key to remove was read\<close>
  | Inserting string       \<comment> \<open>before \<open>entry(..).or_insert_with(..)\<close>\<close>

record 'anchor http_sys =
  hs_pool :: "'anchor connection_pool"
  hs_calls :: "http_call list"
  hs_next :: nat

definition http_init :: "'anchor connection_pool \<Rightarrow> 'anchor http_sys \<Rightarrow> bool" where
  "http_init pool s \<longleftrightarrow> s = \<lparr>hs_pool = pool, hs_calls = [], hs_next = 0\<rparr>"

inductive http_step :: "nat \<Rightarrow> bool \<Rightarrow> 'anchor http_sys \<Rightarrow> 'anchor http_sys \<Rightarrow> bool"
  for callers :: nat and iter_guard :: bool where
  miss: "length (hs_calls s) < callers \<Longrightarrow> map_of (hp_clients (hs_pool s)) sni = None \<Longrightarrow>
     http_step callers iter_guard s (s\<lparr>hs_calls := Missed sni # hs_calls s\<rparr>)"
| room: "hs_calls s = cs @ Missed sni # ds \<Longrightarrow>
     length (hp_clients (hs_pool s)) < hp_max_clients (hs_pool s) \<Longrightarrow>
     http_step callers iter_guard s (s\<lparr>hs_calls := cs @ Inserting sni # ds\<rparr>)"
| full: "hs_calls s = cs @ Missed sni # ds \<Longrightarrow>
     hp_max_clients (hs_pool s) \<le> length (hp_clients (hs_pool s)) \<Longrightarrow>
     http_step callers iter_guard s (s\<lparr>hs_calls := cs @ AtLimit sni # ds\<rparr>)"
| pick: "hs_calls s = cs @ AtLimit sni # ds \<Longrightarrow> key \<in> fst ` set (hp_clients (hs_pool s)) \<Longrightarrow>
     http_step callers iter_guard s (s\<lparr>hs_calls := cs @ Victim sni key # ds\<rparr>)"
| empty: "hs_calls s = cs @ AtLimit sni # ds \<Longrightarrow> hp_clients (hs_pool s) = [] \<Longrightarrow>
     http_step callers iter_guard s (s\<lparr>hs_calls := cs @ Inserting sni # ds\<rparr>)"
| remove: "hs_calls s = cs @ Victim sni key # ds \<Longrightarrow> \<not> iter_guard \<Longrightarrow>
     http_step callers iter_guard s
       (s\<lparr>hs_pool := (hs_pool s)\<lparr>hp_clients := AList.delete key (hp_clients (hs_pool s))\<rparr>,
          hs_calls := cs @ Inserting sni # ds\<rparr>)"
| insert: "hs_calls s = cs @ Inserting sni # ds \<Longrightarrow>
     http_step callers iter_guard s
       (s\<lparr>hs_pool := (hs_pool s)\<lparr>hp_clients :=
              or_insert sni (create_client (hs_next s) (hs_pool s)) (hp_clients (hs_pool s))\<rparr>,
          hs_calls := cs @ ds, hs_next := Suc (hs_next s)\<rparr>)"

text \<open>One caller at a time keeps the bound.\<close>

fun http_call_room :: "'anchor connection_pool \<Rightarrow> http_call \<Rightarrow> bool" where
  "http_call_room pool (Victim sni key) \<longleftrightarrow> key \<in> fst ` set (hp_clients pool)"
| "http_call_room pool (Inserting sni) \<longleftrightarrow> length (hp_clients pool) < max 1 (hp_max_clients pool)"
| "http_call_room pool _ \<longleftrightarrow> True"

definition http_sys_inv :: "nat \<Rightarrow> 'anchor http_sys \<Rightarrow> bool" where
  "http_sys_inv m s \<longleftrightarrow>
     http_pool_ok (hs_pool s) \<and> hp_max_clients (hs_pool s) = m \<and> length (hs_calls s) \<le> 1
     \<and> list_all (http_call_room (hs_pool s)) (hs_calls s)"

lemma split_single: "length (cs @ c # ds) \<le> 1 \<Longrightarrow> cs = [] \<and> ds = []"
  by simp

lemma http_sys_inv_step:
  assumes inv: "http_sys_inv m s" and "http_step 1 iter_guard s t"
  shows "http_sys_inv m t"
  using assms(2)
proof cases
  case (remove cs sni key ds)
  then have single: "cs = []" "ds = []" and key: "key \<in> fst ` set (hp_clients (hs_pool s))"
    using inv by (auto simp: http_sys_inv_def)
  have dist: "distinct (map fst (hp_clients (hs_pool s)))"
    and len: "length (hp_clients (hs_pool s)) \<le> max 1 (hp_max_clients (hs_pool s))"
    using inv by (auto simp: http_sys_inv_def http_pool_ok_def)
  have "Suc (length (AList.delete key (hp_clients (hs_pool s)))) = length (hp_clients (hs_pool s))"
    using dist key by (rule length_delete_key)
  then have "length (AList.delete key (hp_clients (hs_pool s))) < max 1 (hp_max_clients (hs_pool s))"
    using len by linarith
  then show ?thesis
    using inv remove(1) single dist
    by (simp add: http_sys_inv_def http_pool_ok_def distinct_delete)
next
  case (insert cs sni ds)
  then have single: "cs = []" "ds = []"
    and room: "length (hp_clients (hs_pool s)) < max 1 (hp_max_clients (hs_pool s))"
    using inv by (auto simp: http_sys_inv_def)
  then have "length (or_insert sni c (hp_clients (hs_pool s))) \<le> max 1 (hp_max_clients (hs_pool s))" for c
    by (auto simp: or_insert_def split: option.splits)
  then show ?thesis
    using inv insert(1) single
    by (simp add: http_sys_inv_def http_pool_ok_def distinct_or_insert del: max.absorb_iff1)
qed (use inv in \<open>auto simp: http_sys_inv_def\<close>)

interpretation http_alone: inductive_invariant "http_init pool" "http_step 1 iter_guard"
  "\<lambda>s. http_pool_ok pool \<longrightarrow> http_sys_inv (hp_max_clients pool) s" for pool iter_guard
proof unfold_locales
  fix s
  assume "http_init pool s"
  then show "http_pool_ok pool \<longrightarrow> http_sys_inv (hp_max_clients pool) s"
    by (simp add: http_init_def http_sys_inv_def)
qed (blast intro: http_sys_inv_step)

subsection \<open>Two callers defeat the bound\<close>

lemma fresh_names: "\<exists>a b :: string. a \<noteq> b \<and> a \<notin> fst ` set xs \<and> b \<notin> fst ` set xs"
proof -
  have inf: "infinite (UNIV :: string set)" by (rule infinite_UNIV_listI)
  obtain a where a: "a \<notin> fst ` set xs"
    using ex_new_if_finite [OF inf, of "fst ` set xs"] by auto
  obtain b where "b \<notin> insert a (fst ` set xs)"
    using ex_new_if_finite [OF inf, of "insert a (fst ` set xs)"] by auto
  with a show ?thesis by auto
qed

lemmas steps_Cons = converse_rtranclp_into_rtranclp

lemma http_alone_grows:
  assumes "map_of cs a = None" and "length cs < hp_max_clients P" and "hp_clients P = cs"
  shows "(http_step 2 False)\<^sup>*\<^sup>* \<lparr>hs_pool = P, hs_calls = [], hs_next = N\<rparr>
     \<lparr>hs_pool = P\<lparr>hp_clients := (a, create_client N P) # cs\<rparr>, hs_calls = [], hs_next = Suc N\<rparr>"
    (is "(http_step 2 False)\<^sup>*\<^sup>* ?s ?t")
proof -
  have 1: "http_step 2 False ?s (?s\<lparr>hs_calls := [Missed a]\<rparr>)"
    using miss [of ?s 2 a] assms by simp
  have 2: "http_step 2 False (?s\<lparr>hs_calls := [Missed a]\<rparr>) (?s\<lparr>hs_calls := [Inserting a]\<rparr>)"
    using room [of "?s\<lparr>hs_calls := [Missed a]\<rparr>" "[]" a "[]" 2] assms by simp
  have 3: "http_step 2 False (?s\<lparr>hs_calls := [Inserting a]\<rparr>) ?t"
    using insert [of "?s\<lparr>hs_calls := [Inserting a]\<rparr>" "[]" a "[]" 2] assms
    by (simp add: or_insert_def)
  show ?thesis
    by (rule steps_Cons, rule 1, rule steps_Cons, rule 2, rule r_into_rtranclp, rule 3)
qed

text \<open>Both callers see the map full, pick the same victim, and both insert.\<close>

lemma http_race_grows:
  assumes none: "map_of cs a = None" "map_of cs b = None" and ab: "a \<noteq> b"
    and full: "hp_max_clients P \<le> length cs" and k: "k \<in> fst ` set cs" and P: "hp_clients P = cs"
  shows "(http_step 2 False)\<^sup>*\<^sup>* \<lparr>hs_pool = P, hs_calls = [], hs_next = N\<rparr>
     \<lparr>hs_pool = P\<lparr>hp_clients := (a, create_client (Suc N) P) # (b, create_client N P) # AList.delete k cs\<rparr>,
      hs_calls = [], hs_next = Suc (Suc N)\<rparr>"
    (is "(http_step 2 False)\<^sup>*\<^sup>* ?s ?t")
proof -
  let ?at = "\<lambda>calls. ?s\<lparr>hs_calls := calls\<rparr>"
  let ?P = "P\<lparr>hp_clients := AList.delete k cs\<rparr>"
  let ?rem = "\<lambda>calls. \<lparr>hs_pool = ?P, hs_calls = calls, hs_next = N\<rparr>"
  have none': "map_of (AList.delete k cs) a = None" "map_of (AList.delete k cs) b = None"
    using none by (simp_all add: delete_conv' restrict_map_def)
  have 1: "http_step 2 False ?s (?at [Missed a])"
    using miss [of ?s 2 a] none P by simp
  have 2: "http_step 2 False (?at [Missed a]) (?at [Missed b, Missed a])"
    using miss [of "?at [Missed a]" 2 b] none P by simp
  have 3: "http_step 2 False (?at [Missed b, Missed a]) (?at [AtLimit b, Missed a])"
    using http_step.full [of "?at [Missed b, Missed a]" "[]" b "[Missed a]" 2] full P by simp
  have 4: "http_step 2 False (?at [AtLimit b, Missed a]) (?at [AtLimit b, AtLimit a])"
    using http_step.full [of "?at [AtLimit b, Missed a]" "[AtLimit b]" a "[]" 2] full P by simp
  have 5: "http_step 2 False (?at [AtLimit b, AtLimit a]) (?at [Victim b k, AtLimit a])"
    using pick [of "?at [AtLimit b, AtLimit a]" "[]" b "[AtLimit a]" k 2] k P by simp
  have 6: "http_step 2 False (?at [Victim b k, AtLimit a]) (?at [Victim b k, Victim a k])"
    using pick [of "?at [Victim b k, AtLimit a]" "[Victim b k]" a "[]" k 2] k P by simp
  have 7: "http_step 2 False (?at [Victim b k, Victim a k]) (?rem [Inserting b, Victim a k])"
    using remove [of "?at [Victim b k, Victim a k]" "[]" b k "[Victim a k]" False 2] P by simp
  have 8: "http_step 2 False (?rem [Inserting b, Victim a k]) (?rem [Inserting b, Inserting a])"
    using remove [of "?rem [Inserting b, Victim a k]" "[Inserting b]" a k "[]" False 2]
    by (simp add: delete_idem)
  have 9: "http_step 2 False (?rem [Inserting b, Inserting a])
      \<lparr>hs_pool = P\<lparr>hp_clients := (b, create_client N P) # AList.delete k cs\<rparr>,
       hs_calls = [Inserting a], hs_next = Suc N\<rparr>" (is "http_step 2 False _ ?mid")
    using insert [of "?rem [Inserting b, Inserting a]" "[]" b "[Inserting a]" 2] none'
    by (simp add: or_insert_def create_client_def)
  have 10: "http_step 2 False ?mid ?t"
    using insert [of ?mid "[]" a "[]" 2] none' ab by (simp add: or_insert_def create_client_def)
  show ?thesis
    by (rule steps_Cons, rule 1, rule steps_Cons, rule 2, rule steps_Cons, rule 3,
        rule steps_Cons, rule 4, rule steps_Cons, rule 5, rule steps_Cons, rule 6,
        rule steps_Cons, rule 7, rule steps_Cons, rule 8, rule steps_Cons, rule 9,
        rule r_into_rtranclp, rule 10)
qed

definition http_quiet :: "nat \<Rightarrow> nat \<Rightarrow> 'anchor http_sys \<Rightarrow> bool" where
  "http_quiet m n s \<longleftrightarrow> hs_calls s = [] \<and> distinct (map fst (hp_clients (hs_pool s)))
     \<and> hp_max_clients (hs_pool s) = m \<and> length (hp_clients (hs_pool s)) = n"

lemma http_quiet_grows:
  assumes "http_quiet m n s" and "0 < m"
  shows "\<exists>t. (http_step 2 False)\<^sup>*\<^sup>* s t \<and> http_quiet m (Suc n) t"
proof -
  obtain P N where s: "s = \<lparr>hs_pool = P, hs_calls = [], hs_next = N\<rparr>"
    using assms(1) by (cases s) (auto simp: http_quiet_def)
  have q: "distinct (map fst (hp_clients P))" "hp_max_clients P = m" "length (hp_clients P) = n"
    using assms(1) s by (simp_all add: http_quiet_def)
  obtain a b :: string where ab: "a \<noteq> b" "a \<notin> fst ` set (hp_clients P)" "b \<notin> fst ` set (hp_clients P)"
    using fresh_names by blast
  then have none: "map_of (hp_clients P) a = None" "map_of (hp_clients P) b = None"
    by (simp_all add: map_of_eq_None_iff)
  show ?thesis
  proof (cases "n < m")
    case True
    then show ?thesis
      using http_alone_grows [OF none(1) _ refl, of N] q ab unfolding s
      by (intro exI conjI) (auto simp: http_quiet_def)
  next
    case False
    then obtain k where k: "k \<in> fst ` set (hp_clients P)"
      using q(3) \<open>0 < m\<close> by (cases "hp_clients P") auto
    have "Suc (length (AList.delete k (hp_clients P))) = n"
      using length_delete_key [OF q(1) k] q(3) by simp
    moreover have "a \<notin> fst ` set (AList.delete k (hp_clients P))" "b \<notin> fst ` set (AList.delete k (hp_clients P))"
      using none by (simp_all flip: map_of_eq_None_iff add: delete_conv' restrict_map_def)
    ultimately show ?thesis
      using http_race_grows [OF none ab(1) _ k refl, of N] False q ab(1) unfolding s
      by (intro exI conjI) (auto simp: http_quiet_def distinct_delete)
  qed
qed

lemma http_two_callers_unbounded:
  assumes "hp_clients pool = []" and "0 < hp_max_clients pool"
  shows "\<exists>s. reachable (http_init pool) (http_step 2 False) s \<and> http_quiet (hp_max_clients pool) n s"
proof (induction n)
  case 0
  have "reachable (http_init pool) (http_step 2 False) \<lparr>hs_pool = pool, hs_calls = [], hs_next = 0\<rparr>"
    by (rule reachable_init) (simp add: http_init_def)
  with assms show ?case by (auto simp: http_quiet_def)
next
  case (Suc n)
  then obtain s where s: "reachable (http_init pool) (http_step 2 False) s" "http_quiet (hp_max_clients pool) n s"
    by blast
  obtain t where "(http_step 2 False)\<^sup>*\<^sup>* s t" "http_quiet (hp_max_clients pool) (Suc n) t"
    using http_quiet_grows [OF s(2) assms(2)] by blast
  with s(1) show ?case by (intro exI [of _ t] conjI) (rule reachable_steps)
qed

end
