(* ===== verification/Streams.thy ===== *)
theory Streams
  imports Prelude
begin

section \<open>Byte streams of the environment\<close>

text \<open>
  What the code relies on from the streams it reads and writes, as predicates on the
  operations of an abstract environment. \<open>src\<close> and \<open>sink\<close> read the undelivered and the
  delivered bytes of a stream off the environment's state; a source ends with the end
  of the stream, with an error, or with silence.
\<close>

type_synonym 'w writer = "bytes \<Rightarrow> 'w \<Rightarrow> (string + unit) timed \<times> 'w"

datatype stream_end = AtFin | AtReset string | Silent

type_synonym source = "bytes \<times> stream_end"

text \<open>Writing succeeds and appends to what the peer receives.\<close>

definition writer_law :: "'w writer \<Rightarrow> ('w \<Rightarrow> bytes) \<Rightarrow> bool" where
  "writer_law write sink \<longleftrightarrow>
     (\<forall>b w. fst (write b w) = Done (Inr ()) \<and> sink (snd (write b w)) = sink w @ b)"

definition keeps :: "('a \<Rightarrow> 'w \<Rightarrow> 'r \<times> 'w) \<Rightarrow> ('w \<Rightarrow> 'v) \<Rightarrow> bool" where
  "keeps op view \<longleftrightarrow> (\<forall>a w. view (snd (op a w)) = view w)"

text \<open>Operations that succeed and leave a view of the environment alone.\<close>

definition succeeds :: "('w \<Rightarrow> ('e + unit) timed \<times> 'w) \<Rightarrow> ('w \<Rightarrow> 'v) \<Rightarrow> bool" where
  "succeeds op view \<longleftrightarrow> (\<forall>w. fst (op w) = Done (Inr ()) \<and> view (snd (op w)) = view w)"

definition finishes :: "('w \<Rightarrow> ('e + unit) \<times> 'w) \<Rightarrow> ('w \<Rightarrow> 'v) \<Rightarrow> bool" where
  "finishes op view \<longleftrightarrow> (\<forall>w. fst (op w) = Inr () \<and> view (snd (op w)) = view w)"

lemma keeps_read: "keeps read view \<Longrightarrow> read n w = (r, w') \<Longrightarrow> view w' = view w"
  unfolding keeps_def by (metis snd_conv)

lemma timed_io_keeps: "keeps op view \<Longrightarrow> view w = v \<Longrightarrow> view (snd (timed_io el f (op a) w)) = v"
proof -
  have "snd (timed_io el f (op a) w) = snd (op a w)"
    by (simp add: timed_io_def split: prod.split timed.split sum.split)
  then show "keeps op view \<Longrightarrow> view w = v \<Longrightarrow> view (snd (timed_io el f (op a) w)) = v"
    by (simp add: keeps_def)
qed

lemma bind_io_keeps:
  "view (snd (m w)) = v \<Longrightarrow> (\<And>a w'. view w' = v \<Longrightarrow> view (snd (f a w')) = v) \<Longrightarrow>
     view (snd (bind_io m f w)) = v"
  by (auto simp: bind_io_def split: prod.split sum.split)

lemma succeedsD: "succeeds op view \<Longrightarrow> \<exists>w'. op w = (Done (Inr ()), w') \<and> view w' = view w"
  unfolding succeeds_def by (metis prod.collapse)

lemma finishesD: "finishes op view \<Longrightarrow> \<exists>w'. op w = (Inr (), w') \<and> view w' = view w"
  unfolding finishes_def by (metis prod.collapse)

lemma writer_lawD:
  "writer_law write sink \<Longrightarrow> \<exists>w'. write b w = (Done (Inr ()), w') \<and> sink w' = sink w @ b"
  unfolding writer_law_def by (metis prod.collapse)

end
