(* ===== verification/Doq_Forward.thy ===== *)
theory Doq_Forward
  imports Quic_Pool Streams
begin

unbundle bit_operations_syntax

section \<open>One DoQ transaction (\<open>src/upstream/quic.rs\<close>)\<close>

text \<open>
  The framing of DNS messages on a QUIC stream and \<open>forward_quic_stream\<close>, which reads one
  query from the client's stream and relays the frames of the response. Streams and the
  session pool are the parameter \<open>doq_io\<close>: each operation takes the state of the
  environment and returns its outcome and the new state. The relay loop ends when the
  upstream stream does, so it is a partial function.
\<close>

datatype read_exact_error = FinishedEarly nat | ReadFailed string

type_synonym 'w reader = "nat \<Rightarrow> 'w \<Rightarrow> (read_exact_error + bytes) timed \<times> 'w"

record 'w doq_io =
  io_show_read_error :: "read_exact_error \<Rightarrow> string"
  io_read_client :: "'w reader"
  io_write_client :: "'w writer"
  io_finish_client :: "'w \<Rightarrow> (string + unit) \<times> 'w"
  io_pool_get :: "quic_application \<Rightarrow> string \<Rightarrow> u16 \<Rightarrow> 'w \<Rightarrow> (dns_proxy_error + unit) timed \<times> 'w"
  io_open_bi :: "'w \<Rightarrow> (string + unit) timed \<times> 'w"
  io_invalidate :: "quic_application \<Rightarrow> string \<Rightarrow> u16 \<Rightarrow> 'w \<Rightarrow> 'w"
  io_read_upstream :: "'w reader"
  io_write_upstream :: "'w writer"
  io_finish_upstream :: "'w \<Rightarrow> (string + unit) \<times> 'w"

subsection \<open>Frames\<close>

definition u16_from_be_bytes :: "bytes \<Rightarrow> u16" where
  "u16_from_be_bytes b = (push_bit 8 (ucast (b ! 0)) OR ucast (b ! 1))"

definition u16_to_be_bytes :: "u16 \<Rightarrow> bytes" where
  "u16_to_be_bytes w = [ucast (drop_bit 8 w), ucast w]"

definition doq_idle_timeout :: "string \<Rightarrow> dns_proxy_error" where
  "doq_idle_timeout operation = Timeout (''DoQ transaction ('' @ operation @ '')'')"

definition read_doq_frame ::
    "(read_exact_error \<Rightarrow> string) \<Rightarrow> 'w reader \<Rightarrow> ('w, dns_proxy_error, bytes option) io" where
  "read_doq_frame show_err read w =
     (case read 2 w of
        (Elapsed, w1) \<Rightarrow> (Inl (doq_idle_timeout ''reading DoQ frame length''), w1)
      | (Done (Inl err), w1) \<Rightarrow>
          if err = FinishedEarly 0 then (Inr None, w1)
          else (Inl (Protocol (''DoQ stream ended with an incomplete frame: '' @ show_err err)), w1)
      | (Done (Inr b), w1) \<Rightarrow>
          let len = unat (u16_from_be_bytes b)
          in if len = 0 then (Inl (Protocol ''DoQ DNS frame must not be empty''), w1)
             else bind_io
               (timed_io (doq_idle_timeout ''reading DoQ message'')
                 (\<lambda>err. Protocol (''DoQ stream ended with an incomplete DNS message: '' @ show_err err))
                 (read len))
               (\<lambda>message. return_io (Some message)) w1)"

definition write_doq_frame :: "'w writer \<Rightarrow> bytes \<Rightarrow> ('w, dns_proxy_error, unit) io" where
  "write_doq_frame write message w =
     (if 2 ^ 16 \<le> length message then (Inl (Protocol ''DoQ message exceeds 65535 bytes''), w)
      else bind_io
        (timed_io (doq_idle_timeout ''writing DoQ frame length'')
          (\<lambda>e. Protocol (''Failed to write DoQ frame length: '' @ e))
          (write (u16_to_be_bytes (of_nat (length message)))))
        (\<lambda>_. timed_io (doq_idle_timeout ''writing DoQ message'')
          (\<lambda>e. Protocol (''Failed to write DoQ frame body: '' @ e))
          (write message)) w)"

definition read_doq_query ::
    "(read_exact_error \<Rightarrow> string) \<Rightarrow> 'w reader \<Rightarrow> ('w, dns_proxy_error, bytes) io" where
  "read_doq_query show_err read =
     bind_io (read_doq_frame show_err read) (\<lambda>first.
     case first of
       None \<Rightarrow> fail_io (Protocol ''DoQ stream ended before query frame'')
     | Some query \<Rightarrow>
         if length query < 12 then fail_io (Protocol ''DoQ query is shorter than the DNS header'')
         else if take 2 query \<noteq> [0, 0] then fail_io (Protocol ''DoQ query DNS message ID must be zero'')
         else bind_io (read_doq_frame show_err read) (\<lambda>second.
           if second \<noteq> None then fail_io (Protocol ''DoQ stream contains more than one query'')
           else return_io query))"

subsection \<open>Forwarding\<close>

definition request_failed :: "string \<Rightarrow> u16 \<Rightarrow> string \<Rightarrow> dns_proxy_error" where
  "request_failed server_name port reason = Upstream (RequestFailed (host_port server_name port) reason)"

partial_function (option) relay_responses ::
    "'w doq_io \<Rightarrow> u64 \<Rightarrow> 'w \<Rightarrow> ((dns_proxy_error + u64) \<times> 'w) option" where
  "relay_responses io sent w =
     (case read_doq_frame (io_show_read_error io) (io_read_upstream io) w of
        (Inl e, w1) \<Rightarrow> Some (Inl e, w1)
      | (Inr None, w1) \<Rightarrow> Some (Inr sent, w1)
      | (Inr (Some response), w1) \<Rightarrow>
          if length response < 12 \<or> take 2 response \<noteq> [0, 0]
          then Some (Inl (Protocol ''DoQ upstream response has an invalid DNS message ID''), w1)
          else (case write_doq_frame (io_write_client io) response w1 of
                  (Inl e, w2) \<Rightarrow> Some (Inl e, w2)
                | (Inr _, w2) \<Rightarrow> relay_responses io (sent + of_nat (length response + 2)) w2))"

text \<open>A QUIC session from the pool and a stream on it; a session that gives no stream is invalidated.\<close>

definition open_upstream :: "'w doq_io \<Rightarrow> string \<Rightarrow> u16 \<Rightarrow> ('w, dns_proxy_error, unit) io" where
  "open_upstream io server_name port =
     bind_io (timed_io (doq_idle_timeout ''opening upstream connection'') (\<lambda>e. e)
                (io_pool_get io Doq server_name port)) (\<lambda>_ w.
     case io_open_bi io w of
       (Done (Inr _), w1) \<Rightarrow> (Inr (), w1)
     | (Done (Inl e), w1) \<Rightarrow>
         (Inl (request_failed server_name port (''Failed to open DoQ stream: '' @ e)),
          io_invalidate io Doq server_name port w1)
     | (Elapsed, w1) \<Rightarrow>
         (Inl (doq_idle_timeout ''opening upstream stream''), io_invalidate io Doq server_name port w1))"

definition send_query :: "'w doq_io \<Rightarrow> string \<Rightarrow> u16 \<Rightarrow> ('w, dns_proxy_error, bytes) io" where
  "send_query io server_name port =
     bind_io (read_doq_query (io_show_read_error io) (io_read_client io)) (\<lambda>query.
     bind_io (open_upstream io server_name port) (\<lambda>_.
     bind_io (write_doq_frame (io_write_upstream io) query) (\<lambda>_ w.
     case io_finish_upstream io w of
       (Inl e, w1) \<Rightarrow> (Inl (request_failed server_name port (''Failed to finish DoQ query: '' @ e)), w1)
     | (Inr _, w1) \<Rightarrow> (Inr query, w1))))"

definition forward_quic_stream ::
    "'w doq_io \<Rightarrow> string \<Rightarrow> u16 \<Rightarrow> 'w \<Rightarrow> ((dns_proxy_error + u64 \<times> u64) \<times> 'w) option" where
  "forward_quic_stream io server_name port w =
     (case send_query io server_name port w of
        (Inl e, w1) \<Rightarrow> Some (Inl e, w1)
      | (Inr query, w1) \<Rightarrow>
          (case relay_responses io 0 w1 of
             None \<Rightarrow> None
           | Some (Inl e, w2) \<Rightarrow> Some (Inl e, w2)
           | Some (Inr bytes_sent, w2) \<Rightarrow>
               (case io_finish_client io w2 of
                  (Inl e, w3) \<Rightarrow> Some (Inl (Protocol (''Failed to finish client stream: '' @ e)), w3)
                | (Inr _, w3) \<Rightarrow> Some (Inr (of_nat (length query + 2), bytes_sent), w3))))"

subsection \<open>Frames on the wire\<close>

lemma u16_be_roundtrip: "u16_from_be_bytes (u16_to_be_bytes w @ rest) = w"
  by (rule bit_word_eqI)
     (auto simp: u16_from_be_bytes_def u16_to_be_bytes_def bit_simps)

lemma u16_to_from_be: "u16_to_be_bytes (u16_from_be_bytes (a # b # rest)) = [a, b]"
proof -
  have "ucast (drop_bit 8 (push_bit 8 (ucast a) OR ucast b :: u16)) = a"
    by (rule bit_word_eqI) (auto simp: bit_simps dest: bit_imp_le_length)
  moreover have "ucast (push_bit 8 (ucast a) OR ucast b :: u16) = b"
    by (rule bit_word_eqI) (auto simp: bit_simps dest: bit_imp_le_length)
  ultimately show ?thesis by (simp add: u16_from_be_bytes_def u16_to_be_bytes_def)
qed

definition doq_frame :: "bytes \<Rightarrow> bytes" where
  "doq_frame m = u16_to_be_bytes (of_nat (length m)) @ m"

lemma length_u16_to_be_bytes [simp]: "length (u16_to_be_bytes w) = 2"
  by (simp add: u16_to_be_bytes_def)

lemma doq_frame_simps [simp]:
  "length (doq_frame m) = length m + 2"
  "take 2 (doq_frame m @ rest) = u16_to_be_bytes (of_nat (length m))"
  "drop 2 (doq_frame m @ rest) = m @ rest"
  "drop 2 (doq_frame m) = m"
  by (simp_all add: doq_frame_def)

lemma doq_frame_length:
  "length m < 2 ^ 16 \<Longrightarrow> unat (u16_from_be_bytes (doq_frame m @ rest)) = length m"
  by (simp add: doq_frame_def u16_be_roundtrip take_bit_nat_eq_self unsigned_of_nat)

end
