(* ===== verification/Doq_Correct.thy ===== *)
theory Doq_Correct
  imports Doq_Forward
begin

section \<open>What a DoQ transaction accepts and relays\<close>

text \<open>
  Facts about framing and relaying over streams that behave as \<open>quinn\<close> documents:
  \<open>read_exact\<close> returns the next bytes of the stream when it has them, reports how many
  it read when the stream was finished before, fails when it was reset, and waits when
  nothing more arrives; \<open>write_all\<close> appends to what the peer receives. \<open>src\<close> and \<open>sink\<close>
  read the undelivered and the delivered bytes of a stream off the environment.
\<close>

fun read_outcome :: "nat \<Rightarrow> source \<Rightarrow> (read_exact_error + bytes) timed" where
  "read_outcome n (data, e) =
     (if n \<le> length data then Done (Inr (take n data))
      else case e of
        AtFin \<Rightarrow> Done (Inl (FinishedEarly (length data)))
      | AtReset msg \<Rightarrow> Done (Inl (ReadFailed msg))
      | Silent \<Rightarrow> Elapsed)"

fun read_rest :: "nat \<Rightarrow> source \<Rightarrow> source" where
  "read_rest n (data, e) = (drop n data, e)"

definition reader_law :: "'w reader \<Rightarrow> ('w \<Rightarrow> source) \<Rightarrow> bool" where
  "reader_law read src \<longleftrightarrow>
     (\<forall>n w. fst (read n w) = read_outcome n (src w) \<and> src (snd (read n w)) = read_rest n (src w))"

subsection \<open>Reading and writing a frame\<close>

lemma reader_lawD:
  assumes "reader_law read src" and "src w = (data, e)"
  obtains w' where "read n w = (read_outcome n (data, e), w')" and "src w' = (drop n data, e)"
  using assms unfolding reader_law_def by (metis prod.collapse read_rest.simps)

lemma reader_law_full:
  assumes "reader_law read src" and "src w = (data, e)" and "n \<le> length data"
  shows "\<exists>w'. read n w = (Done (Inr (take n data)), w') \<and> src w' = (drop n data, e)"
  by (rule reader_lawD [OF assms(1,2), of n]) (use assms(3) in simp)

lemma u16_from_be_take: "2 \<le> length data \<Longrightarrow> u16_from_be_bytes (take 2 data) = u16_from_be_bytes data"
  by (simp add: u16_from_be_bytes_def)

text \<open>The four ways a read can go, by what the stream still holds.\<close>

lemma read_doq_frame_end:
  assumes law: "reader_law read src" and src: "src w = ([], AtFin)"
  shows "\<exists>w'. read_doq_frame show_err read w = (Inr None, w') \<and> src w' = ([], AtFin)"
proof -
  obtain w' where "read 2 w = (read_outcome 2 ([], AtFin), w')" "src w' = ([], AtFin)"
    using reader_lawD [OF law src, of 2] by auto
  then show ?thesis by (simp add: read_doq_frame_def)
qed

lemma read_doq_frame_short:
  assumes law: "reader_law read src" and src: "src w = (data, e)" and "length data < 2"
    and "(data, e) \<noteq> ([], AtFin)"
  shows "\<exists>err w'. read_doq_frame show_err read w = (Inl err, w')"
proof -
  obtain w' where "read 2 w = (read_outcome 2 (data, e), w')"
    using reader_lawD [OF law src, of 2] by auto
  then show ?thesis
    using assms(3,4) by (auto simp: read_doq_frame_def split: stream_end.splits)
qed

lemma read_doq_frame_partial:
  assumes law: "reader_law read src" and src: "src w = (data, e)" and two: "2 \<le> length data"
    and n: "n = unat (u16_from_be_bytes data)" and bad: "n = 0 \<or> length data < n + 2"
  shows "\<exists>err w'. read_doq_frame show_err read w = (Inl err, w')"
proof -
  obtain w1 where r1: "read 2 w = (Done (Inr (take 2 data)), w1)" and s1: "src w1 = (drop 2 data, e)"
    using reader_law_full [OF law src two] by blast
  obtain w2 where r2: "read n w1 = (read_outcome n (drop 2 data, e), w2)"
    using reader_lawD [OF law s1, of n] by auto
  show ?thesis
  proof (cases "n = 0")
    case True
    then show ?thesis using r1 n by (simp add: read_doq_frame_def u16_from_be_take [OF two])
  next
    case False
    then have "\<not> n \<le> length (drop 2 data)" using bad by auto
    then have "read n w1 = (Elapsed, w2) \<or> (\<exists>x. read n w1 = (Done (Inl x), w2))"
      using r2 by (cases e) auto
    then show ?thesis
      using r1 False n
      by (auto simp: read_doq_frame_def u16_from_be_take [OF two] Let_def)
  qed
qed

lemma read_doq_frame_full:
  assumes law: "reader_law read src" and src: "src w = (data, e)" and two: "2 \<le> length data"
    and n: "n = unat (u16_from_be_bytes data)" and "0 < n" and len: "n + 2 \<le> length data"
  shows "\<exists>w'. read_doq_frame show_err read w = (Inr (Some (take n (drop 2 data))), w')
     \<and> src w' = (drop (n + 2) data, e)"
proof -
  obtain w1 where r1: "read 2 w = (Done (Inr (take 2 data)), w1)" and s1: "src w1 = (drop 2 data, e)"
    using reader_law_full [OF law src two] by blast
  have "n \<le> length (drop 2 data)" using len by simp
  then obtain w2 where r2: "read n w1 = (Done (Inr (take n (drop 2 data))), w2)"
      and s2: "src w2 = (drop (n + 2) data, e)"
    using reader_law_full [OF law s1] by (metis drop_drop)
  show ?thesis
    unfolding read_doq_frame_def r1 using r2 s2 \<open>0 < n\<close>
    by (simp add: u16_from_be_take [OF two] n [symmetric])
qed

lemma read_doq_frame_keeps:
  assumes "keeps read view"
  shows "view (snd (read_doq_frame show_err read w)) = view w"
proof -
  obtain r w1 where r1: "read 2 w = (r, w1)" by fastforce
  then have w1: "view w1 = view w" by (rule keeps_read [OF assms])
  show ?thesis
  proof (cases r)
    case Elapsed
    then show ?thesis by (simp add: read_doq_frame_def r1 w1)
  next
    case (Done x)
    show ?thesis
    proof (cases x)
      case (Inl err)
      then show ?thesis by (simp add: read_doq_frame_def r1 Done w1)
    next
      case (Inr b)
      have "view (snd (bind_io (timed_io el f (read n)) (\<lambda>m. return_io (Some m)) w1)) = view w"
        for el :: dns_proxy_error and f n
        by (rule bind_io_keeps, rule timed_io_keeps [OF assms w1]) simp
      then show ?thesis
        using Inr by (simp add: read_doq_frame_def r1 Done w1 Let_def)
    qed
  qed
qed

lemma write_doq_frame_law:
  assumes "writer_law write sink" and "length m < 2 ^ 16"
  shows "\<exists>w'. write_doq_frame write m w = (Inr (), w') \<and> sink w' = sink w @ doq_frame m"
proof -
  obtain w1 where w1: "write (u16_to_be_bytes (of_nat (length m))) w = (Done (Inr ()), w1)"
      "sink w1 = sink w @ u16_to_be_bytes (of_nat (length m))"
    using assms(1) unfolding writer_law_def by (metis prod.collapse)
  obtain w2 where w2: "write m w1 = (Done (Inr ()), w2)" "sink w2 = sink w1 @ m"
    using assms(1) unfolding writer_law_def by (metis prod.collapse)
  show ?thesis
    using w1 w2 assms(2) by (simp add: write_doq_frame_def doq_frame_def)
qed

lemma write_doq_frame_keeps:
  assumes "keeps write view"
  shows "view (snd (write_doq_frame write m w)) = view w"
proof (cases "2 ^ 16 \<le> length m")
  case True
  then show ?thesis by (simp add: write_doq_frame_def)
next
  case False
  have "view (snd (bind_io (timed_io el f (write a)) (\<lambda>_. timed_io el' f' (write b)) w)) = view w"
    for el el' :: dns_proxy_error and f f' a b
    by (rule bind_io_keeps, rule timed_io_keeps [OF assms refl], rule timed_io_keeps [OF assms])
  then show ?thesis using False by (simp add: write_doq_frame_def)
qed

subsection \<open>The query\<close>

definition doq_query_ok :: "bytes \<Rightarrow> bool" where
  "doq_query_ok q \<longleftrightarrow> 12 \<le> length q \<and> length q < 2 ^ 16 \<and> take 2 q = [0, 0]"

lemma read_doq_frame_doq_frame:
  assumes law: "reader_law read src" and src: "src w = (doq_frame m @ rest, e)"
    and m: "m \<noteq> []" "length m < 2 ^ 16"
  shows "\<exists>w'. read_doq_frame show_err read w = (Inr (Some m), w') \<and> src w' = (rest, e)"
proof -
  have n: "unat (u16_from_be_bytes (doq_frame m @ rest)) = length m"
    by (rule doq_frame_length [OF m(2)])
  have drop: "drop (length m + 2) (doq_frame m @ rest) = rest"
    by (simp add: doq_frame_def)
  have two: "2 \<le> length (doq_frame m @ rest)" and len: "length m + 2 \<le> length (doq_frame m @ rest)"
    by simp_all
  have pos: "0 < length m" using m(1) by simp
  show ?thesis
    using read_doq_frame_full [OF law src two n [symmetric] pos len, of show_err] unfolding drop by simp
qed

text \<open>A frame that is read is what the stream held.\<close>

lemma read_doq_frame_SomeD:
  assumes law: "reader_law read src" and read: "read_doq_frame show_err read w = (Inr (Some m), w')"
  shows "src w = (doq_frame m @ fst (src w'), snd (src w'))" and "m \<noteq> []" and "length m < 2 ^ 16"
proof -
  obtain data e where src: "src w = (data, e)" by fastforce
  have two: "2 \<le> length data"
  proof (rule ccontr)
    assume "\<not> 2 \<le> length data"
    then show False
      using read read_doq_frame_end [OF law, of w show_err] read_doq_frame_short [OF law src, of show_err] src
      by (cases "(data, e) = ([], AtFin)") auto
  qed
  let ?n = "unat (u16_from_be_bytes data)"
  have full: "0 < ?n" "?n + 2 \<le> length data"
    using read read_doq_frame_partial [OF law src two refl, of show_err] by force+
  have r: "m = take ?n (drop 2 data)" and s: "src w' = (drop (?n + 2) data, e)"
    using read read_doq_frame_full [OF law src two refl full, of show_err] by auto
  have len: "length m = ?n" using r full by simp
  obtain a b data' where data: "data = a # b # data'"
    using two by (cases data; cases "tl data") auto
  have "u16_to_be_bytes (of_nat (length m)) = take 2 data"
    using len u16_to_from_be [of a b data'] data by simp
  then have "data = doq_frame m @ drop (?n + 2) data"
    using r by (metis append_assoc append_take_drop_id doq_frame_def drop_drop add.commute)
  then show "src w = (doq_frame m @ fst (src w'), snd (src w'))" using src s by simp
  show "m \<noteq> []" using len full(1) by auto
  show "length m < 2 ^ 16" using len unsigned_less [of "u16_from_be_bytes data", where 'a = nat] by simp
qed

lemma read_doq_frame_NoneD:
  assumes law: "reader_law read src" and read: "read_doq_frame show_err read w = (Inr None, w')"
  shows "src w = ([], AtFin)"
proof -
  obtain data e where src: "src w = (data, e)" by fastforce
  let ?n = "unat (u16_from_be_bytes data)"
  show ?thesis
  proof (cases "2 \<le> length data")
    case False
    then show ?thesis using read read_doq_frame_short [OF law src, of show_err] src by force
  next
    case True
    then show ?thesis
      using read read_doq_frame_partial [OF law src True refl, of show_err]
        read_doq_frame_full [OF law src True refl, of show_err] by force
  qed
qed

lemma read_doq_query_Inr_iff:
  "(\<exists>w'. read_doq_query show_err read w = (Inr q, w')) \<longleftrightarrow>
     (\<exists>w1 w2. read_doq_frame show_err read w = (Inr (Some q), w1) \<and> 12 \<le> length q
        \<and> take 2 q = [0, 0] \<and> read_doq_frame show_err read w1 = (Inr None, w2))"
  by (auto simp: read_doq_query_def bind_io_def fail_io_def return_io_def
      split: prod.splits sum.splits option.splits if_splits)

lemma read_doq_query_accepts:
  assumes law: "reader_law read src"
  shows "(\<exists>w'. read_doq_query show_err read w = (Inr q, w')) \<longleftrightarrow>
     doq_query_ok q \<and> src w = (doq_frame q, AtFin)"
proof
  assume "\<exists>w'. read_doq_query show_err read w = (Inr q, w')"
  then obtain w1 w2 where r: "read_doq_frame show_err read w = (Inr (Some q), w1)"
      "12 \<le> length q" "take 2 q = [0, 0]" "read_doq_frame show_err read w1 = (Inr None, w2)"
    unfolding read_doq_query_Inr_iff by blast
  then show "doq_query_ok q \<and> src w = (doq_frame q, AtFin)"
    using read_doq_frame_SomeD [OF law r(1)] read_doq_frame_NoneD [OF law r(4)]
    by (simp add: doq_query_ok_def)
next
  assume ok: "doq_query_ok q \<and> src w = (doq_frame q, AtFin)"
  then obtain w1 where "read_doq_frame show_err read w = (Inr (Some q), w1)" "src w1 = ([], AtFin)"
    using read_doq_frame_doq_frame [OF law, of w q "[]" AtFin show_err]
    by (cases q) (auto simp: doq_query_ok_def)
  moreover from this obtain w2 where "read_doq_frame show_err read w1 = (Inr None, w2)"
    using read_doq_frame_end [OF law] by blast
  ultimately show "\<exists>w'. read_doq_query show_err read w = (Inr q, w')"
    unfolding read_doq_query_Inr_iff using ok by (auto simp: doq_query_ok_def)
qed

subsection \<open>The response\<close>

text \<open>
  The response frames a stream starts with, as long as they are complete and carry a
  message with a header and identifier zero; and what is left after them.
\<close>

function split_responses :: "bytes \<Rightarrow> bytes list \<times> bytes" where
  "split_responses data =
     (let n = unat (u16_from_be_bytes data)
      in if length data < 2 \<or> n < 12 \<or> length data < n + 2 \<or> take 2 (drop 2 data) \<noteq> [0, 0]
         then ([], data)
         else let (rs, rest) = split_responses (drop (n + 2) data)
              in (take n (drop 2 data) # rs, rest))"
  by pat_completeness auto
termination by (relation "measure length") auto

declare split_responses.simps [simp del]

definition response_starts :: "bytes \<Rightarrow> bool" where
  "response_starts data \<longleftrightarrow>
     2 \<le> length data \<and> 12 \<le> unat (u16_from_be_bytes data)
     \<and> unat (u16_from_be_bytes data) + 2 \<le> length data \<and> take 2 (drop 2 data) = [0, 0]"

lemma split_responses_stop: "\<not> response_starts data \<Longrightarrow> split_responses data = ([], data)"
  by (subst split_responses.simps) (auto simp: response_starts_def Let_def)

lemma split_responses_step:
  assumes "response_starts data" and "n = unat (u16_from_be_bytes data)"
    and "split_responses (drop (n + 2) data) = (rs, rest)"
  shows "split_responses data = (take n (drop 2 data) # rs, rest)"
  using assms by (subst split_responses.simps) (auto simp: response_starts_def Let_def)

lemma doq_frame_of_wire:
  assumes "2 \<le> length data" and "n = unat (u16_from_be_bytes data)" and "n + 2 \<le> length data"
  shows "doq_frame (take n (drop 2 data)) @ drop (n + 2) data = data"
proof -
  obtain a b data' where data: "data = a # b # data'"
    using assms(1) by (cases data; cases "tl data") auto
  have "length (take n (drop 2 data)) = n" using assms(3) by simp
  then have "doq_frame (take n (drop 2 data)) = take 2 data @ take n (drop 2 data)"
    using u16_to_from_be [of a b data'] data assms(2) by (simp add: doq_frame_def)
  then show ?thesis
    by (metis append.assoc append_take_drop_id drop_drop add.commute)
qed

lemma split_responses_concat:
  "split_responses data = (rs, rest) \<Longrightarrow> concat (map doq_frame rs) @ rest = data"
proof (induction data arbitrary: rs rule: split_responses.induct)
  case (1 data)
  show ?case
  proof (cases "response_starts data")
    case False
    then show ?thesis using 1(2) by (simp add: split_responses_stop)
  next
    case True
    let ?n = "unat (u16_from_be_bytes data)"
    obtain rs' rest' where sp: "split_responses (drop (?n + 2) data) = (rs', rest')" by fastforce
    then have rs: "rs = take ?n (drop 2 data) # rs'" "rest = rest'"
      using 1(2) split_responses_step [OF True refl sp] by auto
    have "concat (map doq_frame rs') @ rest = drop (?n + 2) data"
      using 1(1) [of ?n rs'] True sp rs(2) by (auto simp: response_starts_def)
    then show ?thesis
      using rs doq_frame_of_wire [of data ?n] True by (simp add: response_starts_def)
  qed
qed

text \<open>Streams on which writing succeeds, and that do not disturb each other.\<close>

definition relay_law :: "'w doq_io \<Rightarrow> ('w \<Rightarrow> source) \<Rightarrow> ('w \<Rightarrow> bytes) \<Rightarrow> bool" where
  "relay_law io src sink \<longleftrightarrow>
     reader_law (io_read_upstream io) src \<and> keeps (io_read_upstream io) sink
     \<and> writer_law (io_write_client io) sink \<and> keeps (io_write_client io) src"

lemma relay_responses_stop:
  assumes law: "relay_law io src sink" and src: "src w = (data, e)" and stop: "\<not> response_starts data"
  shows "\<exists>r w'. relay_responses io sent w = Some (r, w') \<and> sink w' = sink w
     \<and> (if data = [] \<and> e = AtFin then r = Inr sent else \<exists>err. r = Inl err)"
proof -
  have rl: "reader_law (io_read_upstream io) src" and ks: "keeps (io_read_upstream io) sink"
    using law by (simp_all add: relay_law_def)
  obtain r w1 where rd: "read_doq_frame (io_show_read_error io) (io_read_upstream io) w = (r, w1)"
    by fastforce
  have sink: "sink w1 = sink w"
    using read_doq_frame_keeps [OF ks, of "io_show_read_error io" w] rd by simp
  show ?thesis
  proof (cases r)
    case (Inl err)
    then have "\<not> (data = [] \<and> e = AtFin)"
      using read_doq_frame_end [OF rl, of w "io_show_read_error io"] src rd by auto
    then show ?thesis using Inl rd sink by (subst relay_responses.simps) auto
  next
    case (Inr x)
    show ?thesis
    proof (cases x)
      case None
      then have "data = [] \<and> e = AtFin"
        using read_doq_frame_NoneD [OF rl] rd Inr src by auto
      then show ?thesis using Inr None rd sink by (subst relay_responses.simps) auto
    next
      case (Some m)
      have wire: "data = doq_frame m @ fst (src w1)" and len: "length m < 2 ^ 16" and ne: "m \<noteq> []"
        using read_doq_frame_SomeD [OF rl] rd Inr Some src by auto
      have "length m < 12 \<or> take 2 m \<noteq> [0, 0]"
        using stop doq_frame_length [OF len, of "fst (src w1)"] unfolding wire response_starts_def
        by auto
      moreover have "data \<noteq> []" using wire ne by (auto simp: doq_frame_def)
      ultimately show ?thesis using Inr Some rd sink by (subst relay_responses.simps) auto
    qed
  qed
qed

lemma relay_responses_spec:
  assumes law: "relay_law io src sink"
  shows "src w = (data, e) \<Longrightarrow> split_responses data = (rs, rest) \<Longrightarrow>
    \<exists>r w'. relay_responses io sent w = Some (r, w')
      \<and> sink w' = sink w @ concat (map doq_frame rs)
      \<and> (if rest = [] \<and> e = AtFin then r = Inr (sent + of_nat (length (concat (map doq_frame rs))))
         else \<exists>err. r = Inl err)"
proof (induction data arbitrary: w sent rs rule: split_responses.induct)
  case (1 data)
  show ?case
  proof (cases "response_starts data")
    case False
    then have "rs = []" and "rest = data"
      using 1(3) by (simp_all add: split_responses_stop)
    then show ?thesis
      using relay_responses_stop [OF law 1(2) False, of sent] by (simp only: list.map concat.simps append_Nil2 list.size semiring_1_class.of_nat_0 add_0_right)
  next
    case True
    let ?n = "unat (u16_from_be_bytes data)" and ?m = "take (unat (u16_from_be_bytes data)) (drop 2 data)"
    have rl: "reader_law (io_read_upstream io) src" and ks: "keeps (io_read_upstream io) sink"
      and wl: "writer_law (io_write_client io) sink" and kw: "keeps (io_write_client io) src"
      using law by (simp_all add: relay_law_def)
    obtain rs' where sp: "split_responses (drop (?n + 2) data) = (rs', rest)" and rs: "rs = ?m # rs'"
      using 1(3) split_responses_step [OF True refl] by (metis Pair_inject surj_pair)
    have two: "2 \<le> length data" and n: "12 \<le> ?n" "?n + 2 \<le> length data" and id: "take 2 (drop 2 data) = [0, 0]"
      using True by (simp_all add: response_starts_def)
    have len: "length ?m = ?n" using n(2) by simp
    have pos: "0 < ?n" using n(1) by linarith
    obtain w1 where rd: "read_doq_frame (io_show_read_error io) (io_read_upstream io) w = (Inr (Some ?m), w1)"
        and s1: "src w1 = (drop (?n + 2) data, e)"
      using read_doq_frame_full [OF rl 1(2) two refl pos n(2)] by blast
    have k1: "sink w1 = sink w"
      using read_doq_frame_keeps [OF ks, of "io_show_read_error io" w] rd by simp
    have "length ?m < 2 ^ 16"
      using len unsigned_less [of "u16_from_be_bytes data", where 'a = nat] by simp
    then obtain w2 where wr: "write_doq_frame (io_write_client io) ?m w1 = (Inr (), w2)"
        and k2: "sink w2 = sink w1 @ doq_frame ?m"
      using write_doq_frame_law [OF wl] by blast
    have s2: "src w2 = (drop (?n + 2) data, e)"
      using write_doq_frame_keeps [OF kw, of ?m w1] wr s1 by simp
    have "take 2 ?m = [0, 0]" using id n(1) by (simp add: min_def)
    then have step: "relay_responses io sent w = relay_responses io (sent + of_nat (?n + 2)) w2"
      using rd wr len n(1) by (subst relay_responses.simps) simp
    have pre: "\<not> (length data < 2 \<or> ?n < 12 \<or> length data < ?n + 2 \<or> take 2 (drop 2 data) \<noteq> [0, 0])"
      using two n id by simp
    from 1(1) [OF refl pre s2 sp, of "sent + of_nat (?n + 2)"] obtain r w' where
      IH: "relay_responses io (sent + of_nat (?n + 2)) w2 = Some (r, w')"
        "sink w' = sink w2 @ concat (map doq_frame rs')"
        "if rest = [] \<and> e = AtFin
           then r = Inr (sent + of_nat (?n + 2) + of_nat (length (concat (map doq_frame rs'))))
           else \<exists>err. r = Inl err"
      by blast
    have total: "sent + of_nat (?n + 2) + of_nat (length (concat (map doq_frame rs')))
        = sent + (of_nat (length (concat (map doq_frame rs))) :: u64)"
      unfolding rs using len by simp
    have out: "sink w' = sink w @ concat (map doq_frame rs)"
      using IH(2) k1 k2 rs by simp
    show ?thesis
      unfolding step IH(1) using out IH(3) unfolding total by blast
  qed
qed

lemma relay_responses_keeps:
  assumes "keeps (io_read_upstream io) view" and "keeps (io_write_client io) view"
  shows "relay_responses io sent w = Some (r, w') \<Longrightarrow> view w' = view w"
proof -
  let ?P = "\<lambda>io (sent :: u64) w y. keeps (io_read_upstream io) view \<longrightarrow> keeps (io_write_client io) view
      \<longrightarrow> view (snd y) = view w"
  have "?P io sent w y" if "relay_responses io sent w = Some y" for io sent w and y :: "(dns_proxy_error + u64) \<times> 'a"
  proof (rule relay_responses.raw_induct [of ?P, OF _ that], intro impI)
    fix relay and io :: "'a doq_io" and sent w and y :: "(dns_proxy_error + u64) \<times> 'a"
    assume IH: "\<And>io sent w y. relay io sent w = Some y \<Longrightarrow> ?P io sent w y"
      and body: "(case read_doq_frame (io_show_read_error io) (io_read_upstream io) w of
        (Inl e, w1) \<Rightarrow> Some (Inl e, w1)
      | (Inr None, w1) \<Rightarrow> Some (Inr sent, w1)
      | (Inr (Some response), w1) \<Rightarrow>
          if length response < 12 \<or> take 2 response \<noteq> [0, 0]
          then Some (Inl (Protocol ''DoQ upstream response has an invalid DNS message ID''), w1)
          else (case write_doq_frame (io_write_client io) response w1 of
                  (Inl e, w2) \<Rightarrow> Some (Inl e, w2)
                | (Inr _, w2) \<Rightarrow> relay io (sent + of_nat (length response + 2)) w2)) = Some y"
      and k: "keeps (io_read_upstream io) view" "keeps (io_write_client io) view"
    obtain a w1 where rd: "read_doq_frame (io_show_read_error io) (io_read_upstream io) w = (a, w1)"
      by fastforce
    have v1: "view w1 = view w"
      using read_doq_frame_keeps [OF k(1), of "io_show_read_error io" w] rd by simp
    show "view (snd y) = view w"
    proof (cases "\<exists>m. a = Inr (Some m) \<and> \<not> (length m < 12 \<or> take 2 m \<noteq> [0, 0])")
      case False
      then show ?thesis
        using body rd v1 by (auto split: sum.splits option.splits if_splits)
    next
      case True
      then obtain m where m: "a = Inr (Some m)" "\<not> (length m < 12 \<or> take 2 m \<noteq> [0, 0])" by blast
      obtain b w2 where wr: "write_doq_frame (io_write_client io) m w1 = (b, w2)" by fastforce
      have v2: "view w2 = view w"
        using write_doq_frame_keeps [OF k(2), of m w1] v1 wr by simp
      show ?thesis
        using body rd m wr v2 IH k by (cases b) fastforce+
    qed
  qed
  then show "relay_responses io sent w = Some (r, w') \<Longrightarrow> view w' = view w"
    using assms by fastforce
qed

subsection \<open>The whole transaction\<close>

text \<open>
  An environment in which connecting and writing succeed: reading one stream does not
  touch the others, and the peers receive what is written. The streams themselves may
  hold anything and end in any way.
\<close>

definition doq_law ::
    "'w doq_io \<Rightarrow> string \<Rightarrow> u16 \<Rightarrow> ('w \<Rightarrow> source) \<Rightarrow> ('w \<Rightarrow> source) \<Rightarrow> ('w \<Rightarrow> bytes) \<Rightarrow> ('w \<Rightarrow> bytes) \<Rightarrow> bool" where
  "doq_law io server_name port client_src up_src client_sink up_sink \<longleftrightarrow>
     (let all = (\<lambda>w. (up_src w, client_sink w, up_sink w)) in
      reader_law (io_read_client io) client_src \<and> keeps (io_read_client io) all
      \<and> succeeds (io_pool_get io Doq server_name port) all \<and> succeeds (io_open_bi io) all
      \<and> writer_law (io_write_upstream io) up_sink
      \<and> keeps (io_write_upstream io) (\<lambda>w. (up_src w, client_sink w))
      \<and> finishes (io_finish_upstream io) all
      \<and> relay_law io up_src client_sink
      \<and> keeps (io_read_upstream io) up_sink \<and> keeps (io_write_client io) up_sink
      \<and> finishes (io_finish_client io) all)"

lemma read_doq_query_keeps:
  assumes "keeps read view"
  shows "view (snd (read_doq_query show_err read w)) = view w"
proof -
  have frame: "view w' = v \<Longrightarrow> view (snd (read_doq_frame show_err read w')) = v" for w' v
    by (simp add: read_doq_frame_keeps [OF assms])
  show ?thesis
    unfolding read_doq_query_def
  proof (rule bind_io_keeps, rule frame [OF refl], goal_cases)
    case (1 first w')
    then show ?case
      by (cases first) (auto intro!: bind_io_keeps [where view = view] frame)
  qed
qed

lemma send_query_rejects:
  assumes law: "doq_law io server_name port client_src up_src client_sink up_sink"
    and bad: "\<nexists>q. doq_query_ok q \<and> client_src w = (doq_frame q, AtFin)"
  shows "\<exists>err w'. send_query io server_name port w = (Inl err, w')
     \<and> client_sink w' = client_sink w \<and> up_sink w' = up_sink w"
proof -
  have rl: "reader_law (io_read_client io) client_src"
    and ks: "keeps (io_read_client io) (\<lambda>w. (up_src w, client_sink w, up_sink w))"
    using law by (simp_all add: doq_law_def Let_def)
  obtain r w1 where rd: "read_doq_query (io_show_read_error io) (io_read_client io) w = (r, w1)"
    by fastforce
  then obtain err where "r = Inl err"
    using read_doq_query_accepts [OF rl] bad by (cases r) blast+
  then show ?thesis
    using rd read_doq_query_keeps [OF ks, of "io_show_read_error io" w] by (simp add: send_query_def)
qed

lemma send_query_sends:
  assumes law: "doq_law io server_name port client_src up_src client_sink up_sink"
    and ok: "doq_query_ok q" and src: "client_src w = (doq_frame q, AtFin)"
  shows "\<exists>w'. send_query io server_name port w = (Inr q, w')
     \<and> up_src w' = up_src w \<and> client_sink w' = client_sink w \<and> up_sink w' = up_sink w @ doq_frame q"
proof -
  have rl: "reader_law (io_read_client io) client_src"
    and ks: "keeps (io_read_client io) (\<lambda>w. (up_src w, client_sink w, up_sink w))"
    and get: "succeeds (io_pool_get io Doq server_name port) (\<lambda>w. (up_src w, client_sink w, up_sink w))"
    and bi: "succeeds (io_open_bi io) (\<lambda>w. (up_src w, client_sink w, up_sink w))"
    and wl: "writer_law (io_write_upstream io) up_sink"
    and kw: "keeps (io_write_upstream io) (\<lambda>w. (up_src w, client_sink w))"
    and fin: "finishes (io_finish_upstream io) (\<lambda>w. (up_src w, client_sink w, up_sink w))"
    using law by (simp_all add: doq_law_def Let_def)
  obtain w1 where w1: "read_doq_query (io_show_read_error io) (io_read_client io) w = (Inr q, w1)"
    using read_doq_query_accepts [OF rl] ok src by blast
  then have v1: "(up_src w1, client_sink w1, up_sink w1) = (up_src w, client_sink w, up_sink w)"
    using read_doq_query_keeps [OF ks, of "io_show_read_error io" w] by simp
  obtain w2 where w2: "io_pool_get io Doq server_name port w1 = (Done (Inr ()), w2)"
      "(up_src w2, client_sink w2, up_sink w2) = (up_src w1, client_sink w1, up_sink w1)"
    using succeedsD [OF get, of w1] by blast
  obtain w3 where w3: "io_open_bi io w2 = (Done (Inr ()), w3)"
      "(up_src w3, client_sink w3, up_sink w3) = (up_src w2, client_sink w2, up_sink w2)"
    using succeedsD [OF bi, of w2] by blast
  obtain w4 where w4: "write_doq_frame (io_write_upstream io) q w3 = (Inr (), w4)"
      "up_sink w4 = up_sink w3 @ doq_frame q"
    using write_doq_frame_law [OF wl, of q w3] ok by (auto simp: doq_query_ok_def)
  have v4: "(up_src w4, client_sink w4) = (up_src w3, client_sink w3)"
    using write_doq_frame_keeps [OF kw, of q w3] w4(1) by simp
  obtain w5 where w5: "io_finish_upstream io w4 = (Inr (), w5)"
      "(up_src w5, client_sink w5, up_sink w5) = (up_src w4, client_sink w4, up_sink w4)"
    using finishesD [OF fin, of w4] by blast
  have "send_query io server_name port w = (Inr q, w5)"
    using w1 w2(1) w3(1) w4(1) w5(1)
    by (simp add: send_query_def open_upstream_def bind_io_def timed_io_def)
  then show ?thesis using v1 w2(2) w3(2) w4(2) v4 w5(2) by simp
qed

lemma doq_transaction:
  assumes law: "doq_law io server_name port client_src up_src client_sink up_sink"
    and up: "up_src w = (data, e)" and sp: "split_responses data = (rs, rest)"
    and ok: "doq_query_ok q" and src: "client_src w = (doq_frame q, AtFin)"
  shows "\<exists>r w'. forward_quic_stream io server_name port w = Some (r, w')
     \<and> up_sink w' = up_sink w @ doq_frame q
     \<and> client_sink w' = client_sink w @ concat (map doq_frame rs)
     \<and> (if rest = [] \<and> e = AtFin
        then r = Inr (of_nat (length (doq_frame q)), of_nat (length (concat (map doq_frame rs))))
        else \<exists>err. r = Inl err)"
proof -
  have rl: "relay_law io up_src client_sink"
    and ku: "keeps (io_read_upstream io) up_sink" "keeps (io_write_client io) up_sink"
    and fin: "finishes (io_finish_client io) (\<lambda>w. (up_src w, client_sink w, up_sink w))"
    using law by (simp_all add: doq_law_def Let_def)
  obtain w1 where w1: "send_query io server_name port w = (Inr q, w1)" "up_src w1 = (data, e)"
      "client_sink w1 = client_sink w" "up_sink w1 = up_sink w @ doq_frame q"
    using send_query_sends [OF law ok src] up by auto
  obtain r w2 where w2: "relay_responses io 0 w1 = Some (r, w2)"
      "client_sink w2 = client_sink w1 @ concat (map doq_frame rs)"
      "if rest = [] \<and> e = AtFin then r = Inr (0 + of_nat (length (concat (map doq_frame rs))))
       else \<exists>err. r = Inl err"
    using relay_responses_spec [OF rl w1(2) sp] by blast
  have v2: "up_sink w2 = up_sink w1" by (rule relay_responses_keeps [OF ku w2(1)])
  show ?thesis
  proof (cases "rest = [] \<and> e = AtFin")
    case False
    then show ?thesis using w1 w2 v2 by (auto simp: forward_quic_stream_def)
  next
    case True
    obtain w3 where w3: "io_finish_client io w2 = (Inr (), w3)"
        "(up_src w3, client_sink w3, up_sink w3) = (up_src w2, client_sink w2, up_sink w2)"
      using finishesD [OF fin, of w2] by blast
    then show ?thesis using True w1 w2 v2 by (simp add: forward_quic_stream_def)
  qed
qed

subsection \<open>Which errors a transaction ends with\<close>

text \<open>Streams that do not fall silent only give protocol errors.\<close>

lemma read_outcome_ends: "e \<noteq> Silent \<Longrightarrow> read_outcome n (data, e) \<noteq> Elapsed"
  by (cases e) auto

lemma read_doq_frame_protocol:
  assumes law: "reader_law read src" and "snd (src w) \<noteq> Silent"
    and err: "read_doq_frame show_err read w = (Inl err, w')"
  shows "\<exists>m. err = Protocol m"
proof -
  obtain data e where src: "src w = (data, e)" by fastforce
  with assms(2) have e: "e \<noteq> Silent" by simp
  obtain w1 where r1: "read 2 w = (read_outcome 2 (data, e), w1)" and s1: "src w1 = (drop 2 data, e)"
    by (rule reader_lawD [OF law src])
  have more: "\<exists>w2. read n w1 = (read_outcome n (drop 2 data, e), w2)" for n
    using reader_lawD [OF law s1, of n] by blast
  show ?thesis
  proof (cases "read_outcome 2 (data, e)")
    case Elapsed
    then show ?thesis using read_outcome_ends [OF e] by blast
  next
    case (Done x)
    show ?thesis
    proof (cases x)
      case (Inl y)
      then show ?thesis using err r1 Done by (auto simp: read_doq_frame_def split: if_splits)
    next
      case (Inr b)
      let ?n = "unat (u16_from_be_bytes b)"
      obtain w2 where r2: "read ?n w1 = (read_outcome ?n (drop 2 data, e), w2)" using more by blast
      then show ?thesis
        using err r1 Done Inr read_outcome_ends [OF e, of ?n "drop 2 data"]
        by (auto simp: read_doq_frame_def Let_def bind_io_def timed_io_def return_io_def
            split: if_splits timed.splits sum.splits)
    qed
  qed
qed

lemma read_doq_frame_src_end:
  assumes law: "reader_law read src" and "read_doq_frame show_err read w = (Inr (Some m), w')"
  shows "snd (src w') = snd (src w)"
  using read_doq_frame_SomeD(1) [OF assms] by simp

lemma read_doq_query_protocol:
  assumes law: "reader_law read src" and e: "snd (src w) \<noteq> Silent"
    and err: "read_doq_query show_err read w = (Inl err, w')"
  shows "\<exists>m. err = Protocol m"
proof -
  obtain a w1 where rd: "read_doq_frame show_err read w = (a, w1)" by fastforce
  show ?thesis
  proof (cases a)
    case (Inl d)
    then show ?thesis
      using err rd read_doq_frame_protocol [OF law e] by (auto simp: read_doq_query_def bind_io_def)
  next
    case (Inr x)
    show ?thesis
    proof (cases x)
      case None
      then show ?thesis using err rd Inr by (auto simp: read_doq_query_def bind_io_def fail_io_def)
    next
      case (Some q)
      have e1: "snd (src w1) \<noteq> Silent"
        using read_doq_frame_src_end [OF law, of show_err w q w1] rd Inr Some e by simp
      obtain b w2 where rd2: "read_doq_frame show_err read w1 = (b, w2)" by fastforce
      show ?thesis
        using err rd rd2 Inr Some read_doq_frame_protocol [OF law e1, of show_err]
        by (cases b) (auto simp: read_doq_query_def bind_io_def fail_io_def return_io_def split: if_splits)
    qed
  qed
qed

lemma relay_responses_protocol:
  assumes law: "relay_law io src sink"
  shows "src w = (data, e) \<Longrightarrow> e \<noteq> Silent \<Longrightarrow> relay_responses io sent w = Some (Inl err, w')
    \<Longrightarrow> \<exists>m. err = Protocol m"
proof (induction "length data" arbitrary: data w sent rule: less_induct)
  case less
  have rl: "reader_law (io_read_upstream io) src" and wl: "writer_law (io_write_client io) sink"
    and kw: "keeps (io_write_client io) src"
    using law by (simp_all add: relay_law_def)
  obtain a w1 where rd: "read_doq_frame (io_show_read_error io) (io_read_upstream io) w = (a, w1)" by fastforce
  have e: "snd (src w) \<noteq> Silent" using less.prems by simp
  show ?case
  proof (cases a)
    case (Inl d)
    then have "err = d" using less.prems(3) rd by (subst (asm) relay_responses.simps) simp
    then show ?thesis using read_doq_frame_protocol [OF rl e] rd Inl by blast
  next
    case (Inr x)
    show ?thesis
    proof (cases x)
      case None
      then show ?thesis using less.prems(3) rd Inr by (subst (asm) relay_responses.simps) simp
    next
      case (Some m)
      have wire: "src w = (doq_frame m @ fst (src w1), snd (src w1))" and len: "length m < 2 ^ 16"
        using read_doq_frame_SomeD [OF rl] rd Inr Some by auto
      show ?thesis
      proof (cases "length m < 12 \<or> take 2 m \<noteq> [0, 0]")
        case True
        then show ?thesis
          using less.prems(3) rd Inr Some by (subst (asm) relay_responses.simps) auto
      next
        case False
        obtain w2 where wr: "write_doq_frame (io_write_client io) m w1 = (Inr (), w2)"
          using write_doq_frame_law [OF wl len, of w1] by blast
        have s2: "src w2 = src w1" using write_doq_frame_keeps [OF kw, of m w1] wr by simp
        have "relay_responses io (sent + of_nat (length m + 2)) w2 = Some (Inl err, w')"
          using less.prems(3) rd Inr Some False wr by (subst (asm) relay_responses.simps) auto
        moreover have "length (fst (src w1)) < length data"
          using wire less.prems(1) by simp
        moreover have "src w2 = (fst (src w1), e)" using s2 wire less.prems(1) by simp
        ultimately show ?thesis using less.hyps less.prems(2) by blast
      qed
    qed
  qed
qed

lemma doq_transaction_protocol:
  assumes law: "doq_law io server_name port client_src up_src client_sink up_sink"
    and ends: "snd (client_src w) \<noteq> Silent" "snd (up_src w) \<noteq> Silent"
    and err: "forward_quic_stream io server_name port w = Some (Inl err, w')"
  shows "\<exists>m. err = Protocol m"
proof -
  have rl: "reader_law (io_read_client io) client_src" and relay: "relay_law io up_src client_sink"
    and fin: "finishes (io_finish_client io) (\<lambda>w. (up_src w, client_sink w, up_sink w))"
    using law by (simp_all add: doq_law_def Let_def)
  show ?thesis
  proof (cases "\<exists>q. doq_query_ok q \<and> client_src w = (doq_frame q, AtFin)")
    case False
    then have none: "\<not> (\<exists>w'. read_doq_query (io_show_read_error io) (io_read_client io) w = (Inr q, w'))" for q
      using read_doq_query_accepts [OF rl] by blast
    obtain r w1 where rd: "read_doq_query (io_show_read_error io) (io_read_client io) w = (r, w1)" by fastforce
    then obtain d where d: "r = Inl d" using none by (cases r) auto
    then have "err = d" using err rd by (simp add: forward_quic_stream_def send_query_def)
    then show ?thesis using read_doq_query_protocol [OF rl ends(1)] rd d by blast
  next
    case True
    then obtain q w1 where w1: "send_query io server_name port w = (Inr q, w1)" "up_src w1 = up_src w"
      using send_query_sends [OF law] by blast
    have src: "up_src w1 = (fst (up_src w), snd (up_src w))" by (simp add: w1(2))
    have "\<exists>w2. relay_responses io 0 w1 = Some (Inl err, w2)"
    proof (cases "relay_responses io 0 w1")
      case None
      then show ?thesis using err w1(1) by (simp add: forward_quic_stream_def)
    next
      case (Some y)
      obtain r w2 where y: "y = (r, w2)" by fastforce
      obtain w3 where "io_finish_client io w2 = (Inr (), w3)" using finishesD [OF fin, of w2] by blast
      then show ?thesis
        using err w1(1) Some y by (cases r) (simp_all add: forward_quic_stream_def)
    qed
    then show ?thesis using relay_responses_protocol [OF relay src ends(2)] by blast
  qed
qed

end
