(* ===== verification/Props_Upstream.thy ===== *)
theory Props_Upstream
  imports Pool_Refinement Http_Pool Doq_Correct
begin

section \<open>Properties of the upstream side\<close>

text \<open>
  The promises of the session pools, of the pool of HTTP clients and of a DoQ transaction,
  stated over the definitions that model the code, each with a concrete instance where it has
  hypotheses.
\<close>

subsection \<open>Session pools\<close>

text \<open>
  C1 Capacity under any interleaving: in every state that concurrent \<open>get\<close> calls,
  cancellations, returned leases, invalidations and closing connections can reach from an
  empty pool of \<open>m\<close> permits, the free permits and the distinct slots in use add up to \<open>m\<close>, and
  the cached sessions together with the calls that hold a permit are at most \<open>m\<close>.
\<close>

theorem pool_capacity:
  assumes "reachable (pool_init m) pool_step s"
  shows "permits (ps_pool s) + card (set_mset (owner_slots s + lease_slots s)) = m
    \<and> length (entries (ps_pool s)) + size (filter_mset owns_permit (ps_calls s)) \<le> m"
  using pool_sys_capacity [OF pool_sys.reachable_inv [OF assms]] by blast

text \<open>One call that missed and took the only permit, and later published its session.\<close>

definition sample_key :: h3_key where
  "sample_key = (''a.example.cn'', 443)"

definition one_call_pool :: "h3_key pool_sys" where
  "one_call_pool =
     \<lparr>ps_pool = \<lparr>entries = [], permits = 0, slot_refs = (\<lambda>_. 0)(0 := 1), next_slot = 1\<rparr>,
      ps_calls = {#HasSlot sample_key 0#}, ps_leases = {#}, ps_closed = {}, ps_next_conn = 0\<rparr>"

definition one_session_pool :: "h3_key pool_sys" where
  "one_session_pool =
     \<lparr>ps_pool = \<lparr>entries = [(sample_key, \<lparr>cl_lease = \<lparr>lease_conn = 0, lease_slot = 0\<rparr>, cl_last_used = 7\<rparr>)],
        permits = 0, slot_refs = (\<lambda>_. 0)(0 := 2), next_slot = 1\<rparr>,
      ps_calls = {#}, ps_leases = {#\<lparr>lease_conn = 0, lease_slot = 0\<rparr>#}, ps_closed = {},
      ps_next_conn = 1\<rparr>"

definition idle_session_pool :: "h3_key pool_sys" where
  "idle_session_pool =
     one_session_pool\<lparr>ps_pool := (ps_pool one_session_pool)\<lparr>slot_refs := (\<lambda>_. 0)(0 := 1)\<rparr>, ps_leases := {#}\<rparr>"

definition empty_pool_sys :: "h3_key pool_sys" where
  "empty_pool_sys =
     \<lparr>ps_pool = pool_with_max 1, ps_calls = {#}, ps_leases = {#}, ps_closed = {}, ps_next_conn = 0\<rparr>"

lemma empty_pool_sys_reachable: "reachable (pool_init 1) pool_step empty_pool_sys"
  by (rule reachable_init) (simp add: pool_init_def empty_pool_sys_def)

lemma one_call_pool_reachable: "reachable (pool_init 1) pool_step one_call_pool"
proof -
  let ?s1 = "empty_pool_sys\<lparr>ps_calls := {#NeedSlot sample_key#}\<rparr>"
  note empty_pool_sys_reachable
  moreover have "pool_step empty_pool_sys ?s1"
    using get_miss [of empty_pool_sys 0 sample_key "ps_pool empty_pool_sys"]
    by (simp add: first_check_def cached_hit_def remove_entry_def pool_with_max_def empty_pool_sys_def)
  moreover have "pool_step ?s1 one_call_pool"
    using acquire [of ?s1 sample_key "{#}" 0 "ps_pool one_call_pool"]
    by (simp add: one_call_pool_def try_acquire_def pool_with_max_def empty_pool_sys_def)
  ultimately show ?thesis by (blast intro: reachable_step)
qed

theorem pool_capacity_witness:
  "permits (ps_pool one_call_pool) + card (set_mset (owner_slots one_call_pool + lease_slots one_call_pool)) = 1
    \<and> length (entries (ps_pool one_call_pool)) + size (filter_mset owns_permit (ps_calls one_call_pool)) \<le> 1"
  by (rule pool_capacity [OF one_call_pool_reachable])

text \<open>What \<open>get\<close> on the empty pool does when the connection succeeds.\<close>

lemma sample_pool_get:
  "h3_pool_get (open_in empty_pool_sys) 7 (Connected 0) None ''a.example.cn'' 443 (ps_pool empty_pool_sys)
     = (Inr \<lparr>lease_conn = 0, lease_slot = 0\<rparr>, ps_pool one_session_pool)"
  by (simp add: h3_pool_get_def h3_acquire_slot_def h3_dial_def pool_get_def
      acquire_slot_def first_check_def cached_hit_def remove_entry_def try_acquire_def publish_def
      insert_entry_def clone_slot_def pool_with_max_def empty_pool_sys_def one_session_pool_def
      sample_key_def Let_def numeral_2_eq_2)

text \<open>
  C15 A call of the HTTP/3 pool's \<open>get\<close> that is not interfered with is a run of the shared
  pool's step relation: the pool it leaves, with the lease it returns held by the caller, is a
  state the interleaved system reaches from the one it started in. The error paths (overload,
  name resolution, connection, session setup) and both cache hits are included.
\<close>

theorem h3_get_refines_steps:
  assumes "h3_pool_get (open_in s) now dial setup hostname port (ps_pool s) = (r, p')"
    and "\<And>c. dial = Connected c \<Longrightarrow> c = ps_next_conn s"
  shows "\<exists>n. pool_step\<^sup>*\<^sup>* s (s\<lparr>ps_pool := p', ps_leases := leased (ps_leases s) r, ps_next_conn := n\<rparr>)"
proof (rule pool_get_steps)
  show "pool_get (acquire_slot (overloaded_error hostname port ''HTTP/3'') (open_in s))
      (h3_dial hostname port dial setup) (open_in s) now (hostname, port) (ps_pool s) = (r, p')"
    using assms(1) by (simp add: h3_pool_get_def h3_acquire_slot_def)
  show "h3_dial hostname port dial setup = Inr c \<Longrightarrow> c = ps_next_conn s" for c
    using assms(2) by (cases dial) (auto simp: h3_dial_def split: option.splits)
qed

theorem h3_get_refines_steps_witness:
  "\<exists>n. pool_step\<^sup>*\<^sup>* empty_pool_sys (empty_pool_sys\<lparr>ps_pool := ps_pool one_session_pool,
     ps_leases := leased (ps_leases empty_pool_sys) (Inr \<lparr>lease_conn = 0, lease_slot = 0\<rparr>), ps_next_conn := n\<rparr>)"
  by (rule h3_get_refines_steps [OF sample_pool_get]) (simp add: empty_pool_sys_def)

text \<open>
  C27 No permit is lost: when no call is in progress and no lease is held, the free permits are
  the bound less the cached sessions, whatever was cancelled, refused or invalidated before.
\<close>

theorem pool_no_leak:
  assumes "reachable (pool_init m) pool_step s" and "ps_calls s = {#}" and "ps_leases s = {#}"
  shows "permits (ps_pool s) + length (entries (ps_pool s)) = m"
  by (rule pool_sys_quiescent [OF pool_sys.reachable_inv [OF assms(1)] assms(2,3)])

theorem pool_no_leak_witness: "permits (ps_pool empty_pool_sys) + length (entries (ps_pool empty_pool_sys)) = 1"
  by (rule pool_no_leak [OF empty_pool_sys_reachable]) (simp_all add: empty_pool_sys_def)

text \<open>
  C25 When a call is refused: in every reachable state, \<open>acquire_slot\<close> answers the overload error
  exactly when no permit is free and every cached session is in use, also when dead sessions
  are swept or an idle one is evicted first.
\<close>

theorem pool_refuses_iff:
  assumes "reachable (pool_init m) pool_step s"
  shows "fst (h3_acquire_slot alive hostname port (ps_pool s)) = Inl (overloaded_error hostname port ''HTTP/3'')
    \<longleftrightarrow> permits (ps_pool s) = 0 \<and> (\<forall>x \<in> set (entries (ps_pool s)). \<not> is_idle (ps_pool s) (cl_lease (snd x)))"
  unfolding h3_acquire_slot_def
  by (rule acquire_slot_refuses_iff [OF pool_ok_in_system [OF pool_sys.reachable_inv [OF assms]]])

theorem pool_refuses_iff_witness:
  "fst (h3_acquire_slot (\<lambda>_. True) ''b.example.cn'' 443 (ps_pool one_call_pool))
     = Inl (overloaded_error ''b.example.cn'' 443 ''HTTP/3'')"
  using pool_refuses_iff [OF one_call_pool_reachable, of "\<lambda>_. True" "''b.example.cn''" 443]
  by (simp add: one_call_pool_def)

text \<open>
  C26 Which session gives way: the entry \<open>acquire_slot\<close> evicts is, among the live sessions that
  nobody uses, the least recently used one; only that entry leaves with the dead ones, and a
  live session in use stays in the cache.
\<close>

theorem evicts_lru_idle_session:
  assumes "reachable (pool_init m) pool_step s" and "evict_section alive (ps_pool s) = (Some sl, p')"
  shows "(let q = retain_alive alive (ps_pool s) in
     \<exists>k e. map_of (entries q) k = Some e \<and> lease_slot (cl_lease e) = sl \<and> alive (lease_conn (cl_lease e))
       \<and> is_idle q (cl_lease e) \<and> entries p' = AList.delete k (entries q)
       \<and> (\<forall>x \<in> set (entries q). is_idle q (cl_lease (snd x)) \<longrightarrow> cl_last_used e \<le> cl_last_used (snd x)))
     \<and> (\<forall>k e. map_of (entries (ps_pool s)) k = Some e \<and> alive (lease_conn (cl_lease e))
          \<and> \<not> is_idle (ps_pool s) (cl_lease e) \<longrightarrow> map_of (entries p') k = Some e)"
proof (rule conjI)
  let ?q = "retain_alive alive (ps_pool s)"
  have ok: "pool_ok m (calls_slots (ps_calls s) + lease_slots s) (ps_pool s)"
    by (rule pool_ok_in_system [OF pool_sys.reachable_inv [OF assms(1)]])
  then have "keys_distinct ?q"
    by (simp add: pool_ok_def keys_distinct_def retain_alive_entries distinct_map_filter)
  from evict_lru_victim [OF assms(2) [unfolded evict_section_def] this] obtain k e where
    ke: "map_of (entries ?q) k = Some e" "lease_slot (cl_lease e) = sl" "is_idle ?q (cl_lease e)"
      "entries p' = AList.delete k (entries ?q)"
      "\<forall>x \<in> set (entries ?q). is_idle ?q (cl_lease (snd x)) \<longrightarrow> cl_last_used e \<le> cl_last_used (snd x)"
    by blast
  moreover have "alive (lease_conn (cl_lease e))"
    using map_of_SomeD [OF ke(1)] by (simp add: retain_alive_entries entry_alive_def)
  ultimately show "let q = ?q in \<exists>k e. map_of (entries q) k = Some e \<and> lease_slot (cl_lease e) = sl
       \<and> alive (lease_conn (cl_lease e)) \<and> is_idle q (cl_lease e) \<and> entries p' = AList.delete k (entries q)
       \<and> (\<forall>x \<in> set (entries q). is_idle q (cl_lease (snd x)) \<longrightarrow> cl_last_used e \<le> cl_last_used (snd x))"
    unfolding Let_def by blast
  show "\<forall>k e. map_of (entries (ps_pool s)) k = Some e \<and> alive (lease_conn (cl_lease e))
      \<and> \<not> is_idle (ps_pool s) (cl_lease e) \<longrightarrow> map_of (entries p') k = Some e"
    using evict_section_keeps_borrowed [OF ok _ _ _ assms(2)] by blast
qed

lemma sample_session_pool_reachable:
  "\<exists>n. reachable (pool_init 1) pool_step (one_session_pool\<lparr>ps_next_conn := n\<rparr>)"
proof -
  let ?f = "\<lambda>c. c = 0"
  have "pool_get (acquire_slot (overloaded_error ''a.example.cn'' 443 ''HTTP/3'') (open_in empty_pool_sys))
      (h3_dial ''a.example.cn'' 443 (Connected 0) None) (open_in empty_pool_sys) 7 (''a.example.cn'', 443)
      (ps_pool empty_pool_sys) = (Inr \<lparr>lease_conn = 0, lease_slot = 0\<rparr>, ps_pool one_session_pool)"
    using sample_pool_get by (simp add: h3_pool_get_def h3_acquire_slot_def)
  from pool_get_steps [OF this] obtain n where
    "pool_step\<^sup>*\<^sup>* empty_pool_sys (empty_pool_sys\<lparr>ps_pool := ps_pool one_session_pool,
       ps_leases := {#\<lparr>lease_conn = 0, lease_slot = 0\<rparr>#}, ps_next_conn := n\<rparr>)"
    by (auto simp: leased_def h3_dial_def empty_pool_sys_def)
  from reachable_steps [OF this empty_pool_sys_reachable] show ?thesis
    by (auto simp: one_session_pool_def empty_pool_sys_def)
qed

lemma idle_session_pool_reachable:
  "\<exists>n. reachable (pool_init 1) pool_step (idle_session_pool\<lparr>ps_next_conn := n\<rparr>)"
proof -
  obtain n where "reachable (pool_init 1) pool_step (one_session_pool\<lparr>ps_next_conn := n\<rparr>)"
    using sample_session_pool_reachable by blast
  moreover have "pool_step (one_session_pool\<lparr>ps_next_conn := n\<rparr>) (idle_session_pool\<lparr>ps_next_conn := n\<rparr>)"
    using return_lease [of "one_session_pool\<lparr>ps_next_conn := n\<rparr>" "\<lparr>lease_conn = 0, lease_slot = 0\<rparr>" "{#}"]
    by (simp add: one_session_pool_def idle_session_pool_def drop_slot_def)
  ultimately show ?thesis by (blast intro: reachable_step)
qed

theorem evicts_lru_idle_session_witness:
  "\<exists>p'. evict_section (\<lambda>_. True) (ps_pool idle_session_pool) = (Some 0, p') \<and> entries p' = []"
proof -
  obtain n where r: "reachable (pool_init 1) pool_step (idle_session_pool\<lparr>ps_next_conn := n\<rparr>)"
    using idle_session_pool_reachable by blast
  obtain p' where p': "evict_section (\<lambda>_. True) (ps_pool idle_session_pool) = (Some 0, p')"
    by (simp add: evict_section_def retain_alive_def entry_alive_def evict_lru_def is_idle_def
        idle_session_pool_def one_session_pool_def)
  have e: "entries (retain_alive (\<lambda>_. True) (ps_pool idle_session_pool))
      = [(sample_key, \<lparr>cl_lease = \<lparr>lease_conn = 0, lease_slot = 0\<rparr>, cl_last_used = 7\<rparr>)]"
    by (simp add: retain_alive_def entry_alive_def idle_session_pool_def one_session_pool_def)
  have "entries p' = []"
    using evicts_lru_idle_session [OF r, of "\<lambda>_. True" 0 p'] p' by (auto simp: Let_def e split: if_splits)
  with p' show ?thesis by blast
qed

text \<open>
  A lease keeps its permit: while a request still uses a session, its slot is referenced and
  at least one permit stays taken, even if the cache entry was invalidated or evicted meanwhile.
\<close>

lemma lease_keeps_permit:
  assumes "reachable (pool_init m) pool_step s" and "l \<in># ps_leases s"
  shows "0 < slot_refs (ps_pool s) (lease_slot l) \<and> permits (ps_pool s) < m"
  using pool_sys_lease_reserved [OF pool_sys.reachable_inv [OF assms(1)] assms(2)] by blast

subsection \<open>The pool of HTTP clients\<close>

text \<open>
  With one caller at a time the pool of HTTP clients keeps its bound: after any number of
  calls, each of which may stop between two accesses of the map, there is at most one client per
  name and at most \<open>max_clients\<close> clients (one if the bound is zero).
\<close>

lemma http_pool_bound_one_caller:
  assumes "http_pool_ok pool" and "reachable (http_init pool) (http_step 1 iter_guard) s"
  shows "distinct (map fst (hp_clients (hs_pool s)))
    \<and> length (hp_clients (hs_pool s)) \<le> max 1 (hp_max_clients pool)"
  using http_alone.reachable_inv [OF assms(2)] assms(1) by (auto simp: http_sys_inv_def http_pool_ok_def)

definition sample_http_pool :: "nat connection_pool" where
  "sample_http_pool = with_max_clients_and_root_store [] 1 []"



text \<open>
  C29 When \<open>get_client\<close> returns: it does for a name the pool holds and as long as there is room;
  when the pool is full, a call for another name returns only if the map lets a key be removed
  under a live iterator. A call that returns hands out the client the pool then holds for the
  name, and keeps an accounted pool accounted.
\<close>

theorem get_client_returns:
  "((\<exists>c pool'. get_client iter_guard ident sni pool = Some (c, pool')) \<longleftrightarrow>
      sni \<in> fst ` set (hp_clients pool) \<or> length (hp_clients pool) < hp_max_clients pool
      \<or> hp_clients pool = [] \<or> \<not> iter_guard)
   \<and> (\<forall>c pool'. get_client iter_guard ident sni pool = Some (c, pool') \<longrightarrow>
        map_of (hp_clients pool') sni = Some c \<and> (http_pool_ok pool \<longrightarrow> http_pool_ok pool'))"
  using get_client_returns_iff [of iter_guard ident sni pool] get_client_cached get_client_ok by blast

theorem get_client_returns_witness:
  "\<exists>c pool'. get_client True 0 ''a.example.cn'' sample_http_pool = Some (c, pool')
     \<and> map_of (hp_clients pool') ''a.example.cn'' = Some c"
proof -
  have "hp_clients sample_http_pool = []"
    by (simp add: sample_http_pool_def with_max_clients_and_root_store_def connection_pool_new_def with_config_def)
  then show ?thesis
    using get_client_returns [of True 0 "''a.example.cn''" sample_http_pool] by blast
qed

subsection \<open>DNS over QUIC\<close>

text \<open>A scripted environment: two sources that hold what will be read, two sinks.\<close>

record script =
  sc_client :: source
  sc_upstream :: source
  sc_to_client :: bytes
  sc_to_upstream :: bytes

definition script_io :: "script doq_io" where
  "script_io = \<lparr>
     io_show_read_error = (\<lambda>_. ''read''),
     io_read_client = (\<lambda>n w. (read_outcome n (sc_client w), w\<lparr>sc_client := read_rest n (sc_client w)\<rparr>)),
     io_write_client = (\<lambda>b w. (Done (Inr ()), w\<lparr>sc_to_client := sc_to_client w @ b\<rparr>)),
     io_finish_client = (\<lambda>w. (Inr (), w)),
     io_pool_get = (\<lambda>_ _ _ w. (Done (Inr ()), w)),
     io_open_bi = (\<lambda>w. (Done (Inr ()), w)),
     io_invalidate = (\<lambda>_ _ _ w. w),
     io_read_upstream = (\<lambda>n w. (read_outcome n (sc_upstream w), w\<lparr>sc_upstream := read_rest n (sc_upstream w)\<rparr>)),
     io_write_upstream = (\<lambda>b w. (Done (Inr ()), w\<lparr>sc_to_upstream := sc_to_upstream w @ b\<rparr>)),
     io_finish_upstream = (\<lambda>w. (Inr (), w))\<rparr>"

lemma script_law: "doq_law script_io server_name port sc_client sc_upstream sc_to_client sc_to_upstream"
  by (simp add: doq_law_def relay_law_def reader_law_def writer_law_def keeps_def succeeds_def
      finishes_def script_io_def Let_def)

definition sample_query :: bytes where
  "sample_query = [0, 0, 1, 0, 0, 1, 0, 0, 0, 0, 0, 0, 0, 0, 2, 0, 1]"

definition sample_reply :: bytes where
  "sample_reply = [0, 0, 129, 128, 0, 1, 0, 0, 0, 0, 0, 0]"

text \<open>
  C2 A DoQ transaction over streams that may hold anything and end in any way: if the client's
  stream is one framed query and FIN, the query is sent upstream unchanged, exactly the complete
  response frames with a header and identifier zero are relayed, in order, and the transaction
  succeeds, reporting the bytes of both directions, exactly when the upstream stream is nothing
  but such frames and FIN. Any other client stream is refused, with nothing sent either way.
\<close>

theorem doq_transaction_result:
  assumes law: "doq_law io server_name port client_src up_src client_sink up_sink"
    and up: "up_src w = (data, e)" and sp: "split_responses data = (rs, rest)"
  shows "(\<forall>q. doq_query_ok q \<and> client_src w = (doq_frame q, AtFin) \<longrightarrow>
       (\<exists>r w'. forward_quic_stream io server_name port w = Some (r, w')
          \<and> up_sink w' = up_sink w @ doq_frame q
          \<and> client_sink w' = client_sink w @ concat (map doq_frame rs)
          \<and> (if rest = [] \<and> e = AtFin
             then r = Inr (of_nat (length (doq_frame q)), of_nat (length (concat (map doq_frame rs))))
             else \<exists>err. r = Inl err)))
    \<and> ((\<nexists>q. doq_query_ok q \<and> client_src w = (doq_frame q, AtFin)) \<longrightarrow>
       (\<exists>err w'. forward_quic_stream io server_name port w = Some (Inl err, w')
          \<and> up_sink w' = up_sink w \<and> client_sink w' = client_sink w))"
proof (intro conjI allI impI)
  fix q
  assume "doq_query_ok q \<and> client_src w = (doq_frame q, AtFin)"
  then show "\<exists>r w'. forward_quic_stream io server_name port w = Some (r, w')
          \<and> up_sink w' = up_sink w @ doq_frame q
          \<and> client_sink w' = client_sink w @ concat (map doq_frame rs)
          \<and> (if rest = [] \<and> e = AtFin
             then r = Inr (of_nat (length (doq_frame q)), of_nat (length (concat (map doq_frame rs))))
             else \<exists>err. r = Inl err)"
    using doq_transaction [OF law up sp] by blast
next
  assume "\<nexists>q. doq_query_ok q \<and> client_src w = (doq_frame q, AtFin)"
  from send_query_rejects [OF law this] show "\<exists>err w'. forward_quic_stream io server_name port w = Some (Inl err, w')
      \<and> up_sink w' = up_sink w \<and> client_sink w' = client_sink w"
    by (auto simp: forward_quic_stream_def)
qed

definition sample_script :: script where
  "sample_script =
     \<lparr>sc_client = (doq_frame sample_query, AtFin),
      sc_upstream = (doq_frame sample_reply @ doq_frame sample_reply @ [0, 12, 9], AtReset ''gone''),
      sc_to_client = [], sc_to_upstream = []\<rparr>"

lemma sample_split:
  "split_responses (fst (sc_upstream sample_script)) = ([sample_reply, sample_reply], [0, 12, 9])"
proof -
  have stop: "split_responses [0, 12, 9] = ([], [0, 12, 9])"
    by (rule split_responses_stop) (simp add: response_starts_def u16_from_be_bytes_def)
  have step: "split_responses (doq_frame sample_reply @ data) = (sample_reply # rs, rest)"
    if "split_responses data = (rs, rest)" for data rs rest
  proof -
    have n: "unat (u16_from_be_bytes (doq_frame sample_reply @ data)) = length sample_reply"
      by (rule doq_frame_length) (simp add: sample_reply_def)
    have id: "take 2 sample_reply = [0, 0]" and len: "length sample_reply = 12"
      by (simp_all add: sample_reply_def)
    have starts: "response_starts (doq_frame sample_reply @ data)"
      unfolding response_starts_def n by (simp add: id len)
    have "drop (length sample_reply + 2) (doq_frame sample_reply @ data) = data"
      by (simp add: doq_frame_def)
    then show ?thesis
      using split_responses_step [OF starts n [symmetric], of rs rest] that by simp
  qed
  show ?thesis
    using step [OF step [OF stop]] by (simp add: sample_script_def)
qed

text \<open>The upstream breaks off inside its third frame: two frames are relayed, the transaction fails.\<close>

theorem doq_transaction_result_witness:
  "\<exists>err w'. forward_quic_stream script_io ''a.example.cn'' 853 sample_script = Some (Inl err, w')
     \<and> sc_to_upstream w' = doq_frame sample_query
     \<and> sc_to_client w' = doq_frame sample_reply @ doq_frame sample_reply"
proof -
  let ?data = "doq_frame sample_reply @ doq_frame sample_reply @ [0, 12, 9]"
  have up: "sc_upstream sample_script = (?data, AtReset ''gone'')"
    by (simp add: sample_script_def)
  have sp: "split_responses ?data = ([sample_reply, sample_reply], [0, 12, 9])"
    using sample_split up by simp
  have "doq_query_ok sample_query" by (simp add: doq_query_ok_def sample_query_def)
  moreover have "sc_client sample_script = (doq_frame sample_query, AtFin)"
    and "sc_to_client sample_script = []" and "sc_to_upstream sample_script = []"
    by (simp_all add: sample_script_def)
  ultimately show ?thesis
    using doq_transaction_result [OF script_law up sp, of "''a.example.cn''" 853] by auto
qed

text \<open>
  Which queries are accepted: \<open>read_doq_query\<close> returns a query exactly when the stream holds
  nothing but its frame and FIN and the query is a DNS message of at least a header with
  identifier zero; empty and oversize frames, trailing bytes, a second frame, a reset and
  silence are all refused.
\<close>

lemma doq_query_accepted_iff:
  assumes "reader_law read src"
  shows "(\<exists>w'. read_doq_query show_err read w = (Inr q, w')) \<longleftrightarrow>
     12 \<le> length q \<and> length q < 2 ^ 16 \<and> take 2 q = [0, 0] \<and> src w = (doq_frame q, AtFin)"
  using read_doq_query_accepts [OF assms, of show_err w q] by (simp add: doq_query_ok_def)

text \<open>
  C32 What one side writes the other reads: a message of 1 to 65535 bytes that \<open>write_doq_frame\<close>
  puts on a stream is what \<open>read_doq_frame\<close> returns at the other end, leaving what follows it.
\<close>

theorem doq_frame_roundtrip:
  assumes "writer_law write sink" and "reader_law read src"
    and "message \<noteq> []" and "length message < 2 ^ 16"
  shows "\<exists>wire w'. write_doq_frame write message w = (Inr (), w') \<and> sink w' = sink w @ wire
     \<and> (\<forall>v rest e. src v = (wire @ rest, e) \<longrightarrow>
          (\<exists>v'. read_doq_frame show_err read v = (Inr (Some message), v') \<and> src v' = (rest, e)))"
  using write_doq_frame_law [OF assms(1,4), of w] read_doq_frame_doq_frame [OF assms(2) _ assms(3,4)] by blast

theorem doq_frame_roundtrip_witness:
  "\<exists>wire w'. write_doq_frame (io_write_upstream script_io) sample_query sample_script = (Inr (), w')
     \<and> sc_to_upstream w' = sc_to_upstream sample_script @ wire
     \<and> (\<forall>v rest e. sc_client v = (wire @ rest, e) \<longrightarrow>
          (\<exists>v'. read_doq_frame (\<lambda>_. ''read'') (io_read_client script_io) v = (Inr (Some sample_query), v')
             \<and> sc_client v' = (rest, e)))"
  by (rule doq_frame_roundtrip)
     (simp_all add: writer_law_def reader_law_def script_io_def sample_query_def)

end
