(* ===== verification/Doh_Common.thy ===== *)
theory Doh_Common
  imports Rewriter Metrics Streams "HOL-Library.AList"
begin

section \<open>What DoH and DoH3 share (\<open>src/proxy/http.rs\<close>, \<open>src/utils.rs\<close>)\<close>

text \<open>
  HTTP requests and responses as far as the proxy reads and writes them, the checks of
  a DNS message, its media type and the \<open>dns\<close> query parameter, the canonical host name of
  a request, and the bounded collection of a body. The parts of \<open>hyper\<close>, \<open>http\<close> and
  \<open>base64\<close> they call are the parameter \<open>http_lib\<close>; header names are lower case, as
  \<open>HeaderName\<close> keeps them, and a \<open>HeaderMap\<close> lists its entries in iteration order.
\<close>

datatype http_method = GET | POST | OtherMethod string

fun show_method :: "http_method \<Rightarrow> string" where
  "show_method GET = ''GET''"
| "show_method POST = ''POST''"
| "show_method (OtherMethod m) = m"

type_synonym headers = "(string \<times> string) list"

record http_request =
  req_method :: http_method
  req_path :: string
  req_query :: "string option"
  req_authority :: "string option"
  req_uri :: string
  req_headers :: headers

record http_response =
  resp_status :: nat
  resp_headers :: headers
  resp_body :: bytes

record http_lib =
  hl_to_str :: "string \<Rightarrow> string option"          \<comment> \<open>\<open>HeaderValue::to_str\<close>\<close>
  hl_authority_host :: "string \<Rightarrow> string option"  \<comment> \<open>the host of a parsed \<open>Authority\<close>\<close>
  hl_decode_base64url :: "string \<Rightarrow> bytes option" \<comment> \<open>\<open>URL_SAFE_NO_PAD.decode\<close>\<close>
  hl_header_value :: "string \<Rightarrow> string + string"  \<comment> \<open>\<open>str::parse::<HeaderValue>\<close>\<close>
  hl_uri_ok :: "string \<Rightarrow> string option"          \<comment> \<open>why a string is no URI, if it is not\<close>

definition is_success :: "nat \<Rightarrow> bool" where
  "is_success status \<longleftrightarrow> 200 \<le> status \<and> status < 300"

definition bytes_of :: "string \<Rightarrow> bytes" where
  "bytes_of s = map of_char s"

definition max_dns_message_size :: nat where
  "max_dns_message_size = 65535"

subsection \<open>Checks\<close>

definition normalize_hostname :: "http_lib \<Rightarrow> string \<Rightarrow> string option" where
  "normalize_hostname lib authority =
     (case hl_authority_host lib authority of
        None \<Rightarrow> None
      | Some h \<Rightarrow>
         (let host = to_ascii_lowercase (trim_end_char CHR ''.'' h)
          in if host \<noteq> [] \<and> list_all (\<lambda>b. ascii_alphanumeric b \<or> b = CHR ''.'' \<or> b = CHR ''-'') host
             then Some host else None))"

definition validate_dns_message :: "bytes \<Rightarrow> string \<Rightarrow> anyhow_error + unit" where
  "validate_dns_message message ctxt =
     ensure (12 \<le> length message \<and> length message \<le> max_dns_message_size)
       (ctxt @ '' must contain one DNS message between 12 and 65535 bytes'')"

definition ascii_whitespace :: "char \<Rightarrow> bool" where
  "ascii_whitespace c \<longleftrightarrow> (9 \<le> (of_char c :: nat) \<and> (of_char c :: nat) \<le> 13) \<or> c = CHR '' ''"

text \<open>\<open>str::trim\<close> on the visible ASCII that \<open>to_str\<close> yields.\<close>

definition str_trim :: "string \<Rightarrow> string" where
  "str_trim s = rev (dropWhile ascii_whitespace (rev (dropWhile ascii_whitespace s)))"

definition dns_message_media_type :: string where
  "dns_message_media_type = ''application/dns-message''"

definition is_dns_message_content_type :: "string option \<Rightarrow> bool" where
  "is_dns_message_content_type v =
     (case v of
        None \<Rightarrow> False
      | Some s \<Rightarrow> to_ascii_lowercase (str_trim (hd (split_on CHR '';'' s)))
                    = to_ascii_lowercase dns_message_media_type)"

fun split_once :: "char \<Rightarrow> string \<Rightarrow> (string \<times> string) option" where
  "split_once x [] = None"
| "split_once x (c # cs) =
     (if c = x then Some ([], cs)
      else map_option (\<lambda>(a, b). (c # a, b)) (split_once x cs))"

fun find_map :: "('a \<Rightarrow> 'b option) \<Rightarrow> 'a list \<Rightarrow> 'b option" where
  "find_map f [] = None"
| "find_map f (x # xs) = (case f x of Some y \<Rightarrow> Some y | None \<Rightarrow> find_map f xs)"

definition dns_parameter :: "string \<Rightarrow> string option" where
  "dns_parameter query =
     find_map (\<lambda>parameter. case split_once CHR ''='' parameter of
         None \<Rightarrow> None
       | Some (name, v) \<Rightarrow> if name = ''dns'' then Some v else None)
       (split_on CHR ''&'' query)"

definition validate_doh_get_query :: "http_lib \<Rightarrow> string option \<Rightarrow> string \<Rightarrow> anyhow_error + unit" where
  "validate_doh_get_query lib query protocol =
     and_then (ok_or (protocol @ '' GET requests require a non-empty dns query parameter'')
                (case query of None \<Rightarrow> None | Some q \<Rightarrow> dns_parameter q)) (\<lambda>param.
     and_then (ensure (param \<noteq> []) (protocol @ '' dns query parameter must be unpadded base64url'')) (\<lambda>_.
     and_then (ok_or (protocol @ '' dns query parameter must be unpadded base64url'')
                (hl_decode_base64url lib param)) (\<lambda>message.
     validate_dns_message message (protocol @ '' GET dns query parameter''))))"

definition header_str :: "http_lib \<Rightarrow> headers \<Rightarrow> string \<Rightarrow> string option" where
  "header_str lib hs name = (case map_of hs name of None \<Rightarrow> None | Some v \<Rightarrow> hl_to_str lib v)"

text \<open>The \<open>Host\<close> header, or the authority of the request URI.\<close>

definition request_host :: "http_lib \<Rightarrow> http_request \<Rightarrow> string option" where
  "request_host lib req =
     (case header_str lib (req_headers req) ''host'' of
        Some h \<Rightarrow> Some h
      | None \<Rightarrow> req_authority req)"

definition upstream_uri :: "string \<Rightarrow> u16 \<Rightarrow> string \<Rightarrow> string option \<Rightarrow> string" where
  "upstream_uri target port path query =
     ''https://'' @ host_port target port @ path @ (case query of None \<Rightarrow> [] | Some q \<Rightarrow> ''?'' @ q)"

text \<open>
  The headers of the request sent upstream: of the client's only the two that negotiate
  content, a repeated one replacing its predecessor.
\<close>

definition forwarded_headers :: "headers \<Rightarrow> headers" where
  "forwarded_headers hs =
     fold (\<lambda>(k, v) out. if k \<in> set [''accept'', ''content-type''] then AList.update k v out else out) hs []"

subsection \<open>Collecting a body\<close>

datatype body_collection_error =
    Stalled string
  | TooLarge string
  | BodyRead string string

fun show_body_collection_error :: "body_collection_error \<Rightarrow> string" where
  "show_body_collection_error (Stalled op) = op @ '' stalled without progress''"
| "show_body_collection_error (TooLarge op) = op @ '' exceeds the DNS message limit''"
| "show_body_collection_error (BodyRead op reason) = op @ '' could not be read: '' @ reason"

datatype body_frame = DataFrame bytes | TrailersFrame

type_synonym 'w frame_source = "'w \<Rightarrow> (string + body_frame) option timed \<times> 'w"

partial_function (option) collect_body_with_progress ::
    "'w frame_source \<Rightarrow> string \<Rightarrow> bytes \<Rightarrow> 'w \<Rightarrow> ((body_collection_error + bytes) \<times> 'w) option" where
  "collect_body_with_progress next_frame operation collected w =
     (case next_frame w of
        (Elapsed, w1) \<Rightarrow> Some (Inl (Stalled operation), w1)
      | (Done None, w1) \<Rightarrow> Some (Inr collected, w1)
      | (Done (Some (Inl e)), w1) \<Rightarrow> Some (Inl (BodyRead operation e), w1)
      | (Done (Some (Inr (DataFrame data))), w1) \<Rightarrow>
          if max_dns_message_size - length collected < length data
          then Some (Inl (TooLarge operation), w1)
          else collect_body_with_progress next_frame operation (collected @ data) w1
      | (Done (Some (Inr TrailersFrame)), w1) \<Rightarrow>
          collect_body_with_progress next_frame operation collected w1)"

subsection \<open>What the checks decide\<close>

lemma validate_dns_message_iff:
  "validate_dns_message m ctxt = Inr () \<longleftrightarrow> 12 \<le> length m \<and> length m \<le> 65535"
  by (simp add: validate_dns_message_def res_simps max_dns_message_size_def)

lemma find_map_append:
  "find_map f (xs @ ys) = (case find_map f xs of Some y \<Rightarrow> Some y | None \<Rightarrow> find_map f ys)"
  by (induction xs) (auto split: option.splits)

lemma split_once_append: "x \<notin> set a \<Longrightarrow> split_once x (a @ x # b) = Some (a, b)"
  by (induction a) auto

text \<open>A name that passes normalisation is canonical: lower case, no trailing dot, only host name characters.\<close>

lemma normalize_hostname_SomeD:
  assumes "normalize_hostname lib authority = Some host"
  shows "host \<noteq> []" and "list_all dns_char host" and "last host \<noteq> CHR ''.''"
    and "normalize_sni host = host"
proof -
  obtain h where host: "host = to_ascii_lowercase (trim_end_char CHR ''.'' h)" "host \<noteq> []"
      "list_all (\<lambda>b. ascii_alphanumeric b \<or> b = CHR ''.'' \<or> b = CHR ''-'') host"
    using assms by (auto simp: normalize_hostname_def Let_def split: option.splits if_splits)
  show "host \<noteq> []" by (rule host(2))
  have "\<not> ascii_upper c" if "c \<in> set host" for c
    using that host(1) by (auto simp: to_ascii_lowercase_def ascii_simps)
  then show "list_all dns_char host"
    using host(3) by (auto simp: list_all_iff dns_char_def ascii_alphanumeric_def)
  have "trim_end_char CHR ''.'' h \<noteq> []"
    using host(1,2) by (metis trim_end_char_Nil to_ascii_lowercase_eq_Nil)
  then show "last host \<noteq> CHR ''.''"
    using host(1) trim_end_char_not_end [of "CHR ''.''" h]
    by (simp add: to_ascii_lowercase_def last_map ascii_simps)
  have "host = normalize_sni h" using host(1) by (simp add: normalize_sni_def)
  then show "normalize_sni host = host" by (simp add: ascii_simps)
qed

lemma map_of_forwarded_fold:
  "map_of (fold (\<lambda>(k, v) out. if k \<in> K then AList.update k v out else out) hs out) k =
     (if k \<in> K then (case map_of (rev hs) k of Some v \<Rightarrow> Some v | None \<Rightarrow> map_of out k) else map_of out k)"
proof (induction hs arbitrary: out)
  case Nil
  then show ?case by simp
next
  case (Cons x hs)
  then show ?case
    by (cases x) (auto simp: update_conv map_add_def split: option.splits)
qed

lemma map_of_forwarded_headers:
  "map_of (forwarded_headers hs) k =
     (if k \<in> {''accept'', ''content-type''} then map_of (rev hs) k else None)"
  unfolding forwarded_headers_def map_of_forwarded_fold by (auto split: option.splits)

subsection \<open>A body is collected up to the limit\<close>

definition frames_law :: "'w frame_source \<Rightarrow> ('w \<Rightarrow> body_frame list \<times> stream_end) \<Rightarrow> bool" where
  "frames_law next_frame frames \<longleftrightarrow>
     (\<forall>w f fs e. frames w = (f # fs, e) \<longrightarrow>
        fst (next_frame w) = Done (Some (Inr f)) \<and> frames (snd (next_frame w)) = (fs, e))
     \<and> (\<forall>w e. frames w = ([], e) \<longrightarrow>
        fst (next_frame w) = (case e of AtFin \<Rightarrow> Done None | AtReset msg \<Rightarrow> Done (Some (Inl msg)) | Silent \<Rightarrow> Elapsed))"

fun frame_data :: "body_frame \<Rightarrow> bytes" where
  "frame_data (DataFrame d) = d"
| "frame_data TrailersFrame = []"

definition body_outcome :: "string \<Rightarrow> bytes \<Rightarrow> stream_end \<Rightarrow> body_collection_error + bytes" where
  "body_outcome operation body e =
     (if max_dns_message_size < length body then Inl (TooLarge operation)
      else case e of
        AtFin \<Rightarrow> Inr body
      | AtReset msg \<Rightarrow> Inl (BodyRead operation msg)
      | Silent \<Rightarrow> Inl (Stalled operation))"

lemma collect_body_spec:
  assumes law: "frames_law next_frame frames"
  shows "frames w = (fs, e) \<Longrightarrow> length collected \<le> max_dns_message_size \<Longrightarrow>
    \<exists>w'. collect_body_with_progress next_frame operation collected w
      = Some (body_outcome operation (collected @ concat (map frame_data fs)) e, w')"
proof (induction fs arbitrary: collected w)
  case Nil
  obtain r w1 where n: "next_frame w = (r, w1)" by fastforce
  then have r: "r = (case e of AtFin \<Rightarrow> Done None | AtReset msg \<Rightarrow> Done (Some (Inl msg)) | Silent \<Rightarrow> Elapsed)"
    using law Nil.prems(1) unfolding frames_law_def by (metis fst_conv)
  then show ?case
    using n Nil.prems(2)
    by (subst collect_body_with_progress.simps) (auto simp: body_outcome_def split: stream_end.splits)
next
  case (Cons f fs)
  obtain r w1 where n: "next_frame w = (r, w1)" by fastforce
  then have r: "r = Done (Some (Inr f))" and w1: "frames w1 = (fs, e)"
    using law Cons.prems(1) unfolding frames_law_def by (metis fst_conv snd_conv)+
  show ?case
  proof (cases f)
    case TrailersFrame
    then show ?thesis
      using n r Cons.IH [OF w1 Cons.prems(2)] by (subst collect_body_with_progress.simps) simp
  next
    case (DataFrame d)
    show ?thesis
    proof (cases "max_dns_message_size - length collected < length d")
      case True
      then have "max_dns_message_size < length (collected @ concat (map frame_data (f # fs)))"
        using DataFrame by simp
      then show ?thesis
        using n r DataFrame True by (subst collect_body_with_progress.simps) (simp add: body_outcome_def)
    next
      case False
      then have "length (collected @ d) \<le> max_dns_message_size" using Cons.prems(2) by simp
      from Cons.IH [OF w1 this] show ?thesis
        using n r DataFrame False by (subst collect_body_with_progress.simps) simp
    qed
  qed
qed

end
