(* ===== verification/Doh.thy ===== *)
theory Doh
  imports Doh_Common Http_Pool
begin

section \<open>DoH over TCP (\<open>src/proxy/http.rs\<close>, \<open>src/upstream/http.rs\<close>)\<close>

text \<open>
  A DoH request passes the guards of \<open>handle_http_request_inner\<close>, is rewritten, and is
  forwarded over the pooled client of its target. The client's request body, the
  upstream exchange and the upstream response body are the parameter \<open>doh_io\<close>; the
  metrics and the client pool are threaded through. A body may never end, so forwarding
  is partial.
\<close>

record outbound_request =
  ob_method :: http_method
  ob_uri :: string
  ob_headers :: headers
  ob_body :: bytes

record ('a, 'w) doh_io =
  dh_request_frame :: "'w frame_source"
  dh_iter_guard :: bool   \<comment> \<open>a live iterator of the client map excludes a removal\<close>
  dh_send :: "'a http_client \<Rightarrow> outbound_request \<Rightarrow> 'w \<Rightarrow> (string + nat \<times> headers) timed \<times> 'w"
  dh_response_frame :: "'w frame_source"

datatype forward_error = BodyFailed body_collection_error | ForwardFailed string

subsection \<open>Forwarding\<close>

definition build_upstream_request ::
    "http_lib \<Rightarrow> string \<Rightarrow> string \<Rightarrow> http_method \<Rightarrow> headers \<Rightarrow> bytes \<Rightarrow> anyhow_error + outbound_request" where
  "build_upstream_request lib uri target method hs body =
     (case hl_uri_ok lib uri of
        Some _ \<Rightarrow> Inl (''Failed to build HTTP request: '' @ show_method method @ '' '' @ uri
                        @ '' (target: '' @ target @ '')'')
      | None \<Rightarrow>
         (case hl_header_value lib target of
            Inl _ \<Rightarrow> Inl (''Invalid target hostname: '' @ target)
          | Inr host \<Rightarrow>
              Inr \<lparr>ob_method = method, ob_uri = uri,
                   ob_headers = AList.update ''host'' host (forwarded_headers hs), ob_body = body\<rparr>))"

definition text_response :: "nat \<Rightarrow> string \<Rightarrow> http_response \<times> u64" where
  "text_response status message =
     (\<lparr>resp_status = status, resp_headers = [], resp_body = bytes_of message\<rparr>, of_nat (length message))"

text \<open>A successful upstream response must be a DNS message; any other is passed on as it is.\<close>

definition check_upstream_response ::
    "http_lib \<Rightarrow> string \<Rightarrow> nat \<Rightarrow> headers \<Rightarrow> bytes \<Rightarrow> forward_error + (http_response \<times> u64)" where
  "check_upstream_response lib uri status hs body =
     and_then (if is_success status
       then and_then (ensure (is_dns_message_content_type (header_str lib hs ''content-type''))
              (ForwardFailed (''HTTP upstream response for '' @ uri
                 @ '' is successful but not application/dns-message''))) (\<lambda>_.
            map_err (\<lambda>_. ForwardFailed (''HTTP upstream response for '' @ uri @ '' is malformed''))
              (validate_dns_message body ''HTTP upstream DNS response''))
       else Inr ()) (\<lambda>_.
     Inr (\<lparr>resp_status = status, resp_headers = hs, resp_body = body\<rparr>, of_nat (length body)))"

definition forward_http_request ::
    "http_lib \<Rightarrow> ('a, 'w) doh_io \<Rightarrow> string \<Rightarrow> 'a http_client \<Rightarrow> string \<Rightarrow> string \<Rightarrow> http_method \<Rightarrow> headers
     \<Rightarrow> bytes \<Rightarrow> 'w \<Rightarrow> ((forward_error + (http_response \<times> u64)) \<times> 'w) option" where
  "forward_http_request lib io timeout_text client uri target method hs body w =
     (case build_upstream_request lib uri target method hs body of
        Inl e \<Rightarrow> Some (Inl (ForwardFailed e), w)
      | Inr req \<Rightarrow>
         (case dh_send io client req w of
            (Elapsed, w1) \<Rightarrow> Some (Inr (text_response 504 (''Upstream timeout after '' @ timeout_text)), w1)
          | (Done (Inl e), w1) \<Rightarrow> Some (Inr (text_response 502 (''Upstream error: '' @ e)), w1)
          | (Done (Inr (status, resp_hs)), w1) \<Rightarrow>
             (case collect_body_with_progress (dh_response_frame io)
                     (''Upstream response body for '' @ uri) [] w1 of
                None \<Rightarrow> None
              | Some (Inl e, w2) \<Rightarrow> Some (Inl (BodyFailed e), w2)
              | Some (Inr resp, w2) \<Rightarrow> Some (check_upstream_response lib uri status resp_hs resp, w2))))"

subsection \<open>Handling a request\<close>

datatype doh_http_error =
    BadRequest | NotFound | MethodNotAllowed | UnsupportedMediaType
  | PayloadTooLarge | RequestTimeout | GatewayTimeout | BadGateway

text \<open>The guards in the order of the code, up to the rewritten name.\<close>

definition doh_guards ::
    "http_lib \<Rightarrow> base_sni_rewriter \<Rightarrow> string \<Rightarrow> string \<Rightarrow> http_request \<Rightarrow> doh_http_error + rewrite_result" where
  "doh_guards lib rw request_path tls_sni req =
     and_then (ensure (req_path req = request_path) NotFound) (\<lambda>_.
     and_then (ok_or BadRequest (request_host lib req)) (\<lambda>authority.
     and_then (ok_or BadRequest (normalize_hostname lib authority)) (\<lambda>host.
     and_then (ensure (host = tls_sni) BadRequest) (\<lambda>_.
     and_then (ensure (req_method req = GET \<or> req_method req = POST) MethodNotAllowed) (\<lambda>_.
     and_then (if req_method req = GET
               then map_err (\<lambda>_. BadRequest) (validate_doh_get_query lib (req_query req) ''DoH'')
               else ensure (is_dns_message_content_type (header_str lib (req_headers req) ''content-type''))
                      UnsupportedMediaType) (\<lambda>_.
     ok_or BadRequest (rewrite rw host)))))))"

fun body_error_status :: "body_collection_error \<Rightarrow> doh_http_error" where
  "body_error_status (Stalled _) = RequestTimeout"
| "body_error_status (TooLarge _) = PayloadTooLarge"
| "body_error_status (BodyRead _ _) = BadRequest"

definition doh_request_body ::
    "('a, 'w) doh_io \<Rightarrow> http_method \<Rightarrow> 'w \<Rightarrow> ((doh_http_error + bytes) \<times> 'w) option" where
  "doh_request_body io method w =
     (if method = POST
      then (case collect_body_with_progress (dh_request_frame io) ''DoH request body'' [] w of
              None \<Rightarrow> None
            | Some (Inl e, w1) \<Rightarrow> Some (Inl (body_error_status e), w1)
            | Some (Inr body, w1) \<Rightarrow>
                Some (map_err (\<lambda>_. BadRequest)
                        (and_then (validate_dns_message body ''DoH POST body'') (\<lambda>_. Inr body)), w1))
      else Some (Inr [], w))"

fun forward_error_status :: "forward_error \<Rightarrow> doh_http_error" where
  "forward_error_status (BodyFailed (Stalled _)) = GatewayTimeout"
| "forward_error_status _ = BadGateway"

text \<open>The outcome of forwarding, and what is recorded of it.\<close>

definition doh_record ::
    "nat \<Rightarrow> u64 \<Rightarrow> forward_error + (http_response \<times> u64) \<Rightarrow> metrics
     \<Rightarrow> (doh_http_error + http_response) \<times> metrics" where
  "doh_record elapsed received result m =
     (case result of
        Inr (response, sent) \<Rightarrow>
          (let success = is_success (resp_status response);
               m = record_request success received sent elapsed m
           in (Inr response, if success then m else record_upstream_error m))
      | Inl e \<Rightarrow>
          (Inl (forward_error_status e),
           record_upstream_error (record_request False received 0 elapsed m)))"

record 'a doh_state =
  ds_metrics :: metrics
  ds_pool :: "'a connection_pool"

definition handle_http_request_inner ::
    "http_lib \<Rightarrow> ('a, 'w) doh_io \<Rightarrow> string \<Rightarrow> base_sni_rewriter \<Rightarrow> http_upstream_config \<Rightarrow> string \<Rightarrow> string
     \<Rightarrow> nat \<Rightarrow> nat \<Rightarrow> http_request \<Rightarrow> 'a doh_state \<Rightarrow> 'w
     \<Rightarrow> ((doh_http_error + http_response) \<times> 'a doh_state \<times> 'w) option" where
  "handle_http_request_inner lib io timeout_text rw endpoint request_path tls_sni ident elapsed req st w =
     (case doh_guards lib rw request_path tls_sni req of
        Inl e \<Rightarrow> Some (Inl e, st, w)
      | Inr result \<Rightarrow>
         (let st1 = st\<lparr>ds_metrics := record_sni_rewrite (ds_metrics st)\<rparr>;
              target = rr_target_hostname result;
              uri = upstream_uri target (hu_port endpoint) (hu_path endpoint) (req_query req)
          in case doh_request_body io (req_method req) w of
               None \<Rightarrow> None
             | Some (Inl e, w1) \<Rightarrow> Some (Inl e, st1, w1)
             | Some (Inr body, w1) \<Rightarrow>
                (case get_client (dh_iter_guard io) ident target (ds_pool st1) of
                   None \<Rightarrow> None
                 | Some (client, pool) \<Rightarrow>
                    (let st2 = st1\<lparr>ds_pool := pool\<rparr>
                     in case forward_http_request lib io timeout_text client uri target (req_method req)
                               (req_headers req) body w1 of
                          None \<Rightarrow> None
                        | Some (forwarded, w2) \<Rightarrow>
                           (let (answer, m) = doh_record elapsed (of_nat (length body)) forwarded (ds_metrics st2)
                            in Some (answer, st2\<lparr>ds_metrics := m\<rparr>, w2))))))"

fun doh_error_parts :: "doh_http_error \<Rightarrow> nat \<times> string \<times> string option" where
  "doh_error_parts BadRequest = (400, ''invalid DoH request'', None)"
| "doh_error_parts NotFound = (404, ''DoH endpoint not found'', None)"
| "doh_error_parts MethodNotAllowed = (405, ''method not allowed'', Some ''GET, POST'')"
| "doh_error_parts UnsupportedMediaType =
     (415, ''Content-Type must be application/dns-message'', None)"
| "doh_error_parts PayloadTooLarge = (413, ''DNS message exceeds 65535 bytes'', None)"
| "doh_error_parts RequestTimeout = (408, ''request body timed out'', None)"
| "doh_error_parts GatewayTimeout = (504, ''upstream timed out'', None)"
| "doh_error_parts BadGateway = (502, ''upstream request failed'', None)"

definition doh_error_response :: "doh_http_error \<Rightarrow> http_response" where
  "doh_error_response e =
     (let (status, message, allow) = doh_error_parts e
      in \<lparr>resp_status = status,
          resp_headers = (''content-type'', ''text/plain; charset=utf-8'')
             # (case allow of None \<Rightarrow> [] | Some a \<Rightarrow> [(''allow'', a)]),
          resp_body = bytes_of message\<rparr>)"

definition handle_http_request ::
    "http_lib \<Rightarrow> ('a, 'w) doh_io \<Rightarrow> string \<Rightarrow> base_sni_rewriter \<Rightarrow> http_upstream_config \<Rightarrow> string \<Rightarrow> string
     \<Rightarrow> nat \<Rightarrow> nat \<Rightarrow> http_request \<Rightarrow> 'a doh_state \<Rightarrow> 'w
     \<Rightarrow> (http_response \<times> 'a doh_state \<times> 'w) option" where
  "handle_http_request lib io timeout_text rw endpoint request_path tls_sni ident elapsed req st w =
     (case handle_http_request_inner lib io timeout_text rw endpoint request_path tls_sni ident elapsed req st w of
        None \<Rightarrow> None
      | Some (Inr response, st', w') \<Rightarrow> Some (response, st', w')
      | Some (Inl e, st', w') \<Rightarrow> Some (doh_error_response e, st', w'))"

subsection \<open>Which requests are let through\<close>

lemma doh_guards_Inr_iff:
  "doh_guards lib rw request_path tls_sni req = Inr result \<longleftrightarrow>
     req_path req = request_path
     \<and> (\<exists>authority. request_host lib req = Some authority \<and> normalize_hostname lib authority = Some tls_sni)
     \<and> (req_method req = GET \<and> validate_doh_get_query lib (req_query req) ''DoH'' = Inr ()
        \<or> req_method req = POST
            \<and> is_dns_message_content_type (header_str lib (req_headers req) ''content-type''))
     \<and> rewrite rw tls_sni = Some result"
  by (cases "req_method req") (auto simp: doh_guards_def res_simps)

lemma doh_guards_target:
  assumes "doh_guards lib rw request_path tls_sni req = Inr result" and "valid_rewriter rw"
  shows "ends_with (rr_target_hostname result) (target_suffix (rw_config rw))"
    and "split_on CHR '':'' (host_port (rr_target_hostname result) port)
           = [rr_target_hostname result, show_nat (unat port)]"
    and "x \<in> set (rr_target_hostname result) \<Longrightarrow> dns_char x"
proof -
  have r: "rewrite rw tls_sni = Some result" using assms(1) by (simp add: doh_guards_Inr_iff)
  show "ends_with (rr_target_hostname result) (target_suffix (rw_config rw))"
    using base_rw.target_in_zone [OF assms(2) r] by (simp add: rewriter_zone_def)
  show "split_on CHR '':'' (host_port (rr_target_hostname result) port)
           = [rr_target_hostname result, show_nat (unat port)]"
    by (rule base_rw.authority_splits [OF assms(2) r])
  show "x \<in> set (rr_target_hostname result) \<Longrightarrow> dns_char x"
    by (rule base_rw.target_chars [OF assms(2) r])
qed

subsection \<open>What is sent upstream\<close>

lemma build_upstream_request_Inr:
  assumes "build_upstream_request lib uri target method hs body = Inr req"
  shows "ob_method req = method" and "ob_uri req = uri" and "ob_body req = body"
    and "map_of (ob_headers req) ''host'' = (case hl_header_value lib target of Inl _ \<Rightarrow> None | Inr v \<Rightarrow> Some v)"
    and "k \<noteq> ''host'' \<Longrightarrow> map_of (ob_headers req) k
           = (if k \<in> {''accept'', ''content-type''} then map_of (rev hs) k else None)"
  using assms map_of_forwarded_headers [of hs k]
  by (auto simp: build_upstream_request_def update_conv split: option.splits sum.splits)

subsection \<open>What is answered\<close>

text \<open>A successful answer is a DNS message under its media type.\<close>

definition dns_answer :: "http_lib \<Rightarrow> http_response \<Rightarrow> bool" where
  "dns_answer lib r \<longleftrightarrow>
     12 \<le> length (resp_body r) \<and> length (resp_body r) \<le> 65535
     \<and> is_dns_message_content_type (header_str lib (resp_headers r) ''content-type'')"

lemma check_upstream_response_success:
  assumes "check_upstream_response lib uri status hs body = Inr (r, n)"
  shows "r = \<lparr>resp_status = status, resp_headers = hs, resp_body = body\<rparr>"
    and "is_success status \<Longrightarrow> dns_answer lib r"
  using assms by (auto simp: check_upstream_response_def res_simps validate_dns_message_iff
      dns_answer_def split: if_splits)

lemma forward_http_request_success:
  assumes "forward_http_request lib io tt client uri target method hs body w = Some (Inr (r, n), w')"
    and "is_success (resp_status r)"
  shows "dns_answer lib r"
proof -
  have codes: "\<not> is_success 504" "\<not> is_success 502" by (simp_all add: is_success_def)
  have checked: "dns_answer lib r" if "check_upstream_response lib uri status resp_hs b = Inr (r, n)"
    for status resp_hs b
    using check_upstream_response_success [OF that] assms(2) by simp
  show ?thesis
    using assms codes
    by (auto simp: forward_http_request_def text_response_def intro: checked
        split: sum.splits prod.splits timed.splits option.splits)
qed

lemma doh_record_Inr:
  "doh_record elapsed received result m = (Inr r, m') \<Longrightarrow> \<exists>n. result = Inr (r, n)"
  by (auto simp: doh_record_def Let_def split: sum.splits prod.splits)

lemma doh_error_response_not_success: "\<not> is_success (resp_status (doh_error_response e))"
  by (cases e) (simp_all add: doh_error_response_def is_success_def)

subsection \<open>What is recorded\<close>

lemma doh_record_counts:
  assumes "doh_record elapsed received result m = (answer, m')"
  shows "total_requests m' = total_requests m + 1" and "sni_rewrites m' = sni_rewrites m"
    and "bytes_received m' = bytes_received m + received"
    and "metrics_balanced m \<Longrightarrow> metrics_balanced m'"
    and "successful_requests m' = successful_requests m
           + (case result of Inr (r, _) \<Rightarrow> if is_success (resp_status r) then 1 else 0 | Inl _ \<Rightarrow> 0)"
    and "upstream_errors m' = upstream_errors m
           + (case result of Inr (r, _) \<Rightarrow> if is_success (resp_status r) then 0 else 1 | Inl _ \<Rightarrow> 1)"
  using assms
  by (auto simp: doh_record_def Let_def metrics_balanced_def split: sum.splits prod.splits)

lemma handle_inner_cases:
  assumes "handle_http_request_inner lib io tt rw endpoint path sni ident elapsed req st w = Some (answer, st', w')"
  obtains (rejected) e where "doh_guards lib rw path sni req = Inl e" "answer = Inl e" "st' = st" "w' = w"
    | (bad_body) result e where "doh_guards lib rw path sni req = Inr result"
        "doh_request_body io (req_method req) w = Some (Inl e, w')" "answer = Inl e"
        "st' = st\<lparr>ds_metrics := record_sni_rewrite (ds_metrics st)\<rparr>"
    | (forwarded) result body w1 client pool forwarded m where "doh_guards lib rw path sni req = Inr result"
        "doh_request_body io (req_method req) w = Some (Inr body, w1)"
        "get_client (dh_iter_guard io) ident (rr_target_hostname result) (ds_pool st) = Some (client, pool)"
        "forward_http_request lib io tt client
           (upstream_uri (rr_target_hostname result) (hu_port endpoint) (hu_path endpoint) (req_query req))
           (rr_target_hostname result) (req_method req) (req_headers req) body w1 = Some (forwarded, w')"
        "doh_record elapsed (of_nat (length body)) forwarded (record_sni_rewrite (ds_metrics st)) = (answer, m)"
        "st' = \<lparr>ds_metrics = m, ds_pool = pool\<rparr>"
proof (cases "doh_guards lib rw path sni req")
  case (Inl e)
  then show thesis using assms rejected by (simp add: handle_http_request_inner_def)
next
  case guards: (Inr result)
  show thesis
  proof (cases "doh_request_body io (req_method req) w")
    case None
    then show thesis using assms guards by (simp add: handle_http_request_inner_def Let_def)
  next
    case (Some x)
    obtain b w1 where x: "x = (b, w1)" by fastforce
    show thesis
    proof (cases b)
      case (Inl e)
      then show thesis
        using assms guards Some x bad_body by (simp add: handle_http_request_inner_def Let_def)
    next
      case (Inr body)
      then show thesis
        using assms guards Some x forwarded
        by (auto simp: handle_http_request_inner_def Let_def split: option.splits prod.splits)
    qed
  qed
qed

end
