(* ===== verification/Doh_Correct.thy ===== *)
theory Doh_Correct
  imports Doh
begin

section \<open>What a DoH request is answered\<close>

text \<open>
  The answer a client gets, as a function of what the upstream does: \<open>upstream_answer\<close> is the
  specification, \<open>handle_http_request_answer\<close> says that the code meets it for every upstream
  outcome and every response body, whichever frames it comes in and however it ends.
\<close>

definition upstream_answer ::
    "http_lib \<Rightarrow> string \<Rightarrow> (string + nat \<times> headers) timed \<Rightarrow> body_frame list \<times> stream_end \<Rightarrow> http_response" where
  "upstream_answer lib timeout_text outcome source =
     (case outcome of
        Elapsed \<Rightarrow> \<lparr>resp_status = 504, resp_headers = [],
                     resp_body = bytes_of (''Upstream timeout after '' @ timeout_text)\<rparr>
      | Done (Inl e) \<Rightarrow> \<lparr>resp_status = 502, resp_headers = [], resp_body = bytes_of (''Upstream error: '' @ e)\<rparr>
      | Done (Inr (status, hs)) \<Rightarrow>
         (let body = concat (map frame_data (fst source));
              r = \<lparr>resp_status = status, resp_headers = hs, resp_body = body\<rparr>
          in if 65535 < length body then doh_error_response BadGateway
             else case snd source of
                    AtReset _ \<Rightarrow> doh_error_response BadGateway
                  | Silent \<Rightarrow> doh_error_response GatewayTimeout
                  | AtFin \<Rightarrow> if is_success status \<and> \<not> dns_answer lib r
                             then doh_error_response BadGateway else r))"

lemma check_upstream_response_cases:
  assumes "length body \<le> 65535"
  shows "check_upstream_response lib uri status hs body =
     (let r = \<lparr>resp_status = status, resp_headers = hs, resp_body = body\<rparr>
      in if is_success status \<and> \<not> dns_answer lib r
         then Inl (if is_dns_message_content_type (header_str lib hs ''content-type'')
                   then ForwardFailed (''HTTP upstream response for '' @ uri @ '' is malformed'')
                   else ForwardFailed (''HTTP upstream response for '' @ uri
                          @ '' is successful but not application/dns-message''))
         else Inr (r, of_nat (length body)))"
  using assms
  by (auto simp: check_upstream_response_def dns_answer_def Let_def ensure_def validate_dns_message_def
      max_dns_message_size_def map_err_def)

lemma forward_http_request_answer:
  assumes built: "build_upstream_request lib uri target method hs body = Inr rq"
    and sent: "dh_send io client rq w = (outcome, w1)"
    and law: "frames_law (dh_response_frame io) frames"
  shows "\<exists>r w'. forward_http_request lib io tt client uri target method hs body w = Some (r, w')
    \<and> (case r of Inr (response, _) \<Rightarrow> response | Inl e \<Rightarrow> doh_error_response (forward_error_status e))
        = upstream_answer lib tt outcome (frames w1)"
proof (cases outcome)
  case Elapsed
  then show ?thesis
    using built sent by (simp add: forward_http_request_def upstream_answer_def text_response_def)
next
  case (Done x)
  show ?thesis
  proof (cases x)
    case (Inl e)
    then show ?thesis
      using built sent Done by (simp add: forward_http_request_def upstream_answer_def text_response_def)
  next
    case (Inr sh)
    obtain status resp_hs where sh: "sh = (status, resp_hs)" by fastforce
    obtain fs e where fs: "frames w1 = (fs, e)" by fastforce
    let ?body = "concat (map frame_data fs)" and ?op = "''Upstream response body for '' @ uri"
    obtain w2 where col: "collect_body_with_progress (dh_response_frame io) ?op [] w1
        = Some (body_outcome ?op ?body e, w2)"
      using collect_body_spec [OF law fs, of "[]" ?op] by auto
    have fwd: "forward_http_request lib io tt client uri target method hs body w =
       (case body_outcome ?op ?body e of Inl err \<Rightarrow> Some (Inl (BodyFailed err), w2)
        | Inr resp \<Rightarrow> Some (check_upstream_response lib uri status resp_hs resp, w2))"
      using built sent Done Inr sh col by (simp add: forward_http_request_def split: sum.splits)
    show ?thesis
    proof (cases "max_dns_message_size < length ?body")
      case True
      then show ?thesis
        unfolding fwd using Done Inr sh fs
        by (simp add: body_outcome_def upstream_answer_def max_dns_message_size_def)
    next
      case False
      then have len: "length ?body \<le> 65535" by (simp add: max_dns_message_size_def)
      show ?thesis
      proof (cases e)
        case AtFin
        then have "body_outcome ?op ?body e = Inr ?body"
          using False by (simp add: body_outcome_def)
        then show ?thesis
          unfolding fwd using Done Inr sh fs len AtFin
          by (simp add: check_upstream_response_cases upstream_answer_def Let_def)
      qed (use Done Inr sh fs len False in \<open>simp_all add: fwd body_outcome_def upstream_answer_def Let_def\<close>)
    qed
  qed
qed

lemma handle_http_request_answer:
  assumes guards: "doh_guards lib rw path sni req = Inr result"
    and body: "doh_request_body io (req_method req) w = Some (Inr body, w1)"
    and client: "get_client (dh_iter_guard io) ident (rr_target_hostname result) (ds_pool st) = Some (client, pool)"
    and uri: "uri = upstream_uri (rr_target_hostname result) (hu_port endpoint) (hu_path endpoint) (req_query req)"
    and built: "build_upstream_request lib uri (rr_target_hostname result) (req_method req) (req_headers req) body = Inr rq"
    and sent: "dh_send io client rq w1 = (outcome, w2)"
    and law: "frames_law (dh_response_frame io) frames"
  shows "\<exists>st' w'. handle_http_request lib io tt rw endpoint path sni ident elapsed req st w
      = Some (upstream_answer lib tt outcome (frames w2), st', w')
    \<and> ds_pool st' = pool \<and> total_requests (ds_metrics st') = total_requests (ds_metrics st) + 1"
proof -
  obtain r w' where fwd: "forward_http_request lib io tt client uri (rr_target_hostname result) (req_method req)
        (req_headers req) body w1 = Some (r, w')"
    and ans: "(case r of Inr (response, _) \<Rightarrow> response | Inl e \<Rightarrow> doh_error_response (forward_error_status e))
        = upstream_answer lib tt outcome (frames w2)"
    using forward_http_request_answer [OF built sent law] by blast
  obtain answer m where rec: "doh_record elapsed (of_nat (length body)) r (record_sni_rewrite (ds_metrics st)) = (answer, m)"
    by fastforce
  have inner: "handle_http_request_inner lib io tt rw endpoint path sni ident elapsed req st w
      = Some (answer, \<lparr>ds_metrics = m, ds_pool = pool\<rparr>, w')"
    using guards body client uri fwd rec by (simp add: handle_http_request_inner_def Let_def)
  have "(case answer of Inr response \<Rightarrow> response | Inl e \<Rightarrow> doh_error_response e)
      = upstream_answer lib tt outcome (frames w2)"
    using rec ans by (cases r) (auto simp: doh_record_def Let_def)
  moreover have "total_requests m = total_requests (ds_metrics st) + 1"
    using doh_record_counts(1) [OF rec] by (simp add: record_sni_rewrite_def)
  ultimately show ?thesis
    using inner by (cases answer) (auto simp: handle_http_request_def)
qed

end
