(* ===== verification/Doh3.thy ===== *)
theory Doh3
  imports Doh_Common
begin

section \<open>DoH over HTTP/3 (\<open>src/readers/doh3.rs\<close>, \<open>forward_http3_request\<close> of \<open>src/upstream/quic.rs\<close>)\<close>

text \<open>
  The HTTP/3 client exchange with its session from the pool, the handling of one request
  on a server stream, and the mapping of its errors to a response. A \<open>Buf\<close> received from
  \<open>h3\<close> is the list of its contiguous segments: \<open>chunk()\<close> is the first of them,
  \<open>remaining()\<close> the length of all. An operation that races with the shutdown token
  returns \<open>None\<close> when the token wins.
\<close>

type_synonym buf = "bytes list"

definition buf_remaining :: "buf \<Rightarrow> nat" where
  "buf_remaining b = length (concat b)"

fun buf_chunk :: "buf \<Rightarrow> bytes" where
  "buf_chunk [] = []"
| "buf_chunk (s # _) = s"

record 'w h3_client_io =
  hc_get :: "string \<Rightarrow> u16 \<Rightarrow> 'w \<Rightarrow> (dns_proxy_error + unit) timed \<times> 'w"
  hc_invalidate :: "string \<Rightarrow> u16 \<Rightarrow> 'w \<Rightarrow> 'w"
  hc_send_request :: "http_method \<Rightarrow> string \<Rightarrow> headers \<Rightarrow> 'w \<Rightarrow> (string + unit) timed \<times> 'w"
  hc_send_data :: "bytes \<Rightarrow> 'w \<Rightarrow> (string + unit) timed \<times> 'w"
  hc_finish :: "'w \<Rightarrow> (string + unit) timed \<times> 'w"
  hc_recv_response :: "'w \<Rightarrow> (string + nat \<times> headers) timed \<times> 'w"
  hc_recv_data :: "'w \<Rightarrow> (string + buf option) timed \<times> 'w"

subsection \<open>The exchange with the upstream\<close>

definition build_h3_headers :: "http_lib \<Rightarrow> string \<Rightarrow> string \<Rightarrow> headers \<Rightarrow> dns_proxy_error + headers" where
  "build_h3_headers lib uri target hs =
     (case hl_uri_ok lib uri of
        Some e \<Rightarrow> Inl (Protocol (''Invalid HTTP/3 request: '' @ e))
      | None \<Rightarrow> and_then (map_err (\<lambda>e. Protocol (''Invalid upstream Host header: '' @ e)) (hl_header_value lib target))
                 (\<lambda>host. Inr (AList.update ''host'' host (forwarded_headers hs))))"

definition h3_send ::
    "http_lib \<Rightarrow> 'w h3_client_io \<Rightarrow> string \<Rightarrow> string \<Rightarrow> http_method \<Rightarrow> headers \<Rightarrow> bytes
     \<Rightarrow> ('w, dns_proxy_error, nat \<times> headers) io" where
  "h3_send lib io uri target method hs body =
     bind_io (\<lambda>w. (build_h3_headers lib uri target hs, w)) (\<lambda>out_hs.
     bind_io (timed_io (Timeout uri) (\<lambda>e. Upstream (RequestFailed uri e)) (hc_send_request io method uri out_hs)) (\<lambda>_.
     bind_io (if body = [] then return_io () else timed_io (Timeout uri) Protocol (hc_send_data io body)) (\<lambda>_.
     bind_io (timed_io (Timeout uri) Protocol (hc_finish io)) (\<lambda>_.
     timed_io (Timeout uri) Protocol (hc_recv_response io)))))"

partial_function (option) h3_recv_body ::
    "'w h3_client_io \<Rightarrow> string \<Rightarrow> bytes \<Rightarrow> 'w \<Rightarrow> ((dns_proxy_error + bytes) \<times> 'w) option" where
  "h3_recv_body io uri body w =
     (case hc_recv_data io w of
        (Elapsed, w1) \<Rightarrow> Some (Inl (Timeout uri), w1)
      | (Done (Inl e), w1) \<Rightarrow> Some (Inl (Protocol e), w1)
      | (Done (Inr None), w1) \<Rightarrow> Some (Inr body, w1)
      | (Done (Inr (Some chunk)), w1) \<Rightarrow>
          if max_dns_message_size < length body + buf_remaining chunk
          then Some (Inl (Upstream (RequestFailed uri ''HTTP/3 upstream response exceeds DNS message limit'')), w1)
          else h3_recv_body io uri (body @ buf_chunk chunk) w1)"

definition check_h3_response ::
    "http_lib \<Rightarrow> string \<Rightarrow> nat \<Rightarrow> headers \<Rightarrow> bytes \<Rightarrow> dns_proxy_error + (http_response \<times> u64)" where
  "check_h3_response lib uri status hs body =
     and_then (if is_success status
       then and_then (ensure (is_dns_message_content_type (header_str lib hs ''content-type''))
              (Upstream (RequestFailed uri ''HTTP/3 upstream returned a successful non-DNS response''))) (\<lambda>_.
            map_err (\<lambda>e. Upstream (RequestFailed uri e))
              (validate_dns_message body ''HTTP/3 upstream DNS response''))
       else Inr ()) (\<lambda>_.
     Inr (\<lparr>resp_status = status, resp_headers = hs, resp_body = body\<rparr>, of_nat (length body)))"

text \<open>The session is invalidated whenever the exchange on it fails.\<close>

definition forward_http3_request ::
    "http_lib \<Rightarrow> 'w h3_client_io \<Rightarrow> string \<Rightarrow> string \<Rightarrow> u16 \<Rightarrow> http_method \<Rightarrow> headers \<Rightarrow> bytes \<Rightarrow> 'w
     \<Rightarrow> ((dns_proxy_error + (http_response \<times> u64)) \<times> 'w) option" where
  "forward_http3_request lib io uri target port method hs body w =
     (case timed_io (Timeout (host_port target port)) (\<lambda>e. e) (hc_get io target port) w of
        (Inl e, w1) \<Rightarrow> Some (Inl e, w1)
      | (Inr _, w1) \<Rightarrow>
         (case h3_send lib io uri target method hs body w1 of
            (Inl e, w2) \<Rightarrow> Some (Inl e, hc_invalidate io target port w2)
          | (Inr (status, resp_hs), w2) \<Rightarrow>
             (case h3_recv_body io uri [] w2 of
                None \<Rightarrow> None
              | Some (Inl e, w3) \<Rightarrow> Some (Inl e, hc_invalidate io target port w3)
              | Some (Inr resp, w3) \<Rightarrow>
                 (case check_h3_response lib uri status resp_hs resp of
                    Inl e \<Rightarrow> Some (Inl e, hc_invalidate io target port w3)
                  | Inr r \<Rightarrow> Some (Inr r, w3)))))"

subsection \<open>One request on a server stream\<close>

record 'w h3_server_io =
  hs_recv_data :: "'w \<Rightarrow> (string + buf option) timed option \<times> 'w"
  hs_cancel_forward :: "'w \<Rightarrow> 'w option"  \<comment> \<open>the state forwarding had reached when shutdown won\<close>
  hs_send_response :: "nat \<times> headers \<Rightarrow> 'w \<Rightarrow> (string + unit) timed \<times> 'w"
  hs_send_data :: "bytes \<Rightarrow> 'w \<Rightarrow> (string + unit) timed \<times> 'w"
  hs_finish :: "'w \<Rightarrow> (string + unit) timed \<times> 'w"

definition doh3_guards ::
    "http_lib \<Rightarrow> base_sni_rewriter \<Rightarrow> string \<Rightarrow> string \<Rightarrow> http_request \<Rightarrow> dns_proxy_error + rewrite_result" where
  "doh3_guards lib rw request_path tls_sni req =
     and_then (ensure (req_path req = request_path)
       (InvalidInput (''DoH3 request path must be '' @ request_path))) (\<lambda>_.
     and_then (ok_or (InvalidInput (''Missing or invalid Host header in '' @ show_method (req_method req)
                        @ '' request to '' @ req_uri req)) (request_host lib req)) (\<lambda>authority.
     and_then (ok_or (InvalidInput ''Invalid DoH3 Host header'') (normalize_hostname lib authority)) (\<lambda>host.
     and_then (ensure (host = to_ascii_lowercase tls_sni) (InvalidInput ''DoH3 Host does not match TLS SNI'')) (\<lambda>_.
     and_then (ensure (req_method req = GET \<or> req_method req = POST)
       (InvalidInput ''DoH3 only supports GET and POST'')) (\<lambda>_.
     and_then (if req_method req = GET
               then map_err InvalidInput (validate_doh_get_query lib (req_query req) ''DoH3'')
               else ensure (is_dns_message_content_type (header_str lib (req_headers req) ''content-type''))
                      (InvalidInput ''DoH3 POST Content-Type must be application/dns-message'')) (\<lambda>_.
     ok_or (SniRewrite (NoMatchingBaseDomain host)) (rewrite rw host)))))))"

text \<open>The request body; \<open>None\<close> inside when shutdown ended the request.\<close>

partial_function (option) h3_request_body ::
    "'w h3_server_io \<Rightarrow> bytes \<Rightarrow> 'w \<Rightarrow> ((dns_proxy_error + bytes option) \<times> 'w) option" where
  "h3_request_body io body w =
     (case hs_recv_data io w of
        (None, w1) \<Rightarrow> Some (Inr None, w1)
      | (Some Elapsed, w1) \<Rightarrow> Some (Inl (Timeout ''DoH3 request body''), w1)
      | (Some (Done (Inl e)), w1) \<Rightarrow> Some (Inl (Protocol (''Failed to read DoH3 request body: '' @ e)), w1)
      | (Some (Done (Inr None)), w1) \<Rightarrow> Some (Inr (Some body), w1)
      | (Some (Done (Inr (Some chunk))), w1) \<Rightarrow>
          if max_dns_message_size < length body + buf_remaining chunk
          then Some (Inl (InvalidInput ''DoH3 POST body exceeds the DNS message limit''), w1)
          else h3_request_body io (body @ concat chunk) w1)"

definition h3_respond :: "'w h3_server_io \<Rightarrow> http_response \<Rightarrow> ('w, dns_proxy_error, unit) io" where
  "h3_respond io r =
     bind_io (timed_io (Timeout ''DoH3 client response headers'')
       (\<lambda>e. Protocol (''Failed to send DoH3 response: '' @ e))
       (hs_send_response io (resp_status r, resp_headers r))) (\<lambda>_.
     bind_io (timed_io (Timeout ''DoH3 client response body'')
       (\<lambda>e. Protocol (''Failed to send DoH3 response body: '' @ e)) (hs_send_data io (resp_body r))) (\<lambda>_.
     timed_io (Timeout ''DoH3 client response finish'')
       (\<lambda>e. Protocol (''Failed to finish DoH3 response: '' @ e)) (hs_finish io)))"

definition h3_record ::
    "nat \<Rightarrow> u64 \<Rightarrow> string \<Rightarrow> dns_proxy_error + (http_response \<times> u64) \<Rightarrow> metrics
     \<Rightarrow> (dns_proxy_error + http_response) \<times> metrics" where
  "h3_record elapsed received uri result m =
     (case result of
        Inr (response, sent) \<Rightarrow>
          (let success = is_success (resp_status response);
               m = record_request success received sent elapsed m
           in (Inr response, if success then m else record_upstream_error m))
      | Inl e \<Rightarrow>
          (Inl (Upstream (RequestFailed uri (show_error e))),
           record_upstream_error (record_request False received 0 elapsed m)))"

definition process_request ::
    "http_lib \<Rightarrow> 'w h3_client_io \<Rightarrow> 'w h3_server_io \<Rightarrow> base_sni_rewriter \<Rightarrow> http_upstream_config \<Rightarrow> string
     \<Rightarrow> string \<Rightarrow> nat \<Rightarrow> http_request \<Rightarrow> metrics \<Rightarrow> 'w \<Rightarrow> ((dns_proxy_error + unit) \<times> metrics \<times> 'w) option" where
  "process_request lib up io rw endpoint request_path tls_sni elapsed req m w =
     (case doh3_guards lib rw request_path tls_sni req of
        Inl e \<Rightarrow> Some (Inl e, m, w)
      | Inr result \<Rightarrow>
         (let m1 = record_sni_rewrite m;
              target = rr_target_hostname result;
              uri = upstream_uri target (hu_port endpoint) (hu_path endpoint) (req_query req)
          in case (if req_method req = POST then h3_request_body io [] w else Some (Inr (Some []), w)) of
               None \<Rightarrow> None
             | Some (Inl e, w1) \<Rightarrow> Some (Inl e, m1, w1)
             | Some (Inr None, w1) \<Rightarrow> Some (Inr (), m1, w1)
             | Some (Inr (Some body), w1) \<Rightarrow>
                (case (if req_method req = POST
                       then map_err InvalidInput (validate_dns_message body ''DoH3 POST body'') else Inr ()) of
                   Inl e \<Rightarrow> Some (Inl e, m1, w1)
                 | Inr _ \<Rightarrow>
                    (case hs_cancel_forward io w1 of
                       Some w2 \<Rightarrow> Some (Inr (), m1, w2)
                     | None \<Rightarrow>
                        (case forward_http3_request lib up uri target (hu_port endpoint) (req_method req)
                                (req_headers req) body w1 of
                           None \<Rightarrow> None
                         | Some (forwarded, w2) \<Rightarrow>
                            (case h3_record elapsed (of_nat (length body)) uri forwarded m1 of
                               (Inl e, m2) \<Rightarrow> Some (Inl e, m2, w2)
                             | (Inr response, m2) \<Rightarrow>
                                (case h3_respond io response w2 of (r, w3) \<Rightarrow> Some (r, m2, w3))))))))"

subsection \<open>The answer to a failed request\<close>

definition h3_error_status :: "dns_proxy_error \<Rightarrow> nat" where
  "h3_error_status err =
     (let message = show_error err
      in if contains_str message ''request path'' then 404
         else if contains_str message ''only supports GET and POST'' then 405
         else if contains_str message ''Content-Type'' then 415
         else if contains_str message ''exceeds'' \<or> contains_str message ''65535 bytes'' then 413
         else (case err of
             Timeout _ \<Rightarrow> 504
           | Overloaded _ _ \<Rightarrow> 503
           | Upstream _ \<Rightarrow> 502
           | _ \<Rightarrow> 400))"

definition h3_error_response :: "dns_proxy_error \<Rightarrow> http_response" where
  "h3_error_response err =
     \<lparr>resp_status = h3_error_status err,
      resp_headers = (''content-type'', ''text/plain; charset=utf-8'')
        # (if h3_error_status err = 405 then [(''allow'', ''GET, POST'')] else []),
      resp_body = bytes_of (show_error err)\<rparr>"

text \<open>\<open>send_error_response\<close> has no deadlines of its own.\<close>

record 'w h3_error_io =
  he_send_response :: "nat \<times> headers \<Rightarrow> 'w \<Rightarrow> (string + unit) \<times> 'w"
  he_send_data :: "bytes \<Rightarrow> 'w \<Rightarrow> (string + unit) \<times> 'w"
  he_finish :: "'w \<Rightarrow> (string + unit) \<times> 'w"

definition map_err_io :: "('x \<Rightarrow> 'e) \<Rightarrow> ('w, 'x, 'a) io \<Rightarrow> ('w, 'e, 'a) io" where
  "map_err_io f m w = (case m w of (r, w') \<Rightarrow> (map_err f r, w'))"

definition send_error_response :: "'w h3_error_io \<Rightarrow> dns_proxy_error \<Rightarrow> ('w, dns_proxy_error, unit) io" where
  "send_error_response io err =
     (let r = h3_error_response err in
      bind_io (map_err_io Protocol (he_send_response io (resp_status r, resp_headers r))) (\<lambda>_.
      bind_io (map_err_io Protocol (he_send_data io (resp_body r))) (\<lambda>_.
      map_err_io Protocol (he_finish io))))"

definition h3_handle_request ::
    "http_lib \<Rightarrow> 'w h3_client_io \<Rightarrow> 'w h3_server_io \<Rightarrow> 'w h3_error_io \<Rightarrow> base_sni_rewriter \<Rightarrow> http_upstream_config
     \<Rightarrow> string \<Rightarrow> string \<Rightarrow> nat \<Rightarrow> http_request \<Rightarrow> metrics \<Rightarrow> 'w
     \<Rightarrow> ((dns_proxy_error + unit) \<times> metrics \<times> 'w) option" where
  "h3_handle_request lib up io eio rw endpoint request_path tls_sni elapsed req m w =
     (case process_request lib up io rw endpoint request_path tls_sni elapsed req m w of
        None \<Rightarrow> None
      | Some (Inr _, m', w') \<Rightarrow> Some (Inr (), m', w')
      | Some (Inl err, m', w') \<Rightarrow> Some (Inl err, m', snd (send_error_response eio err w')))"

end
