(* ===== verification/Doh3_Correct.thy ===== *)
theory Doh3_Correct
  imports Doh3 Doh
begin

section \<open>What DoH3 accepts, forwards and answers\<close>

text \<open>
  The guards of DoH3 compared with those of DoH, the bounds and the contents of what comes
  back from the upstream, the fate of the session after a failure, and the status codes
  that errors are turned into.
\<close>

subsection \<open>Guards\<close>

lemma validate_doh_get_query_iff:
  "validate_doh_get_query lib query protocol = Inr () \<longleftrightarrow>
     (\<exists>q param message. query = Some q \<and> dns_parameter q = Some param \<and> param \<noteq> []
        \<and> hl_decode_base64url lib param = Some message \<and> 12 \<le> length message \<and> length message \<le> 65535)"
  by (cases query) (auto simp: validate_doh_get_query_def res_simps validate_dns_message_iff)

lemma doh3_guards_Inr_iff:
  "doh3_guards lib rw request_path tls_sni req = Inr result \<longleftrightarrow>
     doh_guards lib rw request_path (to_ascii_lowercase tls_sni) req = Inr result"
  by (cases "req_method req")
     (auto simp: doh3_guards_def doh_guards_def res_simps validate_doh_get_query_iff)

lemma doh3_guards_error:
  assumes "doh3_guards lib rw request_path tls_sni req = Inl err"
  shows "(\<exists>m. err = InvalidInput m) \<or> (\<exists>h. err = SniRewrite (NoMatchingBaseDomain h))"
  using assms by (auto simp: doh3_guards_def res_simps split: if_splits)

subsection \<open>The upstream exchange\<close>

lemma buf_chunk_le: "length (buf_chunk b) \<le> buf_remaining b"
  by (cases b) (simp_all add: buf_remaining_def)

lemma h3_recv_body_bounded:
  "h3_recv_body io uri body w = Some y \<Longrightarrow> length body \<le> max_dns_message_size \<Longrightarrow>
     (\<forall>b. fst y = Inr b \<longrightarrow> length b \<le> max_dns_message_size)"
proof -
  let ?P = "\<lambda>io uri body w (y :: (dns_proxy_error + bytes) \<times> 'a). length body \<le> max_dns_message_size \<longrightarrow>
      (\<forall>b. fst y = Inr b \<longrightarrow> length b \<le> max_dns_message_size)"
  assume run: "h3_recv_body io uri body w = Some y" and len: "length body \<le> max_dns_message_size"
  have "?P io uri body w y"
  proof (rule h3_recv_body.raw_induct [of ?P, OF _ run], intro impI)
    fix recv and io :: "'a h3_client_io" and uri body w and y :: "(dns_proxy_error + bytes) \<times> 'a"
    assume IH: "\<And>io uri body w y. recv io uri body w = Some y \<Longrightarrow> ?P io uri body w y"
      and step: "(case hc_recv_data io w of
        (Elapsed, w1) \<Rightarrow> Some (Inl (Timeout uri), w1)
      | (Done (Inl e), w1) \<Rightarrow> Some (Inl (Protocol e), w1)
      | (Done (Inr None), w1) \<Rightarrow> Some (Inr body, w1)
      | (Done (Inr (Some chunk)), w1) \<Rightarrow>
          if max_dns_message_size < length body + buf_remaining chunk
          then Some (Inl (Upstream (RequestFailed uri ''HTTP/3 upstream response exceeds DNS message limit'')), w1)
          else recv io uri (body @ buf_chunk chunk) w1) = Some y"
      and len: "length body \<le> max_dns_message_size"
    show "\<forall>b. fst y = Inr b \<longrightarrow> length b \<le> max_dns_message_size"
    proof (cases "\<exists>chunk w1. hc_recv_data io w = (Done (Inr (Some chunk)), w1)
        \<and> \<not> max_dns_message_size < length body + buf_remaining chunk")
      case False
      then show ?thesis
        using step len by (auto split: timed.splits sum.splits option.splits prod.splits if_splits)
    next
      case True
      then obtain chunk w1 where c: "hc_recv_data io w = (Done (Inr (Some chunk)), w1)"
          "\<not> max_dns_message_size < length body + buf_remaining chunk" by blast
      then have "recv io uri (body @ buf_chunk chunk) w1 = Some y" using step by simp
      moreover have "length (body @ buf_chunk chunk) \<le> max_dns_message_size"
        using c(2) buf_chunk_le [of chunk] by simp
      ultimately show ?thesis using IH by blast
    qed
  qed
  then show ?thesis using len by blast
qed

text \<open>An upstream that delivers the chunks \<open>chunks w\<close> and then the end of the body.\<close>

definition h3_chunks_law :: "'w h3_client_io \<Rightarrow> ('w \<Rightarrow> buf list) \<Rightarrow> bool" where
  "h3_chunks_law io chunks \<longleftrightarrow>
     (\<forall>w. case chunks w of
        [] \<Rightarrow> fst (hc_recv_data io w) = Done (Inr None)
      | c # cs \<Rightarrow> fst (hc_recv_data io w) = Done (Inr (Some c)) \<and> chunks (snd (hc_recv_data io w)) = cs)"

lemma h3_recv_body_chunks:
  assumes law: "h3_chunks_law io chunks"
  shows "chunks w = cs \<Longrightarrow> length body + length (concat (map concat cs)) \<le> max_dns_message_size \<Longrightarrow>
    \<exists>w'. h3_recv_body io uri body w = Some (Inr (body @ concat (map buf_chunk cs)), w')"
proof (induction cs arbitrary: body w)
  case Nil
  then have "fst (hc_recv_data io w) = Done (Inr None)"
    using law [unfolded h3_chunks_law_def, rule_format, of w] by simp
  then obtain w' where "hc_recv_data io w = (Done (Inr None), w')" by (metis prod.collapse)
  then show ?case by (subst h3_recv_body.simps) simp
next
  case (Cons c cs)
  then have "fst (hc_recv_data io w) = Done (Inr (Some c)) \<and> chunks (snd (hc_recv_data io w)) = cs"
    using law [unfolded h3_chunks_law_def, rule_format, of w] by simp
  then obtain w1 where w1: "hc_recv_data io w = (Done (Inr (Some c)), w1)" "chunks w1 = cs"
    by (metis prod.collapse)
  have le: "length body + buf_remaining c \<le> max_dns_message_size"
    and rest: "length (body @ buf_chunk c) + length (concat (map concat cs)) \<le> max_dns_message_size"
    using Cons.prems(2) buf_chunk_le [of c] by (simp_all add: buf_remaining_def)
  from Cons.IH [OF w1(2) rest] show ?case
    using w1(1) le by (subst h3_recv_body.simps) (simp add: not_less)
qed

lemma check_h3_response_Inr:
  assumes "check_h3_response lib uri status hs body = Inr (r, n)"
  shows "r = \<lparr>resp_status = status, resp_headers = hs, resp_body = body\<rparr>"
    and "is_success status \<Longrightarrow> dns_answer lib r"
  using assms by (auto simp: check_h3_response_def res_simps validate_dns_message_iff
      dns_answer_def split: if_splits)

lemma forward_http3_cases:
  assumes "forward_http3_request lib io uri target port method hs body w = Some (result, w')"
  obtains (no_session) e where "result = Inl e"
      "timed_io (Timeout (host_port target port)) (\<lambda>e. e) (hc_get io target port) w = (Inl e, w')"
    | (failed) e w2 where "result = Inl e" "w' = hc_invalidate io target port w2"
    | (answered) r n w1 w2 status resp_hs resp where "result = Inr (r, n)"
        "h3_send lib io uri target method hs body w1 = (Inr (status, resp_hs), w2)"
        "h3_recv_body io uri [] w2 = Some (Inr resp, w')"
        "check_h3_response lib uri status resp_hs resp = Inr (r, n)"
proof -
  obtain g w1 where g: "timed_io (Timeout (host_port target port)) (\<lambda>e. e) (hc_get io target port) w = (g, w1)"
    by fastforce
  show thesis
  proof (cases g)
    case (Inl e)
    then have "result = Inl e" and "w' = w1"
      using assms g by (simp_all add: forward_http3_request_def)
    then show thesis using g Inl no_session [of e] by simp
  next
    case (Inr u)
    obtain s w2 where s: "h3_send lib io uri target method hs body w1 = (s, w2)" by fastforce
    show thesis
    proof (cases s)
      case (Inl e)
      then show thesis using assms g Inr s failed by (auto simp: forward_http3_request_def)
    next
      case sent: (Inr p)
      obtain status resp_hs where p: "p = (status, resp_hs)" by fastforce
      note run = assms [unfolded forward_http3_request_def g Inr prod.case sum.case s sent p]
      show thesis
      proof (cases "h3_recv_body io uri [] w2")
        case None
        then show thesis using run by simp
      next
        case (Some y)
        obtain b w3 where y: "y = (b, w3)" by fastforce
        show thesis
        proof (cases b)
          case (Inl e)
          then show thesis using run Some y failed [of e w3] by simp
        next
          case body: (Inr resp)
          show thesis
          proof (cases "check_h3_response lib uri status resp_hs resp")
            case (Inl e)
            then show thesis using run Some y body failed [of e w3] by simp
          next
            case (Inr rn)
            then show thesis
              using run Some y body s sent p answered [of "fst rn" "snd rn" w1 status resp_hs w2 resp] by simp
          qed
        qed
      qed
    qed
  qed
qed

lemma forward_http3_success:
  assumes "forward_http3_request lib io uri target port method hs body w = Some (Inr (r, n), w')"
  shows "length (resp_body r) \<le> 65535" and "is_success (resp_status r) \<Longrightarrow> dns_answer lib r"
proof -
  from assms obtain status resp_hs resp w2 where
      c: "h3_recv_body io uri [] w2 = Some (Inr resp, w')"
        "check_h3_response lib uri status resp_hs resp = Inr (r, n)"
    by (rule forward_http3_cases) auto
  have "length resp \<le> max_dns_message_size"
    using h3_recv_body_bounded [OF c(1)] by simp
  then show "length (resp_body r) \<le> 65535"
    using check_h3_response_Inr(1) [OF c(2)] by (simp add: max_dns_message_size_def)
  show "is_success (resp_status r) \<Longrightarrow> dns_answer lib r"
    using check_h3_response_Inr [OF c(2)] by simp
qed

subsection \<open>Errors of a request\<close>

lemma h3_record_Inl:
  "h3_record elapsed received uri result m = (Inl e, m') \<Longrightarrow> \<exists>r. e = Upstream r"
  by (auto simp: h3_record_def Let_def split: sum.splits prod.splits)

lemma h3_request_body_error:
  "h3_request_body io body w = Some (Inl e, w') \<Longrightarrow> \<not> (\<exists>u p. e = Overloaded u p)"
proof -
  let ?P = "\<lambda>io body w (y :: (dns_proxy_error + bytes option) \<times> 'a). \<forall>e. fst y = Inl e \<longrightarrow> \<not> (\<exists>u p. e = Overloaded u p)"
  assume run: "h3_request_body io body w = Some (Inl e, w')"
  have "?P io body w (Inl e, w')"
  proof (rule h3_request_body.raw_induct [of ?P, OF _ run])
    fix recv and io :: "'a h3_server_io" and body w and y :: "(dns_proxy_error + bytes option) \<times> 'a"
    assume IH: "\<And>io body w y. recv io body w = Some y \<Longrightarrow> ?P io body w y"
      and step: "(case hs_recv_data io w of
        (None, w1) \<Rightarrow> Some (Inr None, w1)
      | (Some Elapsed, w1) \<Rightarrow> Some (Inl (Timeout ''DoH3 request body''), w1)
      | (Some (Done (Inl e)), w1) \<Rightarrow> Some (Inl (Protocol (''Failed to read DoH3 request body: '' @ e)), w1)
      | (Some (Done (Inr None)), w1) \<Rightarrow> Some (Inr (Some body), w1)
      | (Some (Done (Inr (Some chunk))), w1) \<Rightarrow>
          if max_dns_message_size < length body + buf_remaining chunk
          then Some (Inl (InvalidInput ''DoH3 POST body exceeds the DNS message limit''), w1)
          else recv io (body @ concat chunk) w1) = Some y"
    show "?P io body w y"
    proof (cases "\<exists>chunk w1. hs_recv_data io w = (Some (Done (Inr (Some chunk))), w1)
        \<and> \<not> max_dns_message_size < length body + buf_remaining chunk")
      case False
      then show ?thesis
        using step by (auto split: timed.splits sum.splits option.splits prod.splits if_splits)
    next
      case True
      then obtain chunk w1 where "recv io (body @ concat chunk) w1 = Some y" using step by auto
      then show ?thesis by (rule IH)
    qed
  qed
  then show ?thesis by simp
qed

lemma timed_io_Inl:
  "timed_io el f op w = (Inl e, w') \<Longrightarrow> e = el \<or> (\<exists>x. e = f x)"
  by (auto simp: timed_io_def split: prod.splits timed.splits sum.splits)

lemma h3_respond_error:
  "h3_respond io r w = (Inl e, w') \<Longrightarrow> \<not> (\<exists>u p. e = Overloaded u p)"
  unfolding h3_respond_def bind_io_def
  by (auto split: prod.splits sum.splits dest!: timed_io_Inl)

lemma process_request_error:
  assumes "process_request lib up io rw endpoint path sni elapsed req m w = Some (Inl e, m', w')"
  shows "\<not> (\<exists>u p. e = Overloaded u p)"
proof (cases "doh3_guards lib rw path sni req")
  case (Inl err)
  then show ?thesis using assms doh3_guards_error [OF Inl] by (auto simp: process_request_def)
next
  case (Inr result)
  then show ?thesis
    using assms
    by (auto simp: process_request_def Let_def map_err_def
        split: option.splits sum.splits prod.splits if_splits
        dest: h3_request_body_error h3_record_Inl h3_respond_error)
qed

lemma h3_error_status_503: "h3_error_status err = 503 \<Longrightarrow> \<exists>u p. err = Overloaded u p"
  by (cases err) (auto simp: h3_error_status_def Let_def split: if_splits)

lemma contains_str_append: "contains_str p q \<Longrightarrow> contains_str (a @ p @ b) q"
  unfolding contains_str_iff by (metis append.assoc)

lemma short_message_413:
  "h3_error_status (InvalidInput ''DoH3 GET dns query parameter must contain one DNS message between 12 and 65535 bytes'') = 413"
  by code_simp

end
