(* ===== verification/Props_Http.thy ===== *)
theory Props_Http
  imports Doh_Correct Doh3_Correct
begin

section \<open>Properties of DoH and DoH3\<close>

text \<open>
  What is accepted, what is sent upstream, what is answered and what is counted, for the two
  HTTP front ends. The sample environment scripts what a client sends and an upstream answers.
\<close>

subsection \<open>A scripted exchange\<close>

type_synonym scripted_body = "body_frame list \<times> stream_end"

fun next_scripted :: "scripted_body \<Rightarrow> (string + body_frame) option timed \<times> scripted_body" where
  "next_scripted (f # fs, e) = (Done (Some (Inr f)), (fs, e))"
| "next_scripted ([], AtFin) = (Done None, ([], AtFin))"
| "next_scripted ([], AtReset msg) = (Done (Some (Inl msg)), ([], AtReset msg))"
| "next_scripted ([], Silent) = (Elapsed, ([], Silent))"

record http_script =
  hw_request :: scripted_body
  hw_response :: scripted_body

definition script_http_io :: "bool \<Rightarrow> (string + nat \<times> headers) timed \<Rightarrow> (nat, http_script) doh_io" where
  "script_http_io guard outcome =
     \<lparr>dh_request_frame = (\<lambda>w. case next_scripted (hw_request w) of (r, b) \<Rightarrow> (r, w\<lparr>hw_request := b\<rparr>)),
      dh_iter_guard = guard,
      dh_send = (\<lambda>_ _ w. (outcome, w)),
      dh_response_frame = (\<lambda>w. case next_scripted (hw_response w) of (r, b) \<Rightarrow> (r, w\<lparr>hw_response := b\<rparr>))\<rparr>"

lemma next_scripted_frames:
  "fst b = f # fs \<Longrightarrow> next_scripted b = (Done (Some (Inr f)), (fs, snd b))"
  "fst b = [] \<Longrightarrow> fst (next_scripted b)
     = (case snd b of AtFin \<Rightarrow> Done None | AtReset msg \<Rightarrow> Done (Some (Inl msg)) | Silent \<Rightarrow> Elapsed)"
  by (cases b rule: next_scripted.cases; simp)+

lemma script_frames_law:
  "frames_law (dh_request_frame (script_http_io guard outcome)) hw_request"
  "frames_law (dh_response_frame (script_http_io guard outcome)) hw_response"
  unfolding frames_law_def script_http_io_def
  by (auto simp: next_scripted_frames split: prod.split) (metis fst_conv next_scripted_frames(2) snd_conv)+

text \<open>A library that takes header values and authorities as they are and knows one base64 text.\<close>

definition sample_message :: bytes where
  "sample_message = [0, 0, 1, 0, 0, 1, 0, 0, 0, 0, 0, 0]"

definition sample_lib :: http_lib where
  "sample_lib =
     \<lparr>hl_to_str = Some, hl_authority_host = Some,
      hl_decode_base64url = (\<lambda>s. if s = ''AAABAAABAAAAAAAA'' then Some sample_message
                               else if s = ''AAAB'' then Some [0, 0, 1] else None),
      hl_header_value = Inr, hl_uri_ok = (\<lambda>_. None)\<rparr>"

definition sample_rw :: base_sni_rewriter where
  "sample_rw = create_rewriter \<lparr>base_domains = [''example.org''], target_suffix = ''.example.cn''\<rparr>"

definition sample_request :: "http_method \<Rightarrow> string \<Rightarrow> http_request" where
  "sample_request method query =
     \<lparr>req_method = method, req_path = ''/dns-query'', req_query = Some query,
      req_authority = None, req_uri = ''/dns-query'',
      req_headers = [(''host'', ''a.example.org''), (''cookie'', ''secret''),
                     (''content-type'', ''application/dns-message'')]\<rparr>"

definition good_query :: string where
  "good_query = ''ct&dns=AAABAAABAAAAAAAA''"

definition sample_result :: rewrite_result where
  "sample_result = \<lparr>rr_original = ''a.example.org'', rr_prefix = ''a'', rr_target_hostname = ''a.example.cn''\<rparr>"

lemma sample_host: "normalize_hostname sample_lib ''a.example.org'' = Some ''a.example.org''"
  by code_simp

lemma sample_rewrite: "rewrite sample_rw ''a.example.org'' = Some sample_result"
  by code_simp

lemma sample_media_type: "is_dns_message_content_type (Some ''application/dns-message'')"
  by code_simp

lemma sample_dns_parameter: "dns_parameter good_query = Some ''AAABAAABAAAAAAAA''"
  by code_simp

lemma sample_lib_simps [simp]:
  "hl_to_str sample_lib v = Some v" "hl_header_value sample_lib v = Inr v" "hl_uri_ok sample_lib v = None"
  "hl_decode_base64url sample_lib ''AAABAAABAAAAAAAA'' = Some sample_message"
  "hl_decode_base64url sample_lib ''AAAB'' = Some [0, 0, 1]"
  by (simp_all add: sample_lib_def)

lemma sample_request_simps [simp]:
  "req_method (sample_request method query) = method"
  "req_path (sample_request method query) = ''/dns-query''"
  "req_query (sample_request method query) = Some query"
  "request_host sample_lib (sample_request method query) = Some ''a.example.org''"
  "header_str sample_lib (req_headers (sample_request method query)) ''content-type''
     = Some ''application/dns-message''"
  by (simp_all add: sample_request_def request_host_def header_str_def)

lemma length_sample_message [simp]: "length sample_message = 12"
  by (simp add: sample_message_def)

lemma sample_guards:
  "doh_guards sample_lib sample_rw ''/dns-query'' ''a.example.org'' (sample_request GET good_query) = Inr sample_result"
  "doh_guards sample_lib sample_rw ''/dns-query'' ''a.example.org'' (sample_request POST query) = Inr sample_result"
  by (simp_all add: doh_guards_Inr_iff sample_host sample_rewrite sample_media_type
      validate_doh_get_query_iff sample_dns_parameter)

definition sample_doh_state :: "nat doh_state" where
  "sample_doh_state =
     \<lparr>ds_metrics = metrics_new, ds_pool = with_max_clients_and_root_store [] 1 []\<rparr>"

definition full_doh_state :: "nat doh_state" where
  "full_doh_state = sample_doh_state\<lparr>ds_pool := (ds_pool sample_doh_state)\<lparr>hp_clients :=
     [(''b.example.cn'', create_client 0 (ds_pool sample_doh_state))]\<rparr>\<rparr>"

definition sample_endpoint :: http_upstream_config where
  "sample_endpoint = \<lparr>hu_port = 443, hu_path = ''/dns-query''\<rparr>"

definition sample_head :: "(string + nat \<times> headers) timed" where
  "sample_head = Done (Inr (200, [(''content-type'', ''application/dns-message''), (''age'', ''3'')]))"

definition sample_http_script :: http_script where
  "sample_http_script =
     \<lparr>hw_request = ([], AtFin),
      hw_response = ([DataFrame (take 5 sample_message), TrailersFrame, DataFrame (drop 5 sample_message)], AtFin)\<rparr>"

lemma sample_client:
  "get_client guard 0 ''a.example.cn'' (ds_pool sample_doh_state) =
     Some (create_client 0 (ds_pool sample_doh_state),
           (ds_pool sample_doh_state)\<lparr>hp_clients := [(''a.example.cn'', create_client 0 (ds_pool sample_doh_state))]\<rparr>)"
  by (simp add: get_client_def evict_first_def or_insert_def sample_doh_state_def
      with_max_clients_and_root_store_def connection_pool_new_def with_config_def Let_def)

lemma sample_built:
  "build_upstream_request sample_lib uri ''a.example.cn'' method hs body
     = Inr \<lparr>ob_method = method, ob_uri = uri,
            ob_headers = AList.update ''host'' ''a.example.cn'' (forwarded_headers hs), ob_body = body\<rparr>"
  by (simp add: build_upstream_request_def)

lemma sample_answer:
  "upstream_answer sample_lib tt sample_head (hw_response sample_http_script)
     = \<lparr>resp_status = 200, resp_headers = [(''content-type'', ''application/dns-message''), (''age'', ''3'')],
        resp_body = sample_message\<rparr>"
proof -
  have "dns_answer sample_lib \<lparr>resp_status = 200, resp_headers = [(''content-type'', ''application/dns-message''),
      (''age'', ''3'')], resp_body = sample_message\<rparr>"
    by (simp add: dns_answer_def header_str_def sample_media_type)
  moreover have "concat (map frame_data (fst (hw_response sample_http_script))) = sample_message"
    by (simp add: sample_http_script_def)
  ultimately show ?thesis
    by (simp add: upstream_answer_def sample_head_def sample_http_script_def Let_def)
qed

subsection \<open>DoH\<close>

text \<open>
  C9 A successful DoH answer is a DNS message: whatever the upstream and the client do, a
  response with a 2xx status has a body of 12 to 65535 bytes under the media type
  \<open>application/dns-message\<close>.
\<close>

theorem doh_success_is_dns_message:
  assumes h: "handle_http_request lib io tt rw endpoint path sni ident elapsed req st w = Some (r, st', w')"
    and ok: "200 \<le> resp_status r \<and> resp_status r < 300"
  shows "12 \<le> length (resp_body r) \<and> length (resp_body r) \<le> 65535
    \<and> is_dns_message_content_type (header_str lib (resp_headers r) ''content-type'')"
proof -
  have ok: "is_success (resp_status r)" using ok by (simp add: is_success_def)
  have inner: "handle_http_request_inner lib io tt rw endpoint path sni ident elapsed req st w = Some (Inr r, st', w')"
    using h ok doh_error_response_not_success
    by (auto simp: handle_http_request_def split: option.splits sum.splits prod.splits)
  then obtain client uri target body w1 n w2 where
    "forward_http_request lib io tt client uri target (req_method req) (req_headers req) body w1
       = Some (Inr (r, n), w2)"
    by (auto simp: handle_http_request_inner_def Let_def
        split: sum.splits option.splits prod.splits dest!: doh_record_Inr)
  from forward_http_request_success [OF this ok] show ?thesis by (simp add: dns_answer_def)
qed

lemma sample_handled:
  "\<exists>st' w'. handle_http_request sample_lib (script_http_io True sample_head) ''5s'' sample_rw sample_endpoint
      ''/dns-query'' ''a.example.org'' 0 9 (sample_request GET good_query) sample_doh_state sample_http_script
    = Some (\<lparr>resp_status = 200, resp_headers = [(''content-type'', ''application/dns-message''), (''age'', ''3'')],
             resp_body = sample_message\<rparr>, st', w')"
proof -
  have body: "doh_request_body (script_http_io True sample_head) (req_method (sample_request GET good_query))
      sample_http_script = Some (Inr [], sample_http_script)"
    by (simp add: doh_request_body_def)
  have client: "get_client (dh_iter_guard (script_http_io True sample_head)) 0 (rr_target_hostname sample_result)
      (ds_pool sample_doh_state) = Some (create_client 0 (ds_pool sample_doh_state),
        (ds_pool sample_doh_state)\<lparr>hp_clients := [(''a.example.cn'', create_client 0 (ds_pool sample_doh_state))]\<rparr>)"
    using sample_client by (simp add: sample_result_def)
  have sent: "dh_send (script_http_io True sample_head) c rq w = (sample_head, w)" for c rq w
    by (simp add: script_http_io_def)
  have target: "rr_target_hostname sample_result = ''a.example.cn''"
    by (simp add: sample_result_def)
  have built: "build_upstream_request sample_lib uri (rr_target_hostname sample_result) verb hs body
     = Inr \<lparr>ob_method = verb, ob_uri = uri,
            ob_headers = AList.update ''host'' ''a.example.cn'' (forwarded_headers hs), ob_body = body\<rparr>"
    for uri verb hs body
    unfolding target by (rule sample_built)
  from handle_http_request_answer [where tt = "''5s''" and elapsed = 9 and endpoint = sample_endpoint,
      OF sample_guards(1) body client refl built sent script_frames_law(2)]
  show ?thesis unfolding sample_answer by blast
qed

theorem doh_success_is_dns_message_witness:
  "\<exists>r st' w'. handle_http_request sample_lib (script_http_io True sample_head) ''5s'' sample_rw sample_endpoint
      ''/dns-query'' ''a.example.org'' 0 9 (sample_request GET good_query) sample_doh_state sample_http_script
        = Some (r, st', w') \<and> 12 \<le> length (resp_body r)"
proof -
  obtain st' w' where h: "handle_http_request sample_lib (script_http_io True sample_head) ''5s'' sample_rw
      sample_endpoint ''/dns-query'' ''a.example.org'' 0 9 (sample_request GET good_query) sample_doh_state
      sample_http_script
    = Some (\<lparr>resp_status = 200, resp_headers = [(''content-type'', ''application/dns-message''), (''age'', ''3'')],
             resp_body = sample_message\<rparr>, st', w')"
    using sample_handled by blast
  show ?thesis using doh_success_is_dns_message [OF h] h by auto
qed


text \<open>
  C8 The whole exchange: a request that passes the guards and whose body is accepted is answered
  as \<open>upstream_answer\<close> says, for every outcome of the upstream request and every response body,
  in whatever frames it comes and however it ends: an acceptable response is passed on
  unchanged, a timeout is 504, a failure or an unacceptable response is 502. It is counted once.
\<close>

theorem doh_exchange_answer:
  assumes "doh_guards lib rw path sni req = Inr result"
    and "doh_request_body io (req_method req) w = Some (Inr body, w1)"
    and "get_client (dh_iter_guard io) ident (rr_target_hostname result) (ds_pool st) = Some (client, pool)"
    and "build_upstream_request lib
           (upstream_uri (rr_target_hostname result) (hu_port endpoint) (hu_path endpoint) (req_query req))
           (rr_target_hostname result) (req_method req) (req_headers req) body = Inr rq"
    and "dh_send io client rq w1 = (outcome, w2)" and "frames_law (dh_response_frame io) frames"
  shows "\<exists>st' w'. handle_http_request lib io tt rw endpoint path sni ident elapsed req st w
      = Some (upstream_answer lib tt outcome (frames w2), st', w')
    \<and> ds_pool st' = pool \<and> total_requests (ds_metrics st') = total_requests (ds_metrics st) + 1"
  by (rule handle_http_request_answer [OF assms(1,2,3) refl assms(4,5,6)])

theorem doh_exchange_answer_witness:
  "\<exists>st' w'. handle_http_request sample_lib (script_http_io False Elapsed) ''5s'' sample_rw sample_endpoint
      ''/dns-query'' ''a.example.org'' 0 9 (sample_request GET good_query) sample_doh_state sample_http_script
    = Some (\<lparr>resp_status = 504, resp_headers = [], resp_body = bytes_of ''Upstream timeout after 5s''\<rparr>, st', w')"
proof -
  let ?io = "script_http_io False Elapsed"
  have body: "doh_request_body ?io (req_method (sample_request GET good_query)) sample_http_script
      = Some (Inr [], sample_http_script)"
    by (simp add: doh_request_body_def)
  have sent: "dh_send ?io c rq w = (Elapsed, w)" for c rq w by (simp add: script_http_io_def)
  have target: "rr_target_hostname sample_result = ''a.example.cn''" by (simp add: sample_result_def)
  have answer: "upstream_answer sample_lib ''5s'' Elapsed b
      = \<lparr>resp_status = 504, resp_headers = [], resp_body = bytes_of ''Upstream timeout after 5s''\<rparr>" for b
    by (simp add: upstream_answer_def)
  show ?thesis
    using doh_exchange_answer [where tt = "''5s''" and elapsed = 9 and endpoint = sample_endpoint,
        OF sample_guards(1) body, unfolded target, OF sample_client sample_built sent script_frames_law(2)]
    unfolding answer by blast
qed

text \<open>
  A full pool of HTTP clients blocks DoH: if a live iterator of the client map excludes a
  removal, a request for a target the pool does not hold is never answered once the pool is full,
  although the request itself is acceptable.
\<close>

lemma doh_full_pool_never_answers:
  assumes "dh_iter_guard io" and "doh_guards lib rw path sni req = Inr result"
    and "doh_request_body io (req_method req) w = Some (Inr body, w1)"
    and "hp_clients (ds_pool st) \<noteq> []" and "hp_max_clients (ds_pool st) \<le> length (hp_clients (ds_pool st))"
    and "rr_target_hostname result \<notin> fst ` set (hp_clients (ds_pool st))"
  shows "handle_http_request lib io tt rw endpoint path sni ident elapsed req st w = None"
proof -
  have "get_client (dh_iter_guard io) ident (rr_target_hostname result) (ds_pool st) = None"
    using get_client_returns_iff [of "dh_iter_guard io" ident "rr_target_hostname result" "ds_pool st"] assms
    by (auto simp: not_less)
  then show ?thesis
    using assms(2,3) by (simp add: handle_http_request_def handle_http_request_inner_def Let_def)
qed

text \<open>
  A body is collected up to the DNS message limit: the data of the frames in order, an error
  when they exceed 65535 bytes, however they are cut, when the stream is reset or when it stalls.
\<close>

lemma body_collection:
  assumes "frames_law next_frame frames" and "frames w = (fs, e)"
  shows "\<exists>w'. collect_body_with_progress next_frame operation [] w =
     Some ((let body = concat (map frame_data fs) in
            if 65535 < length body then Inl (TooLarge operation)
            else case e of AtFin \<Rightarrow> Inr body
              | AtReset msg \<Rightarrow> Inl (BodyRead operation msg)
              | Silent \<Rightarrow> Inl (Stalled operation)), w')"
  using collect_body_spec [OF assms, of "[]" operation]
  by (simp add: body_outcome_def max_dns_message_size_def Let_def)

text \<open>
  C33 What goes upstream: the request has the client's method and body and the built URI, its
  host is the rewritten target, and of the client's headers only \<open>accept\<close> and \<open>content-type\<close>
  cross, the last of repeated ones; DoH3 sends the same headers.
\<close>

theorem upstream_request_contents:
  assumes "build_upstream_request lib uri target method hs body = Inr rq"
  shows "ob_method rq = method \<and> ob_uri rq = uri \<and> ob_body rq = body
    \<and> (\<forall>k v. map_of (ob_headers rq) k = Some v \<longleftrightarrow>
         k = ''host'' \<and> hl_header_value lib target = Inr v
         \<or> k \<in> {''accept'', ''content-type''} \<and> map_of (rev hs) k = Some v)
    \<and> build_h3_headers lib uri target hs = Inr (ob_headers rq)"
proof -
  have "map_of (ob_headers rq) k = Some v \<longleftrightarrow>
         k = ''host'' \<and> hl_header_value lib target = Inr v
         \<or> k \<in> {''accept'', ''content-type''} \<and> map_of (rev hs) k = Some v" for k v
    using build_upstream_request_Inr(4) [OF assms] build_upstream_request_Inr(5) [OF assms, of k] assms
    by (cases "k = ''host''") (auto simp: build_upstream_request_def split: sum.splits option.splits if_splits)
  moreover have "build_h3_headers lib uri target hs = Inr (ob_headers rq)"
    using assms by (auto simp: build_upstream_request_def build_h3_headers_def map_err_def
        split: sum.splits option.splits)
  ultimately show ?thesis
    using build_upstream_request_Inr(1-3) [OF assms] by simp
qed

theorem upstream_request_contents_witness:
  "map_of (AList.update ''host'' ''a.example.cn''
     (forwarded_headers (req_headers (sample_request GET good_query)))) ''cookie'' = None"
  using upstream_request_contents [OF sample_built [of "''https://a.example.cn''" GET
        "req_headers (sample_request GET good_query)" "[]"]]
  by (cases "map_of (AList.update ''host'' ''a.example.cn''
     (forwarded_headers (req_headers (sample_request GET good_query)))) ''cookie''") auto



subsection \<open>DoH3\<close>

text \<open>
  C35 DoH3 lets through the same requests as DoH, with the same target: it only lowers the case of
  the TLS name itself, which DoH's listener has done before.
\<close>

theorem doh3_accepts_same_requests:
  "doh3_guards lib rw request_path tls_sni req = Inr result \<longleftrightarrow>
     doh_guards lib rw request_path (to_ascii_lowercase tls_sni) req = Inr result"
  by (rule doh3_guards_Inr_iff)

text \<open>A scripted HTTP/3 upstream that counts the invalidations of its session.\<close>

record h3_script =
  hx_chunks :: "buf list"
  hx_invalidated :: nat

definition script_h3_io :: "nat \<times> headers \<Rightarrow> h3_script h3_client_io" where
  "script_h3_io head =
     \<lparr>hc_get = (\<lambda>_ _ w. (Done (Inr ()), w)),
      hc_invalidate = (\<lambda>_ _ w. w\<lparr>hx_invalidated := Suc (hx_invalidated w)\<rparr>),
      hc_send_request = (\<lambda>_ _ _ w. (Done (Inr ()), w)),
      hc_send_data = (\<lambda>_ w. (Done (Inr ()), w)),
      hc_finish = (\<lambda>w. (Done (Inr ()), w)),
      hc_recv_response = (\<lambda>w. (Done (Inr head), w)),
      hc_recv_data = (\<lambda>w. case hx_chunks w of [] \<Rightarrow> (Done (Inr None), w)
                        | c # cs \<Rightarrow> (Done (Inr (Some c)), w\<lparr>hx_chunks := cs\<rparr>))\<rparr>"

definition dns_head :: "nat \<times> headers" where
  "dns_head = (200, [(''content-type'', ''application/dns-message'')])"

definition text_head :: "nat \<times> headers" where
  "text_head = (200, [(''content-type'', ''text/plain'')])"

definition one_chunk :: h3_script where
  "one_chunk = \<lparr>hx_chunks = [[sample_message]], hx_invalidated = 0\<rparr>"

lemma script_h3_body:
  "h3_recv_body (script_h3_io head) uri [] one_chunk = Some (Inr sample_message, one_chunk\<lparr>hx_chunks := []\<rparr>)"
proof -
  have last: "h3_recv_body (script_h3_io head) uri b w = Some (Inr b, w)" if "hx_chunks w = []" for b w
    using that by (subst h3_recv_body.simps) (simp add: script_h3_io_def)
  have recv: "hc_recv_data (script_h3_io head) one_chunk
      = (Done (Inr (Some [sample_message])), one_chunk\<lparr>hx_chunks := []\<rparr>)"
    by (simp add: script_h3_io_def one_chunk_def)
  show ?thesis
    by (subst h3_recv_body.simps)
       (simp add: recv last buf_remaining_def max_dns_message_size_def)
qed

lemma script_h3_sent:
  "h3_send sample_lib (script_h3_io head) uri ''a.example.cn'' GET hs [] w = (Inr head, w)"
  by (simp add: h3_send_def build_h3_headers_def map_err_def script_h3_io_def bind_io_def timed_io_def)

lemma script_h3_forwarded:
  "forward_http3_request sample_lib (script_h3_io head) uri ''a.example.cn'' 443 GET hs [] one_chunk
     = (case check_h3_response sample_lib uri (fst head) (snd head) sample_message of
          Inl e \<Rightarrow> Some (Inl e, hc_invalidate (script_h3_io head) ''a.example.cn'' 443 (one_chunk\<lparr>hx_chunks := []\<rparr>))
        | Inr r \<Rightarrow> Some (Inr r, one_chunk\<lparr>hx_chunks := []\<rparr>))"
proof -
  have "timed_io el f (hc_get (script_h3_io head) ''a.example.cn'' 443) one_chunk = (Inr (), one_chunk)"
    for el :: dns_proxy_error and f
    by (simp add: timed_io_def script_h3_io_def)
  then show ?thesis
    by (simp add: forward_http3_request_def script_h3_sent script_h3_body split: prod.split)
qed

lemma text_media_type: "\<not> is_dns_message_content_type (Some ''text/plain'')"
  by code_simp

lemma script_h3_checks:
  "check_h3_response sample_lib uri (fst dns_head) (snd dns_head) sample_message
     = Inr (\<lparr>resp_status = 200, resp_headers = snd dns_head, resp_body = sample_message\<rparr>, 12)"
  "check_h3_response sample_lib uri (fst text_head) (snd text_head) sample_message
     = Inl (Upstream (RequestFailed uri ''HTTP/3 upstream returned a successful non-DNS response''))"
  by (simp_all add: check_h3_response_def dns_head_def text_head_def is_success_def header_str_def
      sample_media_type text_media_type ensure_def validate_dns_message_def max_dns_message_size_def map_err_def)

text \<open>
  C36 What DoH3 passes on is bounded: an upstream response that \<open>forward_http3_request\<close> returns has
  at most 65535 bytes of body, and with a 2xx status it is a DNS message under its media type.
\<close>

theorem doh3_response_bounded:
  assumes "forward_http3_request lib io uri target port method hs body w = Some (Inr (r, n), w')"
  shows "length (resp_body r) \<le> 65535
    \<and> (is_success (resp_status r) \<longrightarrow> 12 \<le> length (resp_body r)
         \<and> is_dns_message_content_type (header_str lib (resp_headers r) ''content-type''))"
  using forward_http3_success [OF assms] by (simp add: dns_answer_def)

theorem doh3_response_bounded_witness:
  "\<exists>r n w'. forward_http3_request sample_lib (script_h3_io dns_head) ''u'' ''a.example.cn'' 443 GET [] [] one_chunk
     = Some (Inr (r, n), w') \<and> is_success (resp_status r) \<and> 12 \<le> length (resp_body r)"
proof -
  have f: "forward_http3_request sample_lib (script_h3_io dns_head) ''u'' ''a.example.cn'' 443 GET [] [] one_chunk
     = Some (Inr (\<lparr>resp_status = 200, resp_headers = snd dns_head, resp_body = sample_message\<rparr>, 12),
             one_chunk\<lparr>hx_chunks := []\<rparr>)"
    by (simp add: script_h3_forwarded script_h3_checks)
  show ?thesis using doh3_response_bounded [OF f] f by (auto simp: is_success_def)
qed

text \<open>
  A failed exchange costs the session: once a session was obtained, every failure, also an
  answer that is no DNS message on a healthy connection, ends with the removal of the session
  cached for the target; only a failure to get a session leaves the pool alone.
\<close>

lemma doh3_failure_invalidates_session:
  assumes "forward_http3_request lib io uri target port method hs body w = Some (Inl e, w')"
  shows "timed_io (Timeout (host_port target port)) (\<lambda>e. e) (hc_get io target port) w = (Inl e, w')
    \<or> (\<exists>w2. w' = hc_invalidate io target port w2)"
  using assms by (rule forward_http3_cases) auto

text \<open>
  What DoH3 keeps of an upstream body that comes as the chunks \<open>cs\<close>: of every chunk the first
  contiguous segment. That is the whole body when every chunk is one segment; the rest of a
  chunk of several segments is counted against the limit and dropped.
\<close>

lemma doh3_body_first_segments:
  assumes "h3_chunks_law io chunks" and "chunks w = cs" and "length (concat (map concat cs)) \<le> 65535"
  shows "(\<exists>w'. h3_recv_body io uri [] w = Some (Inr (concat (map buf_chunk cs)), w'))
    \<and> ((\<forall>c \<in> set cs. \<exists>s. c = [s]) \<longrightarrow> concat (map buf_chunk cs) = concat (map concat cs))"
proof
  show "\<exists>w'. h3_recv_body io uri [] w = Some (Inr (concat (map buf_chunk cs)), w')"
    using h3_recv_body_chunks [OF assms(1,2), of "[]" uri] assms(3) by (simp add: max_dns_message_size_def)
  show "(\<forall>c \<in> set cs. \<exists>s. c = [s]) \<longrightarrow> concat (map buf_chunk cs) = concat (map concat cs)"
    by (induction cs) auto
qed

text \<open>Seven of twelve bytes are lost when the message arrives in two segments of one chunk.\<close>


definition refused_io :: "unit h3_server_io" where
  "refused_io = \<lparr>hs_recv_data = (\<lambda>w. (None, w)), hs_cancel_forward = (\<lambda>_. None),
     hs_send_response = (\<lambda>_ w. (Done (Inr ()), w)), hs_send_data = (\<lambda>_ w. (Done (Inr ()), w)),
     hs_finish = (\<lambda>w. (Done (Inr ()), w))\<rparr>"

definition overloaded_upstream :: "unit h3_client_io" where
  "overloaded_upstream = \<lparr>hc_get = (\<lambda>h p w. (Done (Inl (Overloaded (host_port h p) ''HTTP/3'')), w)),
     hc_invalidate = (\<lambda>_ _ w. w), hc_send_request = (\<lambda>_ _ _ w. (Elapsed, w)),
     hc_send_data = (\<lambda>_ w. (Elapsed, w)), hc_finish = (\<lambda>w. (Elapsed, w)),
     hc_recv_response = (\<lambda>w. (Elapsed, w)), hc_recv_data = (\<lambda>w. (Elapsed, w))\<rparr>"

lemma sample_lowered: "to_ascii_lowercase ''a.example.org'' = ''a.example.org''"
  by code_simp

lemma sample_overloaded:
  "\<exists>e m' w'. process_request sample_lib overloaded_upstream refused_io sample_rw sample_endpoint ''/dns-query''
      ''a.example.org'' 0 (sample_request GET good_query) metrics_new () = Some (Inl (Upstream e), m', w')"
proof -
  have g: "doh3_guards sample_lib sample_rw ''/dns-query'' ''a.example.org'' (sample_request GET good_query)
      = Inr sample_result"
    using sample_guards(1) by (simp add: doh3_guards_Inr_iff sample_lowered)
  have f: "forward_http3_request sample_lib overloaded_upstream uri h p GET hs [] () = Some (Inl (Overloaded (host_port h p) ''HTTP/3''), ())"
    for uri h p hs
    by (simp add: forward_http3_request_def overloaded_upstream_def timed_io_def)
  have c: "hs_cancel_forward refused_io () = None" by (simp add: refused_io_def)
  show ?thesis
    using g f c by (simp add: process_request_def h3_record_def Let_def)
qed


text \<open>
  The same malformed request gets different answers: a GET whose \<open>dns\<close> parameter decodes to
  fewer than twelve bytes is a 400 for DoH and a 413 for DoH3, which reads the status off the
  text of its error.
\<close>

lemma short_message_status_differs:
  assumes "req_method req = GET" and "req_path req = path"
    and "request_host lib req = Some authority" and "normalize_hostname lib authority = Some sni"
    and "req_query req = Some query" and "dns_parameter query = Some param" and "param \<noteq> []"
    and "hl_decode_base64url lib param = Some message" and "length message < 12"
    and "to_ascii_lowercase sni = sni"
  shows "doh_guards lib rw path sni req = Inl BadRequest \<and> resp_status (doh_error_response BadRequest) = 400
    \<and> (\<exists>e. doh3_guards lib rw path sni req = Inl e \<and> resp_status (h3_error_response e) = 413)"
proof (intro conjI)
  have bad: "validate_doh_get_query lib (req_query req) p
      = Inl (p @ '' GET dns query parameter'' @ '' must contain one DNS message between 12 and 65535 bytes'')" for p
    using assms(5-9) by (simp add: validate_doh_get_query_def validate_dns_message_def ensure_def ok_or_def)
  show "doh_guards lib rw path sni req = Inl BadRequest"
    using assms(1-4) bad by (simp add: doh_guards_def ensure_def ok_or_def map_err_def)
  show "resp_status (doh_error_response BadRequest) = 400"
    by (simp add: doh_error_response_def)
  let ?e = "InvalidInput (''DoH3 GET dns query parameter must contain one DNS message between 12 and 65535 bytes'')"
  have "doh3_guards lib rw path sni req = Inl ?e"
    using assms(1-4,10) bad [of "''DoH3''"] by (simp add: doh3_guards_def ensure_def ok_or_def map_err_def)
  moreover have "h3_error_status ?e = 413"
    by (rule short_message_413)
  ultimately show "\<exists>e. doh3_guards lib rw path sni req = Inl e \<and> resp_status (h3_error_response e) = 413"
    by (auto simp: h3_error_response_def)
qed

lemma short_dns_parameter: "dns_parameter ''dns=AAAB'' = Some ''AAAB''"
  by code_simp

end
