(* ===== verification/Dot.thy ===== *)
theory Dot
  imports Rewriter Metrics Streams
begin

section \<open>DoT connections (\<open>src/readers/dot.rs\<close>)\<close>

text \<open>
  A DoT connection is relayed byte for byte in both directions. \<open>relay_direction\<close> is one
  direction; \<open>tokio::try_join!\<close> polls both until both are done or one fails. Every await of the
  loop is a step of its own, also each of the writes \<open>write_all\<close> makes, so a direction can stand
  between a read and the end of its write when the other one fails; the model takes the order of
  the steps as a schedule. Sockets and TLS are the parameter \<open>dot_io\<close>; a read returns at most
  \<open>16 * 1024\<close> bytes, none at the end.
\<close>

datatype relay_dir = ToUpstream | ToClient

record 'w dot_io =
  dio_connect :: "string \<Rightarrow> u16 \<Rightarrow> 'w \<Rightarrow> (string + unit) timed \<times> 'w"
  dio_server_name :: "string \<Rightarrow> string + unit"
  dio_tls_connect :: "string \<Rightarrow> 'w \<Rightarrow> (string + unit) timed \<times> 'w"
  dio_read :: "relay_dir \<Rightarrow> 'w \<Rightarrow> (string + bytes) timed \<times> 'w"
  dio_write :: "relay_dir \<Rightarrow> bytes \<Rightarrow> 'w \<Rightarrow> (string + nat) timed \<times> 'w"   \<comment> \<open>one write of some of the bytes\<close>
  dio_shutdown :: "relay_dir \<Rightarrow> 'w \<Rightarrow> (string + unit) timed \<times> 'w"

subsection \<open>One direction\<close>

text \<open>
  Where the loop stands, with the bytes relayed so far: before the read, in \<open>write_all\<close> with the
  size of what was read and the part of it that is not written yet, in \<open>shutdown\<close>, or returned.
\<close>

datatype half =
    Running u64
  | Writing u64 nat bytes
  | HalfClosing u64
  | Finished u64

text \<open>One await of the loop.\<close>

fun relay_step ::
    "'w dot_io \<Rightarrow> relay_dir \<Rightarrow> string \<Rightarrow> half \<Rightarrow> ('w, dns_proxy_error, half) io" where
  "relay_step io d upstream (Running tot) =
     bind_io (timed_io (Timeout upstream) Io (dio_read io d)) (\<lambda>buffer.
     return_io (if buffer = [] then HalfClosing tot else Writing tot (length buffer) buffer))"
| "relay_step io d upstream (Writing tot read rest) =
     bind_io (timed_io (Timeout upstream) Io (dio_write io d rest)) (\<lambda>n.
     if n = 0 then fail_io (Io ''write zero'')
     else return_io (if n < length rest then Writing tot read (drop n rest) else Running (tot + of_nat read)))"
| "relay_step io d upstream (HalfClosing tot) =
     bind_io (timed_io (Timeout upstream) Io (dio_shutdown io d)) (\<lambda>_. return_io (Finished tot))"
| "relay_step io d upstream (Finished tot) = return_io (Finished tot)"

declare relay_step.simps [simp del]

text \<open>A direction on its own; \<open>relay_direction\<close> of the code starts it with \<open>Running 0\<close>.\<close>

partial_function (option) relay_direction ::
    "'w dot_io \<Rightarrow> relay_dir \<Rightarrow> string \<Rightarrow> half \<Rightarrow> 'w \<Rightarrow> ((dns_proxy_error + u64) \<times> 'w) option" where
  "relay_direction io d upstream h w =
     (case relay_step io d upstream h w of
        (Inl e, w') \<Rightarrow> Some (Inl e, w')
      | (Inr h', w') \<Rightarrow>
         (case h' of Finished n \<Rightarrow> Some (Inr n, w') | _ \<Rightarrow> relay_direction io d upstream h' w'))"

text \<open>
  Both directions under \<open>try_join!\<close>: the first error ends both, wherever the other one stands;
  \<open>None\<close> when the schedule ends before they do.
\<close>

fun try_join_relay ::
    "'w dot_io \<Rightarrow> string \<Rightarrow> relay_dir list \<Rightarrow> (relay_dir \<Rightarrow> half) \<Rightarrow> 'w
     \<Rightarrow> (dns_proxy_error + u64 \<times> u64) option \<times> 'w" where
  "try_join_relay io upstream sched h w =
     (case (h ToUpstream, h ToClient) of
        (Finished a, Finished b) \<Rightarrow> (Some (Inr (a, b)), w)
      | _ \<Rightarrow>
         (case sched of
            [] \<Rightarrow> (None, w)
          | d # sched' \<Rightarrow>
             (case relay_step io d upstream (h d) w of
                (Inl e, w') \<Rightarrow> (Some (Inl e), w')
              | (Inr h', w') \<Rightarrow> try_join_relay io upstream sched' (h(d := h')) w')))"

declare try_join_relay.simps [simp del]

lemma try_join_relay_finished:
  "h ToUpstream = Finished a \<Longrightarrow> h ToClient = Finished b \<Longrightarrow>
     try_join_relay io upstream sched h w = (Some (Inr (a, b)), w)"
  by (simp add: try_join_relay.simps)

lemma try_join_relay_running:
  assumes "\<not> (\<exists>a b. h ToUpstream = Finished a \<and> h ToClient = Finished b)"
  shows "try_join_relay io upstream [] h w = (None, w)"
    and "try_join_relay io upstream (d # sched) h w =
      (case relay_step io d upstream (h d) w of
         (Inl e, w') \<Rightarrow> (Some (Inl e), w')
       | (Inr h', w') \<Rightarrow> try_join_relay io upstream sched (h(d := h')) w')"
proof -
  show "try_join_relay io upstream [] h w = (None, w)"
    using assms by (cases "h ToUpstream"; cases "h ToClient") (simp_all add: try_join_relay.simps)
  show "try_join_relay io upstream (d # sched) h w =
      (case relay_step io d upstream (h d) w of
         (Inl e, w') \<Rightarrow> (Some (Inl e), w')
       | (Inr h', w') \<Rightarrow> try_join_relay io upstream sched (h(d := h')) w')"
    using assms
    by (cases "h ToUpstream"; cases "h ToClient") (simp_all add: try_join_relay.simps [of _ _ "d # sched"])
qed

subsection \<open>The connection\<close>

text \<open>Everything before the relay: rewriting, TCP connection, server name and TLS handshake.\<close>

definition dot_connect ::
    "'w dot_io \<Rightarrow> base_sni_rewriter \<Rightarrow> string \<Rightarrow> u16 \<Rightarrow> ('w, dns_proxy_error, string) io" where
  "dot_connect io rw source_hostname upstream_port =
     (case rewrite rw source_hostname of
        None \<Rightarrow> fail_io (SniRewrite (NoMatchingBaseDomain source_hostname))
      | Some result \<Rightarrow>
         (let target = rr_target_hostname result; upstream = host_port target upstream_port in
          bind_io (timed_io (Timeout upstream)
              (\<lambda>e. Upstream (ConnectionFailed upstream (''Failed to connect: '' @ e)))
              (dio_connect io target upstream_port)) (\<lambda>_.
          case dio_server_name io target of
            Inl e \<Rightarrow> fail_io (InvalidInput (''Failed to create ServerName for upstream connection: '' @ e))
          | Inr _ \<Rightarrow>
              bind_io (timed_io (Timeout upstream)
                  (\<lambda>e. Upstream (ConnectionFailed upstream (''Failed to establish TLS connection: '' @ e)))
                  (dio_tls_connect io target)) (\<lambda>_. return_io upstream))))"

text \<open>\<open>handle_connection\<close> with the duration its timer shows; \<open>None\<close> while it is still relaying.\<close>

definition dot_handle_connection ::
    "'w dot_io \<Rightarrow> base_sni_rewriter \<Rightarrow> string \<Rightarrow> u16 \<Rightarrow> relay_dir list \<Rightarrow> nat \<Rightarrow> metrics \<Rightarrow> 'w
     \<Rightarrow> (dns_proxy_error + unit) option \<times> metrics \<times> 'w" where
  "dot_handle_connection io rw source_hostname upstream_port sched elapsed m w =
     (case dot_connect io rw source_hostname upstream_port w of
        (Inl e, w1) \<Rightarrow> (Some (Inl e), m, w1)
      | (Inr upstream, w1) \<Rightarrow>
         (case try_join_relay io upstream sched (\<lambda>_. Running 0) w1 of
            (None, w2) \<Rightarrow> (None, m, w2)
          | (Some (Inr (client_to_upstream, upstream_to_client)), w2) \<Rightarrow>
              (Some (Inr ()), record_request True client_to_upstream upstream_to_client elapsed m, w2)
          | (Some (Inl e), w2) \<Rightarrow> (Some (Inl e), record_request False 0 0 elapsed m, w2)))"

subsection \<open>Streams that deliver\<close>

text \<open>
  A read takes some of the bytes that are there, at most a buffer; at the end of the data
  it shows how the stream ended. A write delivers some of its bytes, or fails or times out and
  delivers nothing, which only a sink that is \<open>broken\<close> by then does; so does a shutdown. The
  directions do not touch each other's streams.
\<close>

definition dot_read_law :: "'w dot_io \<Rightarrow> (relay_dir \<Rightarrow> 'w \<Rightarrow> source) \<Rightarrow> bool" where
  "dot_read_law io src \<longleftrightarrow>
     (\<forall>d w data e. src d w = (data, e) \<longrightarrow>
        (if data = []
         then fst (dio_read io d w)
                = (case e of AtFin \<Rightarrow> Done (Inr []) | AtReset msg \<Rightarrow> Done (Inl msg) | Silent \<Rightarrow> Elapsed)
              \<and> src d (snd (dio_read io d w)) = (data, e)
         else \<exists>k. 0 < k \<and> k \<le> min (length data) (16 * 1024)
              \<and> fst (dio_read io d w) = Done (Inr (take k data))
              \<and> src d (snd (dio_read io d w)) = (drop k data, e)))"

definition dot_write_law ::
    "'w dot_io \<Rightarrow> (relay_dir \<Rightarrow> 'w \<Rightarrow> bytes) \<Rightarrow> (relay_dir \<Rightarrow> 'w \<Rightarrow> bool) \<Rightarrow> bool" where
  "dot_write_law io sink broken \<longleftrightarrow>
     (\<forall>d b w. b \<noteq> [] \<longrightarrow>
        (case fst (dio_write io d b w) of
           Done (Inr n) \<Rightarrow> 0 < n \<and> n \<le> length b \<and> sink d (snd (dio_write io d b w)) = sink d w @ take n b
         | _ \<Rightarrow> broken d (snd (dio_write io d b w)) \<and> sink d (snd (dio_write io d b w)) = sink d w))
     \<and> (\<forall>d w. fst (dio_shutdown io d w) = Done (Inr ()) \<or> broken d (snd (dio_shutdown io d w)))"

definition dot_law ::
    "'w dot_io \<Rightarrow> (relay_dir \<Rightarrow> 'w \<Rightarrow> source) \<Rightarrow> (relay_dir \<Rightarrow> 'w \<Rightarrow> bytes) \<Rightarrow> (relay_dir \<Rightarrow> 'w \<Rightarrow> bool) \<Rightarrow> bool" where
  "dot_law io src sink broken \<longleftrightarrow>
     dot_read_law io src \<and> dot_write_law io sink broken
     \<and> (\<forall>d d' w. sink d' (snd (dio_read io d w)) = sink d' w)
     \<and> (\<forall>d d' w. d' \<noteq> d \<longrightarrow> src d' (snd (dio_read io d w)) = src d' w)
     \<and> (\<forall>d d' b w. d' \<noteq> d \<longrightarrow> sink d' (snd (dio_write io d b w)) = sink d' w)
     \<and> (\<forall>d d' b w. src d' (snd (dio_write io d b w)) = src d' w)
     \<and> (\<forall>d d' w. sink d' (snd (dio_shutdown io d w)) = sink d' w \<and> src d' (snd (dio_shutdown io d w)) = src d' w)"

lemma dot_read_data:
  assumes "dot_law io src sink broken" and "src d w = (data, e)" and "data \<noteq> []"
  shows "\<exists>k w'. 0 < k \<and> k \<le> length data \<and> k \<le> 16 * 1024 \<and> dio_read io d w = (Done (Inr (take k data)), w')
     \<and> src d w' = (drop k data, e)"
proof -
  have "dot_read_law io src" using assms(1) by (simp add: dot_law_def)
  from this [unfolded dot_read_law_def, rule_format, OF assms(2)] assms(3)
  obtain k where "0 < k" "k \<le> min (length data) (16 * 1024)"
      "fst (dio_read io d w) = Done (Inr (take k data))" "src d (snd (dio_read io d w)) = (drop k data, e)"
    by (simp only: if_False) blast
  then show ?thesis by (intro exI [of _ k] exI [of _ "snd (dio_read io d w)"]) (simp add: prod_eq_iff)
qed

lemma dot_read_end:
  assumes "dot_law io src sink broken" and "src d w = ([], e)"
  shows "\<exists>w'. dio_read io d w
       = ((case e of AtFin \<Rightarrow> Done (Inr []) | AtReset msg \<Rightarrow> Done (Inl msg) | Silent \<Rightarrow> Elapsed), w')
     \<and> src d w' = ([], e)"
proof -
  have "dot_read_law io src" using assms(1) by (simp add: dot_law_def)
  from this [unfolded dot_read_law_def, rule_format, OF assms(2)] show ?thesis
    by (intro exI [of _ "snd (dio_read io d w)"]) (simp add: prod_eq_iff)
qed

lemma dot_write_some:
  assumes "dot_law io src sink broken" and "b \<noteq> []" and "dio_write io d b w = (Done (Inr n), w')"
  shows "0 < n" and "n \<le> length b" and "sink d w' = sink d w @ take n b"
proof -
  have "dot_write_law io sink broken" using assms(1) by (simp add: dot_law_def)
  from this [unfolded dot_write_law_def, THEN conjunct1, rule_format, OF assms(2), of d w]
  show "0 < n" "n \<le> length b" "sink d w' = sink d w @ take n b"
    by (simp_all add: assms(3))
qed

lemma dot_write_fails:
  assumes "dot_law io src sink broken" and "b \<noteq> []" and "dio_write io d b w = (r, w')" and "\<nexists>n. r = Done (Inr n)"
  shows "broken d w'" and "sink d w' = sink d w"
proof -
  have "dot_write_law io sink broken" using assms(1) by (simp add: dot_law_def)
  from this [unfolded dot_write_law_def, THEN conjunct1, rule_format, OF assms(2), of d w]
  show "broken d w'" "sink d w' = sink d w"
    using assms(3,4) by (auto split: timed.splits sum.splits)
qed

lemma dot_views:
  assumes "dot_law io src sink broken"
  shows "dio_read io d w = (r1, w1) \<Longrightarrow> sink d' w1 = sink d' w \<and> (d' \<noteq> d \<longrightarrow> src d' w1 = src d' w)"
    and "dio_write io d b w = (r2, w1) \<Longrightarrow> src d' w1 = src d' w \<and> (d' \<noteq> d \<longrightarrow> sink d' w1 = sink d' w)"
    and "dio_shutdown io d w = (r3, w1) \<Longrightarrow> sink d' w1 = sink d' w \<and> src d' w1 = src d' w
      \<and> (r3 = Done (Inr ()) \<or> broken d w1)"
  using assms unfolding dot_law_def dot_write_law_def by (metis fst_conv snd_conv)+

subsection \<open>One await\<close>

text \<open>What a direction has read and not delivered yet.\<close>

fun held :: "half \<Rightarrow> bytes" where
  "held (Writing tot read rest) = rest"
| "held _ = []"

text \<open>
  Where a direction stands after delivering \<open>n\<close> bytes: its count is what it delivered, up to the
  buffer it is writing, and it only closes at the end of its source.
\<close>

fun half_at :: "half \<Rightarrow> nat \<Rightarrow> source \<Rightarrow> bool" where
  "half_at (Running tot) n s \<longleftrightarrow> tot = of_nat n"
| "half_at (Writing tot read rest) n s \<longleftrightarrow> rest \<noteq> [] \<and> length rest \<le> read \<and> read \<le> 16 * 1024
     \<and> of_nat n = tot + of_nat (read - length rest)"
| "half_at (HalfClosing tot) n s \<longleftrightarrow> tot = of_nat n \<and> s = ([], AtFin)"
| "half_at (Finished tot) n s \<longleftrightarrow> tot = of_nat n \<and> s = ([], AtFin)"

text \<open>Delivered, held and unread bytes together are what there was.\<close>

definition half_ok ::
    "(relay_dir \<Rightarrow> 'w \<Rightarrow> source) \<Rightarrow> (relay_dir \<Rightarrow> 'w \<Rightarrow> bytes) \<Rightarrow> 'w \<Rightarrow> half \<Rightarrow> 'w \<Rightarrow> relay_dir \<Rightarrow> bool" where
  "half_ok src sink w0 h w d \<longleftrightarrow>
     (\<exists>sent. sink d w = sink d w0 @ sent \<and> src d w0 = (sent @ held h @ fst (src d w), snd (src d w))
        \<and> half_at h (length sent) (src d w))"

lemma half_ok_start: "half_ok src sink w (Running 0) w d"
  by (simp add: half_ok_def)

lemma half_ok_held: "half_ok src sink w0 h w d \<Longrightarrow> length (held h) \<le> 16 * 1024"
  by (cases h) (auto simp: half_ok_def)

lemma half_ok_other:
  "half_ok src sink w0 h w d \<Longrightarrow> src d w' = src d w \<Longrightarrow> sink d w' = sink d w \<Longrightarrow> half_ok src sink w0 h w' d"
  by (simp add: half_ok_def)

lemma relay_step_frame:
  assumes law: "dot_law io src sink broken" and step: "relay_step io d upstream h w = (r, w')" and "d' \<noteq> d"
  shows "src d' w' = src d' w \<and> sink d' w' = sink d' w"
proof (cases h)
  case (Running tot)
  obtain x w1 where x: "dio_read io d w = (x, w1)" by fastforce
  with step Running have "w' = w1"
    by (auto simp: relay_step.simps bind_io_def timed_io_def return_io_def split: timed.splits sum.splits)
  then show ?thesis using dot_views(1) [OF law x] assms(3) by simp
next
  case (Writing tot read rest)
  obtain x w1 where x: "dio_write io d rest w = (x, w1)" by fastforce
  with step Writing have "w' = w1"
    by (auto simp: relay_step.simps bind_io_def timed_io_def return_io_def fail_io_def split: timed.splits sum.splits if_splits)
  then show ?thesis using dot_views(2) [OF law x] assms(3) by simp
next
  case (HalfClosing tot)
  obtain x w1 where x: "dio_shutdown io d w = (x, w1)" by fastforce
  with step HalfClosing have "w' = w1"
    by (auto simp: relay_step.simps bind_io_def timed_io_def return_io_def split: timed.splits sum.splits)
  then show ?thesis using dot_views(3) [OF law x] by simp
next
  case (Finished tot)
  then show ?thesis using step by (simp add: relay_step.simps return_io_def)
qed

text \<open>How much a direction has to do: at most two awaits for a byte and two for the end.\<close>

fun awaits_left :: "half \<Rightarrow> source \<Rightarrow> nat" where
  "awaits_left (Running tot) s = 2 * length (fst s) + 2"
| "awaits_left (Writing tot read rest) s = 2 * length (fst s) + length rest + 2"
| "awaits_left (HalfClosing tot) s = 1"
| "awaits_left (Finished tot) s = 0"

lemma awaits_left_0_iff: "awaits_left h s = 0 \<longleftrightarrow> (\<exists>n. h = Finished n)"
  by (cases h) simp_all

lemma relay_read_step:
  assumes law: "dot_law io src sink broken" and inv: "half_ok src sink w0 (Running tot) w d"
    and step: "relay_step io d upstream (Running tot) w = (r, w')"
  shows "case r of
      Inr h' \<Rightarrow> half_ok src sink w0 h' w' d \<and> awaits_left h' (src d w') < awaits_left (Running tot) (src d w)
    | Inl err \<Rightarrow> half_ok src sink w0 (Running tot) w' d \<and> snd (src d w) \<noteq> AtFin"
proof -
  obtain data e where src: "src d w = (data, e)" by fastforce
  from inv src obtain sent where sent: "sink d w = sink d w0 @ sent" "src d w0 = (sent @ data, e)"
    "tot = of_nat (length sent)"
    by (auto simp: half_ok_def)
  show ?thesis
  proof (cases "data = []")
    case True
    with src have "src d w = ([], e)" by simp
    from dot_read_end [OF law this] obtain w1 where rd: "dio_read io d w
        = ((case e of AtFin \<Rightarrow> Done (Inr []) | AtReset msg \<Rightarrow> Done (Inl msg) | Silent \<Rightarrow> Elapsed), w1)"
      and w1: "src d w1 = ([], e)" by blast
    have "sink d w1 = sink d w" using dot_views(1) [OF law rd] by simp
    then show ?thesis
      using rd w1 step sent src True
      by (cases e) (auto simp: relay_step.simps bind_io_def timed_io_def return_io_def half_ok_def)
  next
    case False
    from dot_read_data [OF law src False] obtain k w1 where k: "0 < k" "k \<le> length data" "k \<le> 16 * 1024"
      and rd: "dio_read io d w = (Done (Inr (take k data)), w1)" and w1: "src d w1 = (drop k data, e)" by blast
    have "sink d w1 = sink d w" using dot_views(1) [OF law rd] by simp
    moreover have "r = Inr (Writing tot k (take k data))" "w' = w1"
      using rd step False k by (auto simp: relay_step.simps bind_io_def return_io_def min_absorb2)
    ultimately show ?thesis
      using w1 sent k False src by (auto simp: half_ok_def min_absorb2)
  qed
qed

lemma relay_write_step:
  assumes law: "dot_law io src sink broken" and inv: "half_ok src sink w0 (Writing tot read rest) w d"
    and step: "relay_step io d upstream (Writing tot read rest) w = (r, w')"
  shows "case r of
      Inr h' \<Rightarrow> half_ok src sink w0 h' w' d \<and> awaits_left h' (src d w') < awaits_left (Writing tot read rest) (src d w)
    | Inl err \<Rightarrow> half_ok src sink w0 (Writing tot read rest) w' d \<and> broken d w'"
proof -
  from inv obtain sent where sent: "sink d w = sink d w0 @ sent" "src d w0 = (sent @ rest @ fst (src d w), snd (src d w))"
    and at: "rest \<noteq> []" "length rest \<le> read" "read \<le> 16 * 1024" "of_nat (length sent) = tot + of_nat (read - length rest)"
    by (auto simp: half_ok_def)
  obtain x w1 where x: "dio_write io d rest w = (x, w1)" by fastforce
  note keep = dot_views(2) [OF law x, of d]
  show ?thesis
  proof (cases "\<exists>n. x = Done (Inr n)")
    case True
    then obtain n where n: "dio_write io d rest w = (Done (Inr n), w1)" using x by blast
    note wr = dot_write_some [OF law at(1) n]
    have "r = Inr (if n < length rest then Writing tot read (drop n rest) else Running (tot + of_nat read))" "w' = w1"
      using step n wr(1) by (auto simp: relay_step.simps bind_io_def return_io_def)
    moreover have "of_nat (length (sent @ take n rest)) = tot + (of_nat (read - (length rest - n)) :: u64)" if "n \<le> length rest"
      using at(2,4) that by (simp add: of_nat_diff)
    ultimately show ?thesis
      using wr at keep sent
      by (cases "n < length rest") (auto simp: half_ok_def intro!: exI [of _ "sent @ take n rest"])
  next
    case False
    note wr = dot_write_fails [OF law at(1) x False]
    have "w' = w1" "\<exists>err. r = Inl err"
      using step x False
      by (auto simp: relay_step.simps bind_io_def timed_io_def split: timed.splits sum.splits)
    then show ?thesis using wr keep inv by (auto simp: half_ok_def)
  qed
qed

lemma relay_step_spec:
  assumes law: "dot_law io src sink broken" and inv: "half_ok src sink w0 h w d"
    and step: "relay_step io d upstream h w = (r, w')"
  shows "case r of
      Inr h' \<Rightarrow> half_ok src sink w0 h' w' d
        \<and> ((\<nexists>n. h = Finished n) \<longrightarrow> awaits_left h' (src d w') < awaits_left h (src d w))
    | Inl err \<Rightarrow> half_ok src sink w0 h w' d \<and> (snd (src d w) \<noteq> AtFin \<or> broken d w')"
proof (cases h)
  case (Running tot)
  then show ?thesis using relay_read_step [OF law inv [unfolded Running] step [unfolded Running]] by (simp split: sum.splits)
next
  case (Writing tot read rest)
  then show ?thesis using relay_write_step [OF law inv [unfolded Writing] step [unfolded Writing]] by (simp split: sum.splits)
next
  case (HalfClosing tot)
  obtain x w1 where x: "dio_shutdown io d w = (x, w1)" by fastforce
  then have "w' = w1" "if x = Done (Inr ()) then r = Inr (Finished tot) else \<exists>err. r = Inl err"
    using step HalfClosing
    by (auto simp: relay_step.simps bind_io_def timed_io_def return_io_def split: timed.splits sum.splits if_splits)
  then show ?thesis
    using dot_views(3) [OF law x, of d] inv HalfClosing by (auto simp: half_ok_def split: if_splits)
next
  case (Finished tot)
  then show ?thesis using step inv by (auto simp: relay_step.simps return_io_def)
qed

subsection \<open>One direction copies everything\<close>

lemma relay_direction_copies:
  assumes law: "dot_law io src sink (\<lambda>_ _. False)"
  shows "half_ok src sink w0 h w d \<Longrightarrow> \<exists>r w'. relay_direction io d upstream h w = Some (r, w')
      \<and> (if snd (src d w0) = AtFin
         then r = Inr (of_nat (length (fst (src d w0)))) \<and> sink d w' = sink d w0 @ fst (src d w0)
         else \<exists>err. r = Inl err)"
proof (induction "awaits_left h (src d w)" arbitrary: h w rule: less_induct)
  case less
  obtain x w1 where st: "relay_step io d upstream h w = (x, w1)" by fastforce
  note spec = relay_step_spec [OF law less.prems st]
  have e: "snd (src d w) = snd (src d w0)" using less.prems by (auto simp: half_ok_def)
  show ?case
  proof (cases x)
    case (Inl err)
    then show ?thesis using spec st e by (subst relay_direction.simps) simp
  next
    case (Inr h')
    then have inv: "half_ok src sink w0 h' w1 d" using spec by simp
    show ?thesis
    proof (cases "\<exists>n. h' = Finished n")
      case True
      then show ?thesis using inv st Inr by (subst relay_direction.simps) (auto simp: half_ok_def)
    next
      case False
      then have "\<nexists>n. h = Finished n" using st Inr by (auto simp: relay_step.simps return_io_def)
      then have "awaits_left h' (src d w1) < awaits_left h (src d w)" using spec Inr by simp
      note IH = less.hyps [OF this inv]
      have "relay_direction io d upstream h w = relay_direction io d upstream h' w1"
        using False st Inr by (subst relay_direction.simps) (auto split: half.split)
      with IH show ?thesis by simp
    qed
  qed
qed

subsection \<open>Both directions, in any order\<close>

text \<open>Whatever the schedule, bytes are neither lost, invented nor reordered, but for the held ones.\<close>

definition relay_result_ok ::
    "(relay_dir \<Rightarrow> 'w \<Rightarrow> source) \<Rightarrow> (relay_dir \<Rightarrow> 'w \<Rightarrow> bool) \<Rightarrow> 'w \<Rightarrow> (relay_dir \<Rightarrow> half)
     \<Rightarrow> (dns_proxy_error + u64 \<times> u64) option \<Rightarrow> 'w \<Rightarrow> bool" where
  "relay_result_ok src broken w0 h r w \<longleftrightarrow>
     (case r of
        None \<Rightarrow> True
      | Some (Inr (a, b)) \<Rightarrow>
          a = of_nat (length (fst (src ToUpstream w0))) \<and> b = of_nat (length (fst (src ToClient w0)))
          \<and> (\<forall>d. src d w = ([], AtFin) \<and> held (h d) = [])
      | Some (Inl err) \<Rightarrow> \<exists>d. snd (src d w0) \<noteq> AtFin \<or> broken d w)"

lemma relay_result_ok_finished:
  assumes "\<forall>d. half_ok src sink w0 (h d) w d" and "h ToUpstream = Finished a" and "h ToClient = Finished b"
  shows "relay_result_ok src broken w0 h (Some (Inr (a, b))) w"
proof -
  have fin: "src d w = ([], AtFin) \<and> n = of_nat (length (fst (src d w0))) \<and> held (h d) = []" if "h d = Finished n" for d n
    using assms(1) [rule_format, of d] that by (auto simp: half_ok_def)
  have "src d w = ([], AtFin) \<and> held (h d) = []" for d
    using fin assms(2,3) by (cases d) auto
  then show ?thesis
    using fin [OF assms(2)] fin [OF assms(3)] by (simp add: relay_result_ok_def)
qed

lemma try_join_relay_inv:
  assumes law: "dot_law io src sink broken"
  shows "\<forall>d. half_ok src sink w0 (h d) w d \<Longrightarrow> try_join_relay io upstream sched h w = (r, w') \<Longrightarrow>
    \<exists>h'. (\<forall>d. half_ok src sink w0 (h' d) w' d) \<and> relay_result_ok src broken w0 h' r w'"
proof (induction sched arbitrary: h w)
  case Nil
  then have "relay_result_ok src broken w0 h r w \<and> w' = w"
    using relay_result_ok_finished [OF Nil.prems(1)]
    by (cases "\<exists>a b. h ToUpstream = Finished a \<and> h ToClient = Finished b")
       (auto simp: try_join_relay_finished try_join_relay_running(1) relay_result_ok_def)
  then show ?case using Nil.prems(1) by blast
next
  case (Cons d sched)
  show ?case
  proof (cases "\<exists>a b. h ToUpstream = Finished a \<and> h ToClient = Finished b")
    case True
    then obtain a b where ab: "h ToUpstream = Finished a" "h ToClient = Finished b" by blast
    then have "r = Some (Inr (a, b))" "w' = w"
      using Cons.prems(2) by (simp_all add: try_join_relay_finished)
    then show ?thesis using relay_result_ok_finished [OF Cons.prems(1) ab] Cons.prems(1) by blast
  next
    case False
    obtain x w1 where st: "relay_step io d upstream (h d) w = (x, w1)" by fastforce
    note spec = relay_step_spec [OF law Cons.prems(1) [rule_format] st]
    have others: "half_ok src sink w0 (h d') w1 d'" if "d' \<noteq> d" for d'
      using half_ok_other [OF Cons.prems(1) [rule_format]] relay_step_frame [OF law st that] by blast
    show ?thesis
    proof (cases x)
      case (Inl err)
      then have "r = Some (Inl err)" "w' = w1"
        using Cons.prems(2) st by (simp_all add: try_join_relay_running(2) [OF False])
      moreover have "half_ok src sink w0 (h d') w1 d'" for d'
        using others [of d'] spec Inl by (cases "d' = d") auto
      moreover have "snd (src d w) = snd (src d w0)"
        using Cons.prems(1) [rule_format, of d] by (auto simp: half_ok_def)
      ultimately show ?thesis using spec Inl by (auto simp: relay_result_ok_def)
    next
      case (Inr h')
      then have "try_join_relay io upstream sched (h(d := h')) w1 = (r, w')"
        using Cons.prems(2) st by (simp add: try_join_relay_running(2) [OF False])
      moreover have "\<forall>d'. half_ok src sink w0 ((h(d := h')) d') w1 d'" using others spec Inr by auto
      ultimately show ?thesis using Cons.IH by blast
    qed
  qed
qed

text \<open>A schedule that gives each direction as many turns as it can need completes.\<close>

definition turns_left :: "(relay_dir \<Rightarrow> 'w \<Rightarrow> source) \<Rightarrow> relay_dir list \<Rightarrow> (relay_dir \<Rightarrow> half) \<Rightarrow> 'w \<Rightarrow> relay_dir \<Rightarrow> bool" where
  "turns_left src sched h w d \<longleftrightarrow>
     snd (src d w) = AtFin \<and> awaits_left (h d) (src d w) \<le> count_list sched d"

lemma try_join_relay_completes:
  assumes law: "dot_law io src sink (\<lambda>_ _. False)"
  shows "\<forall>d. half_ok src sink w0 (h d) w d \<Longrightarrow> \<forall>d. turns_left src sched h w d \<Longrightarrow>
    \<exists>a b w'. try_join_relay io upstream sched h w = (Some (Inr (a, b)), w')"
proof (induction sched arbitrary: h w)
  case Nil
  then have "\<exists>n. h d = Finished n" for d by (simp add: turns_left_def awaits_left_0_iff)
  then obtain a b where "h ToUpstream = Finished a" "h ToClient = Finished b" by meson
  then show ?case by (simp add: try_join_relay_finished)
next
  case (Cons d sched)
  show ?case
  proof (cases "\<exists>a b. h ToUpstream = Finished a \<and> h ToClient = Finished b")
    case True
    then show ?thesis by (auto simp: try_join_relay_finished)
  next
    case False
    obtain x w1 where st: "relay_step io d upstream (h d) w = (x, w1)" by fastforce
    note spec = relay_step_spec [OF law Cons.prems(1) [rule_format] st]
    have e: "snd (src d w) = AtFin" using Cons.prems(2) by (simp add: turns_left_def)
    then obtain h' where x: "x = Inr h'" using spec by (cases x) auto
    have "half_ok src sink w0 (h d') w1 d'" if "d' \<noteq> d" for d'
      using half_ok_other [OF Cons.prems(1) [rule_format]] relay_step_frame [OF law st that] by blast
    then have inv: "half_ok src sink w0 ((h(d := h')) d') w1 d'" for d'
      using spec x by (cases "d' = d") simp_all
    have "awaits_left h' (src d w1) \<le> count_list sched d"
    proof (cases "\<exists>n. h d = Finished n")
      case True
      then obtain n where "h d = Finished n" by blast
      then have "h' = Finished n" using st x by (simp add: relay_step.simps return_io_def)
      then show ?thesis by simp
    next
      case False
      then have "awaits_left h' (src d w1) < awaits_left (h d) (src d w)" using spec x by simp
      also have "\<dots> \<le> Suc (count_list sched d)" using Cons.prems(2) [rule_format, of d] by (simp add: turns_left_def)
      finally show ?thesis by simp
    qed
    moreover have "snd (src d w1) = AtFin"
      using inv [of d] Cons.prems(1) [rule_format, of d] e by (auto simp: half_ok_def)
    moreover have "turns_left src sched h w1 d'" if "d' \<noteq> d" for d'
      using Cons.prems(2) [rule_format, of d'] relay_step_frame [OF law st that] that by (simp add: turns_left_def)
    ultimately have "\<forall>d'. turns_left src sched (h(d := h')) w1 d'"
      by (auto simp: turns_left_def)
    moreover have "\<forall>d'. half_ok src sink w0 ((h(d := h')) d') w1 d'" using inv by blast
    ultimately have "\<exists>a b w'. try_join_relay io upstream sched (h(d := h')) w1 = (Some (Inr (a, b)), w')"
      by (intro Cons.IH)
    then show ?thesis
      by (simp only: try_join_relay_running(2) [OF False] st x prod.case sum.case)
  qed
qed

end
