(* ===== verification/Tasks.thy ===== *)
theory Tasks
  imports Prelude "HOL-Library.Multiset"
begin

section \<open>Task groups (\<open>src/tasks.rs\<close>)\<close>

text \<open>
  A \<open>TaskGroup\<close> is a flag and a channel under a lock, and a supervisor that owns the
  running tasks. Callers, the supervisor and the tasks race, so the model is a step
  relation over the group: \<open>spawn\<close> and the two halves of \<open>close_and_wait_until\<close> (setting the
  flag under the lock, sending the command after it), the supervisor's receive and join
  steps, and the drain with its deadline. When the last clone of the group is gone the supervisor's
  receive fails and it ends, and dropping its \<open>JoinSet\<close> aborts what still runs. Tasks are numbers; every number ever accepted,
  finished, aborted or turned away is kept.
\<close>

datatype command = Spawn nat | Shutdown

datatype supervisor = NotStarted | Looping | Shutting | Ended

record task_group =
  tg_closed :: bool
  tg_closer_sends :: bool      \<comment> \<open>the closer has set the flag and not sent the command yet\<close>
  tg_alive :: bool             \<comment> \<open>some clone of the group is left, and with it a sender\<close>
  tg_queue :: "command list"
  tg_supervisor :: supervisor
  tg_running :: "nat set"
  tg_finished :: "nat set"
  tg_aborted :: "nat set"
  tg_accepted :: "nat set"
  tg_rejected :: "nat set"

definition task_group_default :: task_group where
  "task_group_default = \<lparr>tg_closed = False, tg_closer_sends = False, tg_alive = True, tg_queue = [],
     tg_supervisor = NotStarted, tg_running = {}, tg_finished = {}, tg_aborted = {},
     tg_accepted = {}, tg_rejected = {}\<rparr>"

definition start_supervisor :: "task_group \<Rightarrow> task_group" where
  "start_supervisor g = (if tg_supervisor g = NotStarted then g\<lparr>tg_supervisor := Looping\<rparr> else g)"

text \<open>\<open>spawn_command\<close>, under the lock.\<close>

definition spawn_command :: "nat \<Rightarrow> task_group \<Rightarrow> task_group" where
  "spawn_command t g =
     (if tg_closed g then g\<lparr>tg_rejected := insert t (tg_rejected g)\<rparr>
      else let g' = start_supervisor g
           in g'\<lparr>tg_queue := tg_queue g' @ [Spawn t], tg_accepted := insert t (tg_accepted g')\<rparr>)"

text \<open>\<open>close_and_wait_until\<close> up to the end of its critical section, and the send after it.\<close>

definition close_group :: "task_group \<Rightarrow> task_group" where
  "close_group g =
     (if tg_closed g then g
      else g\<lparr>tg_closed := True, tg_closer_sends := (tg_supervisor g \<noteq> NotStarted)\<rparr>)"

definition send_shutdown :: "task_group \<Rightarrow> task_group" where
  "send_shutdown g = g\<lparr>tg_queue := tg_queue g @ [Shutdown], tg_closer_sends := False\<rparr>"

definition fresh_task :: "nat \<Rightarrow> task_group \<Rightarrow> bool" where
  "fresh_task t g \<longleftrightarrow> t \<notin> tg_accepted g \<union> tg_rejected g"

inductive task_step :: "task_group \<Rightarrow> task_group \<Rightarrow> bool" where
  spawn: "tg_alive g \<Longrightarrow> fresh_task t g \<Longrightarrow> task_step g (spawn_command t g)"
| close: "tg_alive g \<Longrightarrow> task_step g (close_group g)"
| send: "tg_closer_sends g \<Longrightarrow> task_step g (send_shutdown g)"
| recv_spawn: "tg_supervisor g = Looping \<Longrightarrow> tg_queue g = Spawn t # q \<Longrightarrow>
     task_step g (g\<lparr>tg_queue := q, tg_running := insert t (tg_running g)\<rparr>)"
| recv_shutdown: "tg_supervisor g = Looping \<Longrightarrow> tg_queue g = Shutdown # q \<Longrightarrow>
     task_step g (g\<lparr>tg_queue := q, tg_supervisor := Shutting\<rparr>)"
| join_next: "t \<in> tg_running g \<Longrightarrow>
     task_step g (g\<lparr>tg_running := tg_running g - {t}, tg_finished := insert t (tg_finished g)\<rparr>)"
| all_joined: "tg_supervisor g = Shutting \<Longrightarrow> tg_running g = {} \<Longrightarrow>
     task_step g (g\<lparr>tg_supervisor := Ended\<rparr>)"
| deadline: "tg_supervisor g = Shutting \<Longrightarrow>
     task_step g (g\<lparr>tg_supervisor := Ended, tg_running := {},
                    tg_aborted := tg_aborted g \<union> tg_running g\<rparr>)"
| group_dropped: "\<not> tg_closer_sends g \<Longrightarrow> task_step g (g\<lparr>tg_alive := False\<rparr>)"
| recv_none: "tg_supervisor g = Looping \<Longrightarrow> tg_queue g = [] \<Longrightarrow> \<not> tg_alive g \<Longrightarrow>
     task_step g (g\<lparr>tg_supervisor := Ended, tg_running := {},
                    tg_aborted := tg_aborted g \<union> tg_running g\<rparr>)"

definition task_init :: "task_group \<Rightarrow> bool" where
  "task_init g \<longleftrightarrow> g = task_group_default"

subsection \<open>No task outlives its group\<close>

definition queued :: "command list \<Rightarrow> nat set" where
  "queued q = {t. Spawn t \<in> set q}"

text \<open>
  The shutdown command is the last in the queue, so every task accepted before the flag
  was set is started before the supervisor shuts down.
\<close>

definition task_sets :: "task_group \<Rightarrow> bool" where
  "task_sets g \<longleftrightarrow>
     tg_accepted g = queued (tg_queue g) \<union> tg_running g \<union> tg_finished g \<union> tg_aborted g
     \<and> tg_accepted g \<inter> tg_rejected g = {}"

definition task_order :: "task_group \<Rightarrow> bool" where
  "task_order g \<longleftrightarrow>
     Shutdown \<notin> set (butlast (tg_queue g))
     \<and> (Shutdown \<in> set (tg_queue g) \<longrightarrow> tg_closed g \<and> \<not> tg_closer_sends g)"

definition task_phase :: "task_group \<Rightarrow> bool" where
  "task_phase g \<longleftrightarrow>
     (tg_closer_sends g \<longrightarrow> tg_closed g \<and> tg_alive g \<and> tg_supervisor g = Looping)
     \<and> (tg_supervisor g = NotStarted \<longrightarrow> tg_queue g = [] \<and> tg_running g = {})
     \<and> (tg_supervisor g = Shutting \<longrightarrow> tg_closed g \<and> tg_queue g = [])
     \<and> (tg_supervisor g = Ended \<longrightarrow> (tg_closed g \<or> \<not> tg_alive g) \<and> tg_queue g = [])
     \<and> (tg_supervisor g = Ended \<longrightarrow> tg_running g = {})"

definition task_inv :: "task_group \<Rightarrow> bool" where
  "task_inv g \<longleftrightarrow> task_sets g \<and> task_order g \<and> task_phase g"

lemma queued_simps [simp]:
  "queued [] = {}"
  "queued (Spawn t # q) = insert t (queued q)"
  "queued (Shutdown # q) = queued q"
  "queued (q @ q') = queued q \<union> queued q'"
  by (auto simp: queued_def)

lemma task_inv_init: "task_init g \<Longrightarrow> task_inv g"
  by (simp add: task_init_def task_group_default_def task_inv_def task_sets_def task_order_def task_phase_def)

lemma open_group:
  assumes "task_inv g" and "\<not> tg_closed g"
  shows "Shutdown \<notin> set (tg_queue g)" and "\<not> tg_closer_sends g"
    and "tg_alive g \<Longrightarrow> tg_supervisor g = NotStarted \<or> tg_supervisor g = Looping"
  using assms by (simp_all add: task_inv_def task_order_def task_phase_def) (cases "tg_supervisor g", simp_all)+

lemma butlast_subset: "x \<notin> set q \<Longrightarrow> x \<notin> set (butlast q)"
  by (meson in_set_butlastD)

lemma task_sets_step: "task_sets g \<Longrightarrow> task_step g g' \<Longrightarrow> task_sets g'"
  by (erule task_step.cases)
     (auto simp: task_sets_def spawn_command_def start_supervisor_def close_group_def
       send_shutdown_def fresh_task_def Let_def)

lemma task_order_step:
  assumes inv: "task_inv g" and step: "task_step g g'"
  shows "task_order g'"
proof -
  have ord: "task_order g" using inv by (simp add: task_inv_def)
  show ?thesis
    using step
  proof cases
    case (spawn t)
    then show ?thesis
      using ord open_group(1) [OF inv]
      by (simp add: task_order_def spawn_command_def start_supervisor_def Let_def)
  next
    case close
    then show ?thesis
      using ord open_group(1) [OF inv] by (auto simp: task_order_def close_group_def)
  next
    case send
    then have "Shutdown \<notin> set (tg_queue g)" "tg_closed g"
      using inv by (auto simp: task_inv_def task_order_def task_phase_def)
    then show ?thesis using send by (simp add: task_order_def send_shutdown_def)
  next
    case (recv_spawn t q)
    then show ?thesis using ord by (auto simp: task_order_def split: if_splits)
  next
    case (recv_shutdown q)
    then have "q = []" using ord by (auto simp: task_order_def split: if_splits)
    then show ?thesis using recv_shutdown by (simp add: task_order_def)
  qed (use ord in \<open>simp_all add: task_order_def\<close>)
qed

lemma task_phase_step:
  assumes inv: "task_inv g" and step: "task_step g g'"
  shows "task_phase g'"
proof -
  have ph: "task_phase g" using inv by (simp add: task_inv_def)
  show ?thesis
    using step
  proof cases
    case (spawn t)
    show ?thesis
    proof (cases "tg_closed g")
      case True
      then show ?thesis using ph spawn by (simp add: task_phase_def spawn_command_def)
    next
      case False
      have "\<not> tg_closer_sends g'" and "tg_supervisor g' = Looping"
        using open_group(2,3) [OF inv False] False spawn
        by (auto simp: spawn_command_def start_supervisor_def Let_def)
      then show ?thesis by (simp add: task_phase_def)
    qed
  next
    case close
    show ?thesis
    proof (cases "tg_closed g")
      case True
      then show ?thesis using ph close by (simp add: close_group_def)
    next
      case False
      have "tg_supervisor g = NotStarted \<or> tg_supervisor g = Looping"
        by (rule open_group(3) [OF inv False]) (use close in simp)
      then show ?thesis
        using ph close False by (elim disjE) (simp_all add: task_phase_def close_group_def)
    qed
  next
    case send
    then show ?thesis using ph by (simp add: task_phase_def send_shutdown_def)
  next
    case (recv_shutdown q)
    then have "q = []" "tg_closed g" "\<not> tg_closer_sends g"
      using inv by (auto simp: task_inv_def task_order_def split: if_splits)
    then show ?thesis using recv_shutdown by (simp add: task_phase_def)
  qed (use ph in \<open>simp_all add: task_phase_def\<close>)
qed

lemma task_step_inv: "task_inv g \<Longrightarrow> task_step g g' \<Longrightarrow> task_inv g'"
  unfolding task_inv_def [of g'] using task_sets_step [of g g'] task_order_step [of g g'] task_phase_step [of g g']
  by (simp add: task_inv_def [of g])

interpretation task_groups: inductive_invariant task_init task_step task_inv
  by unfold_locales (rule task_inv_init, assumption, rule task_step_inv)

lemma ended_group:
  assumes "task_inv g" and "tg_supervisor g = Ended"
  shows "tg_running g = {}" and "tg_accepted g = tg_finished g \<union> tg_aborted g"
    and "tg_closed g \<or> \<not> tg_alive g" and "\<not> tg_closer_sends g"
  using assms by (auto simp: task_inv_def task_sets_def task_phase_def)

lemma ended_stays:
  assumes "task_inv g" and "tg_supervisor g = Ended" and "task_step\<^sup>*\<^sup>* g g'"
  shows "tg_supervisor g' = Ended \<and> task_inv g' \<and> tg_accepted g' = tg_accepted g"
  using assms(3)
proof (induction rule: rtranclp_induct)
  case base
  then show ?case using assms by simp
next
  case (step g1 g2)
  then have g1: "tg_supervisor g1 = Ended" "task_inv g1" "tg_accepted g1 = tg_accepted g" by auto
  note ended = ended_group(1,3,4) [OF g1(2,1)]
  from step.hyps(2) have "tg_supervisor g2 = Ended \<and> tg_accepted g2 = tg_accepted g1"
    by cases (use g1(1) ended in \<open>auto simp: spawn_command_def close_group_def\<close>)
  then show ?case using task_step_inv [OF g1(2) step.hyps(2)] g1(3) by simp
qed

text \<open>A group whose shutdown command is sent can always be brought to its end.\<close>

lemma looping_group_shuts:
  assumes "tg_supervisor g = Looping" and "tg_queue g = q @ [Shutdown]" and "Shutdown \<notin> set q"
  shows "\<exists>g'. task_step\<^sup>*\<^sup>* g g' \<and> tg_supervisor g' = Shutting"
  using assms
proof (induction q arbitrary: g)
  case Nil
  then have "task_step g (g\<lparr>tg_queue := [], tg_supervisor := Shutting\<rparr>)"
    by (intro recv_shutdown) simp_all
  then show ?case by (intro exI conjI, rule r_into_rtranclp) simp_all
next
  case (Cons c q)
  then obtain t where c: "c = Spawn t" by (cases c) auto
  let ?g = "g\<lparr>tg_queue := q @ [Shutdown], tg_running := insert t (tg_running g)\<rparr>"
  have "task_step g ?g" using Cons.prems c by (intro recv_spawn) simp_all
  moreover obtain g' where "task_step\<^sup>*\<^sup>* ?g g'" "tg_supervisor g' = Shutting"
    using Cons.IH [of ?g] Cons.prems by auto
  ultimately show ?case by (blast intro: converse_rtranclp_into_rtranclp)
qed

lemma sent_shutdown_ends:
  assumes inv: "task_inv g" and "Shutdown \<in> set (tg_queue g)"
  shows "\<exists>g'. task_step\<^sup>*\<^sup>* g g' \<and> tg_supervisor g' = Ended"
proof -
  let ?q = "butlast (tg_queue g)"
  have "Shutdown \<notin> set ?q" and sup: "tg_supervisor g = Looping"
    using assms by (cases "tg_supervisor g"; simp add: task_inv_def task_order_def task_phase_def)+
  moreover have "tg_queue g = ?q @ [Shutdown]"
    using assms(2) \<open>Shutdown \<notin> set ?q\<close>
    by (cases "tg_queue g" rule: rev_cases) auto
  ultimately obtain g1 where g1: "task_step\<^sup>*\<^sup>* g g1" "tg_supervisor g1 = Shutting"
    using looping_group_shuts by blast
  have "task_step g1 (g1\<lparr>tg_supervisor := Ended, tg_running := {}, tg_aborted := tg_aborted g1 \<union> tg_running g1\<rparr>)"
    by (rule deadline) (rule g1(2))
  with g1(1) show ?thesis by (intro exI conjI, rule rtranclp.rtrancl_into_rtrancl) simp_all
qed

end
