(* ===== verification/Task_Spec.thy ===== *)
theory Task_Spec
  imports Tasks
begin

section \<open>What a task group promises\<close>

text \<open>
  The contract of a \<open>TaskGroup\<close> without its lock, channel and supervisor: it is open or closed,
  it takes tasks while it is open, tasks end one by one, and once it is closed (or nobody holds it
  any more, which closes it for good) the rest may be ended at once. \<open>task_step_refines\<close> shows that every step of the detailed model is a step of this
  specification or changes nothing it can see.
\<close>

record group_spec =
  gr_open :: bool
  gr_live :: "nat set"
  gr_done :: "nat set"

inductive group_step :: "group_spec \<Rightarrow> group_spec \<Rightarrow> bool" where
  take: "gr_open a \<Longrightarrow> t \<notin> gr_live a \<union> gr_done a \<Longrightarrow> group_step a (a\<lparr>gr_live := insert t (gr_live a)\<rparr>)"
| end_one: "t \<in> gr_live a \<Longrightarrow>
     group_step a (a\<lparr>gr_live := gr_live a - {t}, gr_done := insert t (gr_done a)\<rparr>)"
| close: "group_step a (a\<lparr>gr_open := False\<rparr>)"
| end_all: "\<not> gr_open a \<Longrightarrow>
     group_step a (a\<lparr>gr_live := {}, gr_done := gr_done a \<union> gr_live a\<rparr>)"

definition group_of :: "task_group \<Rightarrow> group_spec" where
  "group_of g = \<lparr>gr_open = (tg_alive g \<and> \<not> tg_closed g), gr_live = queued (tg_queue g) \<union> tg_running g,
     gr_done = tg_finished g \<union> tg_aborted g\<rparr>"

text \<open>A task is in one place only: waiting in the queue once, running, or over.\<close>

definition spawns :: "command list \<Rightarrow> command list" where
  "spawns q = filter (\<lambda>c. c \<noteq> Shutdown) q"

definition task_distinct :: "task_group \<Rightarrow> bool" where
  "task_distinct g \<longleftrightarrow>
     distinct (spawns (tg_queue g)) \<and> queued (tg_queue g) \<inter> tg_running g = {}
     \<and> (queued (tg_queue g) \<union> tg_running g) \<inter> (tg_finished g \<union> tg_aborted g) = {}"

lemma spawns_simps [simp]:
  "spawns [] = []" "spawns (Spawn t # q) = Spawn t # spawns q" "spawns (Shutdown # q) = spawns q"
  "spawns (q @ q') = spawns q @ spawns q'"
  by (simp_all add: spawns_def)

lemma Spawn_in_spawns: "Spawn t \<in> set (spawns q) \<longleftrightarrow> t \<in> queued q"
  by (simp add: spawns_def queued_def)

lemma task_distinct_step:
  assumes sets: "task_sets g" and dist: "task_distinct g" and step: "task_step g g'"
  shows "task_distinct g'"
  using step
proof cases
  case (spawn t)
  then have "t \<notin> queued (tg_queue g) \<union> tg_running g \<union> tg_finished g \<union> tg_aborted g"
    using sets by (simp add: task_sets_def fresh_task_def)
  then show ?thesis
    using dist spawn
    by (auto simp: task_distinct_def spawn_command_def start_supervisor_def Let_def Spawn_in_spawns)
next
  case (recv_spawn t q)
  then show ?thesis using dist by (auto simp: task_distinct_def Spawn_in_spawns)
next
  case (deadline)
  then show ?thesis using dist by (auto simp: task_distinct_def)
next
  case (recv_none)
  then show ?thesis using dist by (auto simp: task_distinct_def)
next
  case (join_next t)
  then show ?thesis using dist by (auto simp: task_distinct_def)
qed (use dist in \<open>auto simp: task_distinct_def close_group_def send_shutdown_def\<close>)

interpretation task_ids: inductive_invariant task_init task_step "\<lambda>g. task_inv g \<and> task_distinct g"
proof unfold_locales
  fix g
  assume "task_init g"
  then show "task_inv g \<and> task_distinct g"
    using task_inv_init by (simp add: task_init_def task_group_default_def task_distinct_def)
next
  fix g g'
  assume "task_inv g \<and> task_distinct g" and "task_step g g'"
  then show "task_inv g' \<and> task_distinct g'"
    using task_step_inv [of g g'] task_distinct_step [of g g'] by (simp add: task_inv_def)
qed

lemma task_step_refines:
  assumes inv: "task_inv g" and dist: "task_distinct g" and step: "task_step g g'"
  shows "group_step (group_of g) (group_of g') \<or> group_of g' = group_of g"
  using step
proof cases
  case (spawn t)
  then have "t \<notin> queued (tg_queue g) \<union> tg_running g \<union> tg_finished g \<union> tg_aborted g"
    using inv by (simp add: task_inv_def task_sets_def fresh_task_def)
  then show ?thesis
    using spawn group_step.take [of "group_of g" t]
    by (cases "tg_closed g")
       (simp_all add: group_of_def spawn_command_def start_supervisor_def Let_def)
next
  case close
  then show ?thesis
    using group_step.close [of "group_of g"] by (cases "tg_closed g") (simp_all add: group_of_def close_group_def)
next
  case (join_next t)
  then have "queued (tg_queue g) \<union> (tg_running g - {t}) = (queued (tg_queue g) \<union> tg_running g) - {t}"
    using dist by (auto simp: task_distinct_def)
  then show ?thesis
    using join_next group_step.end_one [of t "group_of g"] by (simp add: group_of_def)
next
  case deadline
  then have "tg_queue g = []" "tg_closed g" using inv by (simp_all add: task_inv_def task_phase_def)
  then show ?thesis
    using deadline group_step.end_all [of "group_of g"] by (simp add: group_of_def Un_assoc)
next
  case group_dropped
  then show ?thesis using group_step.close [of "group_of g"] by (simp add: group_of_def)
next
  case recv_none
  then show ?thesis
    using group_step.end_all [of "group_of g"] by (simp add: group_of_def Un_assoc)
qed (auto simp: group_of_def send_shutdown_def)

end
