(* ===== verification/Listener.thy ===== *)
theory Listener
  imports Prelude Backoff "HOL-Library.Multiset"
begin

section \<open>The accept loops of the servers (\<open>run\<close> in \<open>src/readers/*.rs\<close>)\<close>

text \<open>
  All five servers run the same loop: accept a connection, wait for one of
  \<open>max_connections_per_listener\<close> permits, hand the connection to a task of the group that owns
  the permit until it ends, and leave the loop when the shutdown token fires. They differ in
  what a failed accept does (the TCP servers go on, DoT and DoH after a sleep that steps the
  backoff counter; a QUIC endpoint only ever says that it is closed), and the connections of
  the two QUIC servers repeat the pattern for their streams: \<open>handle_connection\<close> accepts a
  stream, waits for one of the connection's \<open>max_inflight_requests_per_connection\<close> permits and
  hands it to another task of the same group. A DoQ connection has one more task in the group, the
  watcher that closes the connection when its peer opens a unidirectional stream.

  The token, the peers and the tasks race with the loop, so the model is a step relation. Both
  \<open>run\<close>, when it has left its loop, and the application, once it has cancelled the token, close
  the group: the first one closes it and waits for the tasks until its deadline aborts them, the
  second returns at once, and a task that is spawned later is dropped with its permit.
  Connections are numbered as they are accepted; a stream task or a watcher is the number of its
  connection. There is no clock here: tasks may end at any time, and those of a closed group may be
  aborted at any time. \<open>Shutdown\<close> puts the loops (\<open>loop_step\<close>) under the deadlines.
\<close>

datatype server_kind = HealthReader | DotReader | DohReader | DoqReader | Doh3Reader

fun is_quic :: "server_kind \<Rightarrow> bool" where
  "is_quic DoqReader = True"
| "is_quic Doh3Reader = True"
| "is_quic _ = False"

fun backs_off :: "server_kind \<Rightarrow> bool" where
  "backs_off DotReader = True"
| "backs_off DohReader = True"
| "backs_off _ = False"

datatype accept_phase = Accepting | Sleeping | WaitingPermit nat | Draining | Stopped

datatype conn_task =
    Handshaking nat
  | Serving nat          \<comment> \<open>in \<open>accept_bi\<close> or \<open>accept\<close> for a QUIC connection\<close>
  | WaitingStream nat    \<comment> \<open>a stream was accepted, its permit not yet acquired\<close>

datatype closer = ByRun | ByApp

record listener_sys =
  ln_phase :: accept_phase
  ln_permits :: nat
  ln_tasks :: "conn_task multiset"
  ln_streams :: "nat multiset"
  ln_watchers :: "nat multiset"
  ln_next :: nat
  ln_cancelled :: bool
  ln_closed :: "closer option"
  ln_backoff :: backoff_counter

definition listener_init :: "nat \<Rightarrow> listener_sys \<Rightarrow> bool" where
  "listener_init m s \<longleftrightarrow> s = \<lparr>ln_phase = Accepting, ln_permits = m, ln_tasks = {#}, ln_streams = {#},
     ln_watchers = {#}, ln_next = 0, ln_cancelled = False, ln_closed = None, ln_backoff = backoff_new\<rparr>"

definition first_phase :: "server_kind \<Rightarrow> nat \<Rightarrow> conn_task" where
  "first_phase r c = (if r = HealthReader then Serving c else Handshaking c)"

definition after_accept_error :: "server_kind \<Rightarrow> listener_sys \<Rightarrow> listener_sys" where
  "after_accept_error r s =
     (if backs_off r then s\<lparr>ln_phase := Sleeping, ln_backoff := snd (next_delay 100 5000 (ln_backoff s))\<rparr>
      else s)"

text \<open>The stream loop of a QUIC connection, one of those being served, and its stream tasks.\<close>

inductive stream_loop_step :: "nat \<Rightarrow> listener_sys \<Rightarrow> listener_sys \<Rightarrow> bool" for max_streams :: nat where
  accept_stream: "ln_tasks s = add_mset (Serving c) T \<Longrightarrow>
     stream_loop_step max_streams s (s\<lparr>ln_tasks := add_mset (WaitingStream c) T\<rparr>)"
| stream_permit: "ln_tasks s = add_mset (WaitingStream c) T \<Longrightarrow> count (ln_streams s) c < max_streams \<Longrightarrow>
     ln_closed s = None \<Longrightarrow>
     stream_loop_step max_streams s (s\<lparr>ln_tasks := add_mset (Serving c) T,
                                       ln_streams := add_mset c (ln_streams s)\<rparr>)"
| stream_turned_away: "ln_tasks s = add_mset (WaitingStream c) T \<Longrightarrow> count (ln_streams s) c < max_streams \<Longrightarrow>
     ln_closed s \<noteq> None \<Longrightarrow>
     stream_loop_step max_streams s (s\<lparr>ln_tasks := add_mset (Serving c) T\<rparr>)"
| stream_ends: "ln_streams s = add_mset c S \<Longrightarrow> stream_loop_step max_streams s (s\<lparr>ln_streams := S\<rparr>)"

text \<open>The watcher of a connection; a closed group drops it.\<close>

definition with_watcher :: "server_kind \<Rightarrow> nat \<Rightarrow> listener_sys \<Rightarrow> listener_sys" where
  "with_watcher r c s =
     (if r = DoqReader \<and> ln_closed s = None then s\<lparr>ln_watchers := add_mset c (ln_watchers s)\<rparr> else s)"

text \<open>What the loop and its tasks do on their own.\<close>

inductive loop_step :: "server_kind \<Rightarrow> nat \<Rightarrow> listener_sys \<Rightarrow> listener_sys \<Rightarrow> bool"
  for r :: server_kind and max_streams :: nat where
  accept: "ln_phase s = Accepting \<Longrightarrow>
     loop_step r max_streams s (s\<lparr>ln_phase := WaitingPermit (ln_next s), ln_next := Suc (ln_next s)\<rparr>)"
| accept_error: "\<not> is_quic r \<Longrightarrow> ln_phase s = Accepting \<Longrightarrow>
     loop_step r max_streams s (after_accept_error r s)"
| wake: "ln_phase s = Sleeping \<Longrightarrow> loop_step r max_streams s (s\<lparr>ln_phase := Accepting\<rparr>)"
| endpoint_closed: "is_quic r \<Longrightarrow> ln_phase s = Accepting \<Longrightarrow>
     loop_step r max_streams s (s\<lparr>ln_phase := Draining\<rparr>)"
| permit: "ln_phase s = WaitingPermit c \<Longrightarrow> ln_permits s = Suc n \<Longrightarrow> ln_closed s = None \<Longrightarrow>
     loop_step r max_streams s (s\<lparr>ln_phase := Accepting, ln_permits := n,
                        ln_tasks := add_mset (first_phase r c) (ln_tasks s)\<rparr>)"
| turned_away: "ln_phase s = WaitingPermit c \<Longrightarrow> 0 < ln_permits s \<Longrightarrow> ln_closed s \<noteq> None \<Longrightarrow>
     loop_step r max_streams s (s\<lparr>ln_phase := Accepting\<rparr>)"
| leave: "ln_cancelled s \<Longrightarrow> ln_phase s = Accepting \<or> ln_phase s = WaitingPermit c \<Longrightarrow>
     loop_step r max_streams s (s\<lparr>ln_phase := Draining\<rparr>)"
| handshake: "ln_tasks s = add_mset (Handshaking c) T \<Longrightarrow>
     loop_step r max_streams s (with_watcher r c s\<lparr>ln_tasks := add_mset (Serving c) T\<rparr>)"
| streams: "is_quic r \<Longrightarrow> stream_loop_step max_streams s t \<Longrightarrow> loop_step r max_streams s t"
| task_ends: "ln_tasks s = add_mset t T \<Longrightarrow>
     loop_step r max_streams s (s\<lparr>ln_tasks := T, ln_permits := Suc (ln_permits s)\<rparr>)"
| watcher_ends: "ln_watchers s = add_mset c W \<Longrightarrow> loop_step r max_streams s (s\<lparr>ln_watchers := W\<rparr>)"
| not_waiting: "ln_phase s = Draining \<Longrightarrow> ln_closed s = Some ByApp \<Longrightarrow>
     loop_step r max_streams s (s\<lparr>ln_phase := Stopped\<rparr>)"
| drained: "ln_phase s = Draining \<Longrightarrow> ln_closed s = Some ByRun \<Longrightarrow>
     ln_tasks s = {#} \<Longrightarrow> ln_streams s = {#} \<Longrightarrow> ln_watchers s = {#} \<Longrightarrow>
     loop_step r max_streams s (s\<lparr>ln_phase := Stopped\<rparr>)"

text \<open>And the token, the two closers and the supervisor.\<close>

inductive listener_step :: "server_kind \<Rightarrow> nat \<Rightarrow> listener_sys \<Rightarrow> listener_sys \<Rightarrow> bool"
  for r :: server_kind and max_streams :: nat where
  loop: "loop_step r max_streams s t \<Longrightarrow> listener_step r max_streams s t"
| cancel: "listener_step r max_streams s (s\<lparr>ln_cancelled := True\<rparr>)"
| run_closes: "ln_phase s = Draining \<Longrightarrow> ln_closed s = None \<Longrightarrow>
     listener_step r max_streams s (s\<lparr>ln_closed := Some ByRun\<rparr>)"
| app_closes: "ln_cancelled s \<Longrightarrow> ln_closed s = None \<Longrightarrow>
     listener_step r max_streams s (s\<lparr>ln_closed := Some ByApp\<rparr>)"
| abort_tasks: "ln_closed s \<noteq> None \<Longrightarrow>
     listener_step r max_streams s (s\<lparr>ln_tasks := {#}, ln_streams := {#}, ln_watchers := {#},
                        ln_permits := ln_permits s + size (ln_tasks s)\<rparr>)"

lemma with_watcher_simps [simp]:
  "ln_phase (with_watcher r c s) = ln_phase s" "ln_permits (with_watcher r c s) = ln_permits s"
  "ln_tasks (with_watcher r c s) = ln_tasks s" "ln_streams (with_watcher r c s) = ln_streams s"
  "ln_next (with_watcher r c s) = ln_next s"
  "ln_cancelled (with_watcher r c s) = ln_cancelled s" "ln_closed (with_watcher r c s) = ln_closed s"
  "ln_closed s \<noteq> None \<Longrightarrow> ln_watchers (with_watcher r c s) = ln_watchers s"
  "r \<noteq> DoqReader \<Longrightarrow> ln_watchers (with_watcher r c s) = ln_watchers s"
  by (simp_all add: with_watcher_def)

text \<open>No step of the loop touches the token or the group's flag.\<close>

lemma loop_step_keeps:
  assumes "loop_step r max_streams s t"
  shows "ln_cancelled t = ln_cancelled s" and "ln_closed t = ln_closed s"
proof -
  have "ln_cancelled t = ln_cancelled s \<and> ln_closed t = ln_closed s"
    using assms
  proof cases
    case streams
    from streams(2) show ?thesis by cases simp_all
  qed (simp_all add: after_accept_error_def)
  then show "ln_cancelled t = ln_cancelled s" "ln_closed t = ln_closed s" by simp_all
qed

text \<open>The loops of the five servers.\<close>

definition health_loop_step :: "listener_sys \<Rightarrow> listener_sys \<Rightarrow> bool" where
  "health_loop_step = listener_step HealthReader 0"

definition dot_loop_step :: "listener_sys \<Rightarrow> listener_sys \<Rightarrow> bool" where
  "dot_loop_step = listener_step DotReader 0"

definition doh_loop_step :: "listener_sys \<Rightarrow> listener_sys \<Rightarrow> bool" where
  "doh_loop_step = listener_step DohReader 0"

definition doq_loop_step :: "nat \<Rightarrow> listener_sys \<Rightarrow> listener_sys \<Rightarrow> bool" where
  "doq_loop_step max_streams = listener_step DoqReader max_streams"

definition doh3_loop_step :: "nat \<Rightarrow> listener_sys \<Rightarrow> listener_sys \<Rightarrow> bool" where
  "doh3_loop_step max_streams = listener_step Doh3Reader max_streams"

subsection \<open>The bounds a listener keeps\<close>

definition listener_inv :: "server_kind \<Rightarrow> nat \<Rightarrow> nat \<Rightarrow> listener_sys \<Rightarrow> bool" where
  "listener_inv r max_streams m s \<longleftrightarrow>
     ln_permits s + size (ln_tasks s) = m
     \<and> (ln_phase s = Stopped \<longrightarrow> ln_closed s = Some ByApp
          \<or> ln_closed s = Some ByRun \<and> ln_tasks s = {#} \<and> ln_streams s = {#} \<and> ln_watchers s = {#})
     \<and> (\<forall>c. count (ln_streams s) c \<le> max_streams)
     \<and> (\<not> is_quic r \<longrightarrow> ln_streams s = {#} \<and> (\<forall>c. WaitingStream c \<notin># ln_tasks s))
     \<and> (r \<noteq> DoqReader \<longrightarrow> ln_watchers s = {#})"

lemma stream_loop_step_inv:
  assumes "listener_inv r max_streams m s" and "is_quic r" and "stream_loop_step max_streams s t"
  shows "listener_inv r max_streams m t"
  using assms(3,1,2)
proof cases
  case (stream_ends c S)
  have "count S d \<le> count (ln_streams s) d" for d using stream_ends(2) by simp
  then show ?thesis
    using assms(1,2) stream_ends by (auto simp: listener_inv_def intro: le_trans)
qed (auto simp: listener_inv_def)

lemma loop_step_inv:
  assumes "listener_inv r max_streams m s" and "loop_step r max_streams s t"
  shows "listener_inv r max_streams m t"
  using assms(2,1)
proof cases
  case streams
  then show ?thesis using stream_loop_step_inv [OF assms(1)] by blast
next
  case (handshake c T)
  then show ?thesis
    using assms(1) by (cases "r = DoqReader"; cases "ln_closed s") (auto simp: listener_inv_def)
qed (auto simp: listener_inv_def after_accept_error_def first_phase_def)

lemma listener_step_inv:
  assumes "listener_inv r max_streams m s" and "listener_step r max_streams s t"
  shows "listener_inv r max_streams m t"
  using assms(2,1)
proof cases
  case loop
  then show ?thesis by (rule loop_step_inv [OF assms(1)])
qed (auto simp: listener_inv_def)

interpretation listener: inductive_invariant "listener_init m" "listener_step r max_streams"
    "listener_inv r max_streams m" for r max_streams m
proof unfold_locales
  fix s
  assume "listener_init m s"
  then show "listener_inv r max_streams m s" by (simp add: listener_init_def listener_inv_def)
qed (rule listener_step_inv)

text \<open>The streams of the connections that are being served.\<close>

fun task_conn :: "conn_task \<Rightarrow> nat" where
  "task_conn (Handshaking c) = c"
| "task_conn (Serving c) = c"
| "task_conn (WaitingStream c) = c"

definition served :: "listener_sys \<Rightarrow> nat set" where
  "served s = task_conn ` set_mset (ln_tasks s)"

lemma size_filter_le:
  assumes "finite A" and "\<And>c. c \<in> A \<Longrightarrow> count M c \<le> k"
  shows "size (filter_mset (\<lambda>c. c \<in> A) M) \<le> card A * k"
proof -
  have "size (filter_mset (\<lambda>c. c \<in> A) M) = (\<Sum>c \<in> set_mset (filter_mset (\<lambda>c. c \<in> A) M). count M c)"
    by (simp add: size_multiset_overloaded_eq)
  also have "\<dots> \<le> (\<Sum>c \<in> A. count M c)"
    using assms(1) by (intro sum_mono2) auto
  also have "\<dots> \<le> card A * k"
    using sum_mono [of A "count M" "\<lambda>_. k"] assms(2) by simp
  finally show ?thesis .
qed

lemma card_set_mset_le_size: "card (set_mset M) \<le> size M"
  by (induction M) (simp_all add: card_insert_if)

lemma card_served: "card (served s) \<le> size (ln_tasks s)"
proof -
  have "card (served s) \<le> card (set_mset (ln_tasks s))"
    unfolding served_def by (rule card_image_le) simp
  also have "\<dots> \<le> size (ln_tasks s)" by (rule card_set_mset_le_size)
  finally show ?thesis .
qed

lemma served_streams_bound:
  assumes "listener_inv r max_streams m s"
  shows "size (filter_mset (\<lambda>c. c \<in> served s) (ln_streams s)) \<le> m * max_streams"
proof -
  have "size (filter_mset (\<lambda>c. c \<in> served s) (ln_streams s)) \<le> card (served s) * max_streams"
    using assms by (intro size_filter_le) (simp_all add: listener_inv_def served_def)
  also have "card (served s) \<le> m"
    using card_served [of s] assms by (simp add: listener_inv_def)
  then have "card (served s) * max_streams \<le> m * max_streams" by simp
  finally show ?thesis .
qed

text \<open>A group that is closed takes nothing on any more.\<close>

lemma closed_loop_step:
  assumes "loop_step r max_streams s t" and "ln_closed s \<noteq> None"
  shows "size (ln_tasks t) \<le> size (ln_tasks s) \<and> ln_streams t \<subseteq># ln_streams s \<and> ln_watchers t \<subseteq># ln_watchers s"
  using assms
proof cases
  case streams
  from streams(2) show ?thesis using assms(2) by cases auto
qed (auto simp: after_accept_error_def)

lemma closed_listener_step:
  assumes "listener_step r max_streams s t" and "ln_closed s = Some who"
  shows "ln_closed t = Some who \<and> size (ln_tasks t) \<le> size (ln_tasks s) \<and> ln_streams t \<subseteq># ln_streams s
    \<and> ln_watchers t \<subseteq># ln_watchers s"
  using assms
proof cases
  case loop
  then show ?thesis using closed_loop_step [OF loop] loop_step_keeps [OF loop] assms(2) by simp
qed auto

lemma closed_listener_steps:
  assumes "(listener_step r max_streams)\<^sup>*\<^sup>* s t" and "ln_closed s = Some who"
  shows "ln_closed t = Some who \<and> size (ln_tasks t) \<le> size (ln_tasks s) \<and> ln_streams t \<subseteq># ln_streams s
    \<and> ln_watchers t \<subseteq># ln_watchers s"
  using assms
proof (induction rule: rtranclp_induct)
  case base
  then show ?case by simp
next
  case (step t u)
  then have t: "ln_closed t = Some who" "size (ln_tasks t) \<le> size (ln_tasks s)" "ln_streams t \<subseteq># ln_streams s"
    "ln_watchers t \<subseteq># ln_watchers s"
    by simp_all
  with closed_listener_step [OF step.hyps(2) t(1)] show ?case by (meson le_trans subset_mset.order_trans)
qed

subsection \<open>The streams of connections that ended\<close>

text \<open>A listener of \<open>m\<close> permits that serves nobody and has \<open>n\<close> streams left of earlier connections.\<close>

definition left_behind :: "nat \<Rightarrow> nat \<Rightarrow> listener_sys \<Rightarrow> bool" where
  "left_behind m n s \<longleftrightarrow> ln_phase s = Accepting \<and> ln_permits s = m \<and> ln_tasks s = {#}
     \<and> size (ln_streams s) = n \<and> (\<forall>c \<in># ln_streams s. c < ln_next s) \<and> \<not> ln_cancelled s
     \<and> ln_closed s = None"

lemma one_more_left_behind:
  assumes "is_quic r" and "0 < max_streams" and "left_behind (Suc k) n s"
  shows "\<exists>t. (listener_step r max_streams)\<^sup>*\<^sup>* s t \<and> left_behind (Suc k) (Suc n) t"
proof -
  let ?c = "ln_next s"
  let ?s1 = "s\<lparr>ln_phase := WaitingPermit ?c, ln_next := Suc ?c\<rparr>"
  let ?s2 = "s\<lparr>ln_next := Suc ?c, ln_phase := Accepting, ln_permits := k, ln_tasks := {#Handshaking ?c#}\<rparr>"
  let ?s3 = "with_watcher r ?c ?s2\<lparr>ln_tasks := {#Serving ?c#}\<rparr>"
  let ?s4 = "?s3\<lparr>ln_tasks := {#WaitingStream ?c#}\<rparr>"
  let ?s5 = "?s3\<lparr>ln_streams := add_mset ?c (ln_streams s)\<rparr>"
  let ?s6 = "?s5\<lparr>ln_tasks := {#}, ln_permits := Suc k\<rparr>"
  have s: "ln_phase s = Accepting" "ln_permits s = Suc k" "ln_tasks s = {#}" "ln_closed s = None"
    using assms(3) by (simp_all add: left_behind_def)
  have first: "first_phase r ?c = Handshaking ?c"
    using assms(1) by (cases r) (simp_all add: first_phase_def)
  have fresh: "count (ln_streams s) ?c = 0"
    using assms(3) by (auto simp: left_behind_def count_eq_zero_iff)
  have "loop_step r max_streams s ?s1" by (rule accept [OF s(1)])
  moreover have "loop_step r max_streams ?s1 ?s2"
    using permit [of ?s1 ?c k r max_streams] s by (simp add: first)
  moreover have "loop_step r max_streams ?s2 ?s3"
    using handshake [of ?s2 ?c "{#}" r max_streams] by simp
  moreover have "loop_step r max_streams ?s3 ?s4"
    using accept_stream [of ?s3 ?c "{#}" max_streams] by (intro streams assms(1)) simp
  moreover have "loop_step r max_streams ?s4 ?s5"
    using stream_permit [of ?s4 ?c "{#}" max_streams] fresh assms(2) s(4) by (intro streams assms(1)) simp
  moreover have "loop_step r max_streams ?s5 ?s6"
    using task_ends [of ?s5 "Serving ?c" "{#}" r max_streams] s(2) by simp
  ultimately have "(listener_step r max_streams)\<^sup>*\<^sup>* s ?s6"
    by (meson converse_rtranclp_into_rtranclp rtranclp.rtrancl_refl listener_step.loop)
  moreover have "left_behind (Suc k) (Suc n) ?s6"
    using assms(3) by (auto simp: left_behind_def)
  ultimately show ?thesis by blast
qed

lemma left_behind_reachable:
  assumes "is_quic r" and "0 < max_streams"
  shows "\<exists>s. reachable (listener_init (Suc k)) (listener_step r max_streams) s \<and> left_behind (Suc k) n s"
proof (induction n)
  case 0
  let ?s0 = "\<lparr>ln_phase = Accepting, ln_permits = Suc k, ln_tasks = {#}, ln_streams = {#},
     ln_watchers = {#}, ln_next = 0, ln_cancelled = False, ln_closed = None, ln_backoff = backoff_new\<rparr>"
  have "reachable (listener_init (Suc k)) (listener_step r max_streams) ?s0"
    by (rule reachable_init) (simp add: listener_init_def)
  then show ?case by (intro exI [of _ ?s0]) (simp add: left_behind_def)
next
  case (Suc n)
  then show ?case using one_more_left_behind [OF assms] reachable_steps by metis
qed

end
