(* ===== verification/App.thy ===== *)
theory App
  imports Config_Validation
begin

section \<open>Start, readiness and shutdown (\<open>src/app.rs\<close>)\<close>

text \<open>
  What \<open>App::start\<close> checks before it spawns the servers, and the protocol between the
  application and its server tasks afterwards: each server reports over a channel that
  its listener is bound, \<open>start\<close> waits for all reports, looks at \<open>failed\<close> and stores
  \<open>ready\<close>; a server that ends with an error stores \<open>failed\<close> and clears \<open>ready\<close>, unless shutdown
  was requested. These are separate atomic accesses of different tasks, so they are
  steps of a relation. A channel whose sender is dropped reports that too.
\<close>

definition enabled_servers :: "servers_config \<Rightarrow> string list" where
  "enabled_servers s =
     (if hc_enabled (srv_healthcheck s) then [''healthcheck''] else [])
     @ (if sp_enabled (srv_dot s) then [''DoT''] else [])
     @ (if sp_enabled (srv_doh s) then [''DoH''] else [])
     @ (if sp_enabled (srv_doq s) then [''DoQ''] else [])
     @ (if sp_enabled (srv_doh3 s) then [''DoH3''] else [])"

text \<open>\<open>start\<close> up to the first spawn: the servers it will spawn, in order.\<close>

definition prepare_start ::
    "'ip validation_env \<Rightarrow> ('cert, 'anchor, 'key, 'skey) tls_lib \<Rightarrow> app_config
     \<Rightarrow> dns_proxy_error + string list" where
  "prepare_start env lib c =
     and_then (map_err error_from_anyhow (validate_and_load_upstream_roots env lib c)) (\<lambda>_.
     and_then (if any_dns_listener (cfg_servers c)
       then and_then (ensure (\<not> (tls_default (cfg_tls c) = None \<and> tls_certs (cfg_tls c) = []))
              (Tls ''at least one TLS certificate is required for an enabled DNS listener'')) (\<lambda>_.
            and_then (certificate_resolver_new lib (cfg_tls c)) (\<lambda>_. Inr ()))
       else Inr ()) (\<lambda>_.
     Inr (enabled_servers (cfg_servers c))))"

subsection \<open>Servers and readiness\<close>

datatype report = Bound | BindError dns_proxy_error | Dropped

datatype run_state = Up | Flagged | DownError | DownOk

record server =
  sv_report :: "report option"
  sv_state :: run_state

datatype app_phase =
    Awaiting nat   \<comment> \<open>this many reports were received\<close>
  | Checked        \<comment> \<open>\<open>failed\<close> was loaded as false, \<open>ready\<close> not yet stored\<close>
  | Ready
  | Stopped

record app_sys =
  as_ready :: bool
  as_failed :: bool
  as_cancelled :: bool
  as_phase :: app_phase
  as_servers :: "server list"

definition app_init :: "nat \<Rightarrow> app_sys \<Rightarrow> bool" where
  "app_init n s \<longleftrightarrow> s = \<lparr>as_ready = False, as_failed = False, as_cancelled = False,
     as_phase = Awaiting 0, as_servers = replicate n \<lparr>sv_report = None, sv_state = Up\<rparr>\<rparr>"

definition report_if_silent :: "report \<Rightarrow> server \<Rightarrow> server" where
  "report_if_silent r v = (if sv_report v = None then v\<lparr>sv_report := Some r\<rparr> else v)"

definition stop_app :: "app_sys \<Rightarrow> app_sys" where
  "stop_app s = s\<lparr>as_ready := False, as_cancelled := True, as_phase := Stopped\<rparr>"

inductive app_step :: "app_sys \<Rightarrow> app_sys \<Rightarrow> bool" where
  bound: "i < length (as_servers s) \<Longrightarrow> sv_state (as_servers s ! i) = Up \<Longrightarrow>
     app_step s (s\<lparr>as_servers := (as_servers s)[i := report_if_silent Bound (as_servers s ! i)]\<rparr>)"
| bind_error: "i < length (as_servers s) \<Longrightarrow> sv_state (as_servers s ! i) = Up \<Longrightarrow>
     app_step s (s\<lparr>as_servers := (as_servers s)[i := report_if_silent (BindError e) (as_servers s ! i)]\<rparr>)"
| server_fails: "i < length (as_servers s) \<Longrightarrow> sv_state (as_servers s ! i) = Up \<Longrightarrow> \<not> as_cancelled s \<Longrightarrow>
     app_step s (s\<lparr>as_failed := True,
       as_servers := (as_servers s)[i := (report_if_silent Dropped (as_servers s ! i))\<lparr>sv_state := Flagged\<rparr>]\<rparr>)"
| server_clears: "i < length (as_servers s) \<Longrightarrow> sv_state (as_servers s ! i) = Flagged \<Longrightarrow>
     app_step s (s\<lparr>as_ready := False,
       as_servers := (as_servers s)[i := (as_servers s ! i)\<lparr>sv_state := DownError\<rparr>]\<rparr>)"
| server_ends: "i < length (as_servers s) \<Longrightarrow> sv_state (as_servers s ! i) = Up \<Longrightarrow>
     app_step s (s\<lparr>as_servers :=
       (as_servers s)[i := (report_if_silent Dropped (as_servers s ! i))\<lparr>sv_state := DownOk\<rparr>]\<rparr>)"
| received: "as_phase s = Awaiting k \<Longrightarrow> k < length (as_servers s) \<Longrightarrow>
     sv_report (as_servers s ! k) = Some Bound \<Longrightarrow>
     app_step s (s\<lparr>as_phase := Awaiting (Suc k)\<rparr>)"
| start_fails: "as_phase s = Awaiting k \<Longrightarrow> k < length (as_servers s) \<Longrightarrow>
     sv_report (as_servers s ! k) = Some r \<Longrightarrow> r \<noteq> Bound \<Longrightarrow> app_step s (stop_app s)"
| check: "as_phase s = Awaiting (length (as_servers s)) \<Longrightarrow> \<not> as_failed s \<Longrightarrow>
     app_step s (s\<lparr>as_phase := Checked\<rparr>)"
| check_fails: "as_phase s = Awaiting (length (as_servers s)) \<Longrightarrow> as_failed s \<Longrightarrow>
     app_step s (stop_app s)"
| store_ready: "as_phase s = Checked \<Longrightarrow> app_step s (s\<lparr>as_ready := True, as_phase := Ready\<rparr>)"
| shutdown: "as_phase s = Ready \<Longrightarrow> app_step s (stop_app s)"

subsection \<open>Readiness means bound\<close>

fun awaited :: "app_phase \<Rightarrow> nat \<Rightarrow> nat" where
  "awaited (Awaiting k) n = k"
| "awaited Checked n = n"
| "awaited Ready n = n"
| "awaited Stopped n = 0"

definition app_inv :: "nat \<Rightarrow> app_sys \<Rightarrow> bool" where
  "app_inv n s \<longleftrightarrow>
     length (as_servers s) = n
     \<and> (as_ready s \<longrightarrow> as_phase s = Ready)
     \<and> (\<forall>i < awaited (as_phase s) n. i < n \<longrightarrow> sv_report (as_servers s ! i) = Some Bound)"

lemma sv_report_if_silent [simp]:
  "sv_report v = Some r \<Longrightarrow> sv_report (report_if_silent r' v) = Some r"
  by (simp add: report_if_silent_def)

lemma update_keeps_report:
  assumes "\<forall>i < k. i < length vs \<longrightarrow> sv_report (vs ! i) = Some Bound"
    and "\<And>r. sv_report (vs ! j) = Some r \<Longrightarrow> sv_report v = Some r"
  shows "\<forall>i < k. i < length vs \<longrightarrow> sv_report (vs[j := v] ! i) = Some Bound"
proof (intro allI impI)
  fix i
  assume i: "i < k" "i < length vs"
  then show "sv_report (vs[j := v] ! i) = Some Bound"
    using assms by (cases "i = j") simp_all
qed

lemma app_step_inv:
  assumes inv: "app_inv n s" and step: "app_step s t"
  shows "app_inv n t"
proof -
  have keep: "\<forall>i < awaited (as_phase s) n. i < n \<longrightarrow> sv_report ((as_servers s)[j := v] ! i) = Some Bound"
    if "\<And>r. sv_report (as_servers s ! j) = Some r \<Longrightarrow> sv_report v = Some r" for j v
    using update_keeps_report [of "awaited (as_phase s) n" "as_servers s" j v] that inv
    by (simp add: app_inv_def)
  show ?thesis
    using step
  proof cases
    case (received k)
    then show ?thesis using inv by (auto simp: app_inv_def less_Suc_eq)
  next
    case check
    then show ?thesis using inv by (simp add: app_inv_def)
  qed (use inv keep in \<open>auto simp: app_inv_def stop_app_def\<close>)
qed

interpretation app: inductive_invariant "app_init n" app_step "app_inv n" for n
proof unfold_locales
  fix s
  assume "app_init n s"
  then show "app_inv n s" by (simp add: app_init_def app_inv_def)
qed (rule app_step_inv)

subsection \<open>A failure after start\<close>

text \<open>Once \<open>start\<close> has stored \<open>ready\<close>, nothing sets it again.\<close>

definition started :: "app_sys \<Rightarrow> bool" where
  "started s \<longleftrightarrow> as_phase s = Ready \<or> as_phase s = Stopped"

lemma started_step:
  assumes "app_step s t" and "started s"
  shows "started t \<and> (as_ready t \<longrightarrow> as_ready s)"
  using assms by cases (auto simp: started_def stop_app_def)

definition down_unready :: "nat \<Rightarrow> app_sys \<Rightarrow> bool" where
  "down_unready i s \<longleftrightarrow> started s \<and> (sv_state (as_servers s ! i) = DownError \<longrightarrow> \<not> as_ready s)"

lemma down_unready_step:
  assumes "app_step s t" and "down_unready i s"
  shows "down_unready i t"
proof -
  have "started t" and ready: "as_ready t \<longrightarrow> as_ready s"
    using started_step [OF assms(1)] assms(2) by (simp_all add: down_unready_def)
  moreover have "\<not> as_ready t" if "sv_state (as_servers t ! i) = DownError"
    using assms(1) that assms(2)
    by cases (auto simp: down_unready_def started_def stop_app_def report_if_silent_def nth_list_update split: if_splits)
  ultimately show ?thesis by (simp add: down_unready_def)
qed

lemma failure_after_start:
  assumes "app_step\<^sup>*\<^sup>* s t" and "started s" and "sv_state (as_servers s ! i) \<noteq> DownError"
    and "sv_state (as_servers t ! i) = DownError"
  shows "\<not> as_ready t"
proof -
  have "down_unready i s" using assms(2,3) by (simp add: down_unready_def)
  with assms(1) have "down_unready i t"
    by (induction rule: rtranclp_induct) (auto intro: down_unready_step)
  then show ?thesis using assms(4) by (simp add: down_unready_def)
qed

lemma stopped_stays:
  assumes "app_step\<^sup>*\<^sup>* s t" and "as_phase s = Stopped" and "\<not> as_ready s"
  shows "as_phase t = Stopped \<and> \<not> as_ready t"
  using assms
proof (induction rule: rtranclp_induct)
  case (step t u)
  from step.hyps(2) show ?case by cases (use step in \<open>auto simp: stop_app_def\<close>)
qed simp

end
