(* ===== verification/Healthcheck.thy ===== *)
theory Healthcheck
  imports Doh_Common
begin

section \<open>The health endpoint (\<open>src/readers/healthcheck.rs\<close>)\<close>

text \<open>
  \<open>handle_healthcheck\<close> for the readiness it loads and the metrics it reads. The JSON texts
  \<open>serde_json\<close> prints and the rendering of a duration are the parameter \<open>health_lib\<close>.
\<close>

record health_lib =
  hl_show_seconds :: "u64 \<Rightarrow> string"
  hl_metrics_json :: "metrics \<Rightarrow> string + string"
  hl_status_json :: "(string \<times> string) list \<Rightarrow> string"

definition plain_response :: "nat \<Rightarrow> string \<Rightarrow> http_response" where
  "plain_response status body = \<lparr>resp_status = status, resp_headers = [], resp_body = bytes_of body\<rparr>"

definition typed_response :: "nat \<Rightarrow> string \<Rightarrow> string \<Rightarrow> http_response" where
  "typed_response status ctype body =
     \<lparr>resp_status = status, resp_headers = [(''content-type'', ctype)], resp_body = bytes_of body\<rparr>"

definition quoted :: "string \<Rightarrow> string" where
  "quoted s = CHR 0x22 # s @ [CHR 0x22]"

definition status_object :: "string \<Rightarrow> string" where
  "status_object status = ''{'' @ quoted ''status'' @ '':'' @ quoted status @ ''}''"

definition handle_healthcheck ::
    "health_lib \<Rightarrow> http_method \<Rightarrow> string \<Rightarrow> string \<Rightarrow> metrics \<Rightarrow> bool \<Rightarrow> string + http_response" where
  "handle_healthcheck lib method path healthcheck_path m ready =
     (if method \<noteq> GET then Inr (plain_response 405 ''Method not allowed'')
      else if path = ''/live''
        then Inr (typed_response 200 ''application/json'' (status_object ''live''))
      else if path = ''/ready''
        then Inr (typed_response (if ready then 200 else 503) ''application/json''
               (status_object (if ready then ''ready'' else ''not_ready'')))
      else if path = ''/metrics'' \<or> path = ''/stats''
        then Inr (typed_response 200 ''text/plain; version=0.0.4'' (prometheus (hl_show_seconds lib) m))
      else if path = ''/metrics/json''
        then and_then (hl_metrics_json lib (snapshot m)) (\<lambda>json.
             Inr (typed_response 200 ''application/json'' json))
      else if path \<noteq> healthcheck_path then Inr (plain_response 404 ''Not found'')
      else Inr (typed_response (if ready then 200 else 503) ''application/json''
             (hl_status_json lib [(''status'', if ready then ''ready'' else ''not_ready''),
                                  (''service'', ''dns-proxy'')])))"

text \<open>The paths answered before the configured one is compared.\<close>

definition fixed_paths :: "string list" where
  "fixed_paths = [''/live'', ''/ready'', ''/metrics'', ''/stats'', ''/metrics/json'']"

lemma response_status [simp]:
  "resp_status (plain_response status body) = status"
  "resp_status (typed_response status ctype body) = status"
  by (simp_all add: plain_response_def typed_response_def)

lemma handle_healthcheck_ready:
  assumes "path = ''/ready'' \<or> path = hp \<and> hp \<notin> set fixed_paths"
  shows "\<exists>r. handle_healthcheck lib GET path hp m ready = Inr r \<and> resp_status r = (if ready then 200 else 503)"
  using assms
proof
  assume "path = ''/ready''"
  then show ?thesis by (simp add: handle_healthcheck_def)
next
  assume "path = hp \<and> hp \<notin> set fixed_paths"
  then show ?thesis by (simp add: handle_healthcheck_def fixed_paths_def)
qed

lemma handle_healthcheck_unavailable:
  assumes run: "handle_healthcheck lib method path hp m ready = Inr r" and status: "resp_status r = 503"
  shows "\<not> ready \<and> method = GET \<and> (path = ''/ready'' \<or> path = hp)"
proof -
  have get: "method = GET"
    by (rule ccontr) (use run status in \<open>auto simp: handle_healthcheck_def\<close>)
  have live: "path \<noteq> ''/live''"
    by (rule notI) (use run status get in \<open>auto simp: handle_healthcheck_def\<close>)
  have counters: "\<not> (path = ''/metrics'' \<or> path = ''/stats'')"
    by (rule notI) (use run status get in \<open>auto simp: handle_healthcheck_def\<close>)
  have json: "path \<noteq> ''/metrics/json''"
    by (rule notI) (use run status get in \<open>auto simp: handle_healthcheck_def res_simps\<close>)
  show ?thesis
  proof (cases "path = ''/ready''")
    case True
    with run status get show ?thesis by (auto simp: handle_healthcheck_def split: if_splits)
  next
    case False
    with assms(1) get live counters json have "(if path \<noteq> hp then Inr (plain_response 404 ''Not found'')
      else Inr (typed_response (if ready then 200 else 503) ''application/json''
             (hl_status_json lib [(''status'', if ready then ''ready'' else ''not_ready''),
                                  (''service'', ''dns-proxy'')]))) = Inr r"
      by (simp add: handle_healthcheck_def split: if_splits)
    with status get show ?thesis by (auto split: if_splits)
  qed
qed

lemma handle_healthcheck_fixed:
  assumes "path \<in> set fixed_paths" and "path \<noteq> ''/ready''" and run: "handle_healthcheck lib GET path hp m ready = Inr r"
  shows "resp_status r = 200"
proof -
  consider "path = ''/live''" | "path = ''/metrics'' \<or> path = ''/stats''" | "path = ''/metrics/json''"
    using assms(1,2) by (auto simp: fixed_paths_def)
  then show ?thesis
    using run by cases (auto simp: handle_healthcheck_def res_simps)
qed

end
