(* ===== verification/Doq_Server.thy ===== *)
theory Doq_Server
  imports Rewriter Metrics Doq_Forward
begin

section \<open>A DoQ connection (\<open>src/readers/doq.rs\<close>)\<close>

text \<open>
  The name a connection is forwarded to, and what the ends of its streams do to the
  metrics and to the connection. Streams end in any order, and the peer may open a
  unidirectional stream, which DoQ forbids; the model takes the sequence of these
  events. Closing a connection that is closed has no effect.
\<close>

text \<open>The handshake data, if there are any, with the server name they carry.\<close>

definition doq_target ::
    "base_sni_rewriter \<Rightarrow> string option option \<Rightarrow> dns_proxy_error + string" where
  "doq_target rw handshake =
     and_then (ok_or (InvalidInput ''DoQ requires TLS SNI hostname'') handshake) (\<lambda>server_name.
     and_then (ok_or (InvalidInput ''DoQ requires TLS SNI hostname'') server_name) (\<lambda>source_hostname.
     and_then (ok_or (SniRewrite (NoMatchingBaseDomain source_hostname)) (rewrite rw source_hostname)) (\<lambda>r.
     Inr (rr_target_hostname r))))"

datatype doq_event =
    StreamEnded "dns_proxy_error + u64 \<times> u64" nat  \<comment> \<open>the result of \<open>forward_quic_stream\<close> and its duration\<close>
  | StreamCancelled                               \<comment> \<open>shutdown won against forwarding\<close>
  | UniAccepted

record doq_connection =
  dq_metrics :: metrics
  dq_closed :: "(nat \<times> string) option"

definition close_connection :: "nat \<Rightarrow> string \<Rightarrow> doq_connection \<Rightarrow> doq_connection" where
  "close_connection code reason c =
     (case dq_closed c of None \<Rightarrow> c\<lparr>dq_closed := Some (code, reason)\<rparr> | Some _ \<Rightarrow> c)"

fun doq_event_step :: "doq_event \<Rightarrow> doq_connection \<Rightarrow> doq_connection" where
  "doq_event_step (StreamEnded (Inr (received, sent)) elapsed) c =
     c\<lparr>dq_metrics := record_request True received sent elapsed (dq_metrics c)\<rparr>"
| "doq_event_step (StreamEnded (Inl err) elapsed) c =
     (let c = c\<lparr>dq_metrics := record_upstream_error (record_request False 0 0 elapsed (dq_metrics c))\<rparr>
      in case err of
           Protocol _ \<Rightarrow> close_connection 2 ''DoQ protocol error'' c
         | _ \<Rightarrow> c)"
| "doq_event_step StreamCancelled c = c"
| "doq_event_step UniAccepted c = close_connection 2 ''DoQ unidirectional stream'' c"

definition doq_events :: "doq_event list \<Rightarrow> doq_connection \<Rightarrow> doq_connection" where
  "doq_events evs c = fold doq_event_step evs c"

text \<open>The task of a stream that shutdown does not cut off: forwarding, and what becomes of its result.\<close>

definition doq_stream_task ::
    "'w doq_io \<Rightarrow> string \<Rightarrow> u16 \<Rightarrow> nat \<Rightarrow> doq_connection \<Rightarrow> 'w \<Rightarrow> (doq_connection \<times> 'w) option" where
  "doq_stream_task io target upstream_port elapsed c w =
     (case forward_quic_stream io target upstream_port w of
        None \<Rightarrow> None
      | Some (result, w') \<Rightarrow> Some (doq_event_step (StreamEnded result elapsed) c, w'))"

subsection \<open>When a connection is closed, and what it counts\<close>

fun is_violation :: "doq_event \<Rightarrow> bool" where
  "is_violation (StreamEnded (Inl (Protocol _)) elapsed) = True"
| "is_violation UniAccepted = True"
| "is_violation _ = False"

fun is_stream_end :: "doq_event \<Rightarrow> bool" where
  "is_stream_end (StreamEnded r elapsed) = True"
| "is_stream_end _ = False"

lemma doq_event_step_closed:
  "dq_closed (doq_event_step ev c) \<noteq> None \<longleftrightarrow> dq_closed c \<noteq> None \<or> is_violation ev"
proof (cases ev)
  case (StreamEnded r elapsed)
  then show ?thesis
    by (cases r; cases "projl r"; cases "dq_closed c")
       (auto simp: close_connection_def Let_def)
qed (auto simp: close_connection_def split: option.splits)

lemma doq_event_step_counts:
  "total_requests (dq_metrics (doq_event_step ev c)) =
     total_requests (dq_metrics c) + (if is_stream_end ev then 1 else 0)"
  by (cases "(ev, c)" rule: doq_event_step.cases)
     (auto simp: close_connection_def Let_def split: option.splits dns_proxy_error.splits)

lemma doq_event_step_sni:
  "sni_rewrites (dq_metrics (doq_event_step ev c)) = sni_rewrites (dq_metrics c)"
  by (cases "(ev, c)" rule: doq_event_step.cases)
     (auto simp: close_connection_def Let_def split: option.splits dns_proxy_error.splits)

lemma doq_events_closed_iff:
  "dq_closed (doq_events evs c) \<noteq> None \<longleftrightarrow> dq_closed c \<noteq> None \<or> list_ex is_violation evs"
  unfolding doq_events_def
proof (induction evs arbitrary: c)
  case Nil
  then show ?case by simp
next
  case (Cons ev evs)
  show ?case
    using Cons.IH [of "doq_event_step ev c"] doq_event_step_closed [of ev c] by auto
qed

definition closed_as_violation :: "doq_connection \<Rightarrow> bool" where
  "closed_as_violation c \<longleftrightarrow> (\<forall>x. dq_closed c = Some x \<longrightarrow> fst x = 2)"

lemma closed_as_violation_step: "closed_as_violation c \<Longrightarrow> closed_as_violation (doq_event_step ev c)"
  by (cases "(ev, c)" rule: doq_event_step.cases)
     (auto simp: closed_as_violation_def close_connection_def Let_def
       split: option.splits dns_proxy_error.splits)

lemma doq_events_code: "closed_as_violation c \<Longrightarrow> closed_as_violation (doq_events evs c)"
  unfolding doq_events_def
  by (induction evs arbitrary: c) (simp_all add: closed_as_violation_step)

lemma doq_events_counts:
  "total_requests (dq_metrics (doq_events evs c)) =
     total_requests (dq_metrics c) + of_nat (length (filter is_stream_end evs))
   \<and> sni_rewrites (dq_metrics (doq_events evs c)) = sni_rewrites (dq_metrics c)"
  unfolding doq_events_def
  by (induction evs arbitrary: c) (simp_all add: doq_event_step_counts doq_event_step_sni)

end
