(* ===== verification/Props_Runtime.thy ===== *)
theory Props_Runtime
  imports Props_Http Dot Task_Spec Listener App Healthcheck Doq_Server
begin

section \<open>Properties of connections, tasks and the application\<close>

text \<open>
  DoT relaying under any schedule, the fate of a DoQ connection, the promises of task groups and
  accept loops, and what readiness says about the servers.
\<close>

subsection \<open>DNS over TLS\<close>

record dot_script =
  dw_source :: "relay_dir \<Rightarrow> source"
  dw_sink :: "relay_dir \<Rightarrow> bytes"

fun scripted_read :: "source \<Rightarrow> (string + bytes) timed" where
  "scripted_read ([], AtFin) = Done (Inr [])"
| "scripted_read ([], AtReset msg) = Done (Inl msg)"
| "scripted_read ([], Silent) = Elapsed"
| "scripted_read (b # data, e) = Done (Inr (take (16 * 1024) (b # data)))"

definition script_dot_io :: "dot_script dot_io" where
  "script_dot_io =
     \<lparr>dio_connect = (\<lambda>_ _ w. (Done (Inr ()), w)), dio_server_name = (\<lambda>_. Inr ()),
      dio_tls_connect = (\<lambda>_ w. (Done (Inr ()), w)),
      dio_read = (\<lambda>d w. (scripted_read (dw_source w d),
         w\<lparr>dw_source := (dw_source w)(d := (drop (16 * 1024) (fst (dw_source w d)), snd (dw_source w d)))\<rparr>)),
      dio_write = (\<lambda>d b w. (Done (Inr (length b)), w\<lparr>dw_sink := (dw_sink w)(d := dw_sink w d @ b)\<rparr>)),
      dio_shutdown = (\<lambda>_ w. (Done (Inr ()), w))\<rparr>"

lemma script_dot_read_law: "dot_read_law script_dot_io (\<lambda>d w. dw_source w d)"
  unfolding dot_read_law_def
proof (intro allI impI)
  fix d and w :: dot_script and data e
  assume s: "dw_source w d = (data, e)"
  show "if data = [] then fst (dio_read script_dot_io d w)
          = (case e of AtFin \<Rightarrow> Done (Inr []) | AtReset msg \<Rightarrow> Done (Inl msg) | Silent \<Rightarrow> Elapsed)
        \<and> dw_source (snd (dio_read script_dot_io d w)) d = (data, e)
      else \<exists>k. 0 < k \<and> k \<le> min (length data) (16 * 1024)
        \<and> fst (dio_read script_dot_io d w) = Done (Inr (take k data))
        \<and> dw_source (snd (dio_read script_dot_io d w)) d = (drop k data, e)"
  proof (cases data)
    case Nil
    then show ?thesis using s by (cases e) (simp_all add: script_dot_io_def)
  next
    case (Cons b bs)
    let ?k = "min (length data) (16 * 1024)"
    have "take ?k data = take (16 * 1024) data" "drop ?k data = drop (16 * 1024) data"
      by (simp_all add: min_def)
    then show ?thesis
      using s Cons by (auto simp: script_dot_io_def intro!: exI [of _ ?k])
  qed
qed

lemma script_dot_law: "dot_law script_dot_io (\<lambda>d w. dw_source w d) (\<lambda>d w. dw_sink w d) (\<lambda>_ _. False)"
  unfolding dot_law_def dot_write_law_def using script_dot_read_law
  by (auto simp: script_dot_io_def)

definition sample_dot_script :: dot_script where
  "sample_dot_script =
     \<lparr>dw_source = (\<lambda>d. case d of ToUpstream \<Rightarrow> ([0, 2, 7, 7], AtFin) | ToClient \<Rightarrow> ([0, 1, 9], AtFin)),
      dw_sink = (\<lambda>_. [])\<rparr>"

lemma sample_dot_connect:
  "dot_connect script_dot_io sample_rw ''a.example.org'' 853 w = (Inr (host_port ''a.example.cn'' 853), w)"
  by (simp add: dot_connect_def sample_rewrite sample_result_def script_dot_io_def bind_io_def timed_io_def Let_def)


text \<open>
  A peer that breaks off while the other direction holds what it read: the client's stream is
  reset after the upstream's three bytes were read, and they are gone.
\<close>

definition reset_script :: dot_script where
  "reset_script =
     \<lparr>dw_source = (\<lambda>d. case d of ToUpstream \<Rightarrow> ([], AtReset ''gone'') | ToClient \<Rightarrow> ([0, 1, 9], AtFin)),
      dw_sink = (\<lambda>_. [])\<rparr>"

lemma reset_loses_buffer:
  "\<exists>w'. dot_handle_connection script_dot_io sample_rw ''a.example.org'' 853 [ToClient, ToUpstream] 5 metrics_new
        reset_script = (Some (Inl (Io ''gone'')), record_request False 0 0 5 metrics_new, w')
     \<and> dw_sink w' ToClient = [] \<and> fst (dw_source w' ToClient) = []"
proof -
  let ?up = "host_port ''a.example.cn'' 853"
  let ?w1 = "reset_script\<lparr>dw_source := (dw_source reset_script)(ToClient := ([], AtFin))\<rparr>"
  let ?w2 = "?w1\<lparr>dw_source := (dw_source ?w1)(ToUpstream := ([], AtReset ''gone''))\<rparr>"
  let ?h = "(\<lambda>_. Running 0)(ToClient := Writing 0 3 [0, 1, 9])"
  have read: "dio_read script_dot_io d w = (scripted_read (dw_source w d),
      w\<lparr>dw_source := (dw_source w)(d := (drop (16 * 1024) (fst (dw_source w d)), snd (dw_source w d)))\<rparr>)" for d w
    by (simp add: script_dot_io_def)
  have s1: "relay_step script_dot_io ToClient ?up (Running 0) reset_script = (Inr (Writing 0 3 [0, 1, 9]), ?w1)"
    by (simp add: relay_step.simps bind_io_def timed_io_def return_io_def read reset_script_def)
  have s2: "relay_step script_dot_io ToUpstream ?up (Running 0) ?w1 = (Inl (Io ''gone''), ?w2)"
    by (simp add: relay_step.simps bind_io_def timed_io_def return_io_def read reset_script_def)
  have "try_join_relay script_dot_io ?up [ToClient, ToUpstream] (\<lambda>_. Running 0) reset_script
      = (Some (Inl (Io ''gone'')), ?w2)"
    by (simp add: try_join_relay_running(2) s1 s2)
  then show ?thesis
    by (simp add: dot_handle_connection_def sample_dot_connect reset_script_def)
qed


text \<open>
  C21 A DoT connection completes: if both peers end their streams and take what is written, any
  schedule that gives each direction two turns for each of its bytes and two for the end (read
  and write, the last read and the shutdown) ends the connection with success, the two byte
  counts recorded and everything delivered, however the turns are ordered.
\<close>

theorem dot_relay_completes:
  assumes law: "dot_law io src sink (\<lambda>_ _. False)" and conn: "dot_connect io rw host port w = (Inr upstream, w1)"
    and turns: "\<forall>d. snd (src d w1) = AtFin \<and> 2 * length (fst (src d w1)) + 2 \<le> count_list sched d"
  shows "\<exists>w'. dot_handle_connection io rw host port sched elapsed m w
      = (Some (Inr ()), record_request True (of_nat (length (fst (src ToUpstream w1))))
           (of_nat (length (fst (src ToClient w1)))) elapsed m, w')
    \<and> (\<forall>d. sink d w' = sink d w1 @ fst (src d w1))"
proof -
  have start: "\<forall>d. half_ok src sink w1 (Running 0) w1 d" by (simp add: half_ok_start)
  have "\<forall>d. turns_left src sched (\<lambda>_. Running 0) w1 d"
    using turns by (simp add: turns_left_def)
  from try_join_relay_completes [OF law start this]
  obtain a b w2 where join: "try_join_relay io upstream sched (\<lambda>_. Running 0) w1 = (Some (Inr (a, b)), w2)"
    by blast
  from try_join_relay_inv [OF law start join] obtain h where h: "\<forall>d. half_ok src sink w1 (h d) w2 d"
    and res: "relay_result_ok src (\<lambda>_ _. False) w1 h (Some (Inr (a, b))) w2" by blast
  have ab: "a = of_nat (length (fst (src ToUpstream w1)))" "b = of_nat (length (fst (src ToClient w1)))"
    using res by (simp_all add: relay_result_ok_def)
  have "sink d w2 = sink d w1 @ fst (src d w1)" for d
  proof -
    have "src d w2 = ([], AtFin)" "held (h d) = []" using res by (simp_all add: relay_result_ok_def)
    then show ?thesis using h [rule_format, of d] by (auto simp: half_ok_def)
  qed
  then show ?thesis
    using conn join ab by (simp add: dot_handle_connection_def)
qed

theorem dot_relay_completes_witness:
  "\<exists>w'. dot_handle_connection script_dot_io sample_rw ''a.example.org'' 853
       (replicate 10 ToUpstream @ replicate 8 ToClient) 5 metrics_new sample_dot_script
      = (Some (Inr ()), record_request True 4 3 5 metrics_new, w')
     \<and> dw_sink w' ToClient = [0, 1, 9]"
proof -
  have src: "dw_source sample_dot_script ToUpstream = ([0, 2, 7, 7], AtFin)"
    "dw_source sample_dot_script ToClient = ([0, 1, 9], AtFin)"
    by (simp_all add: sample_dot_script_def)
  have turns: "\<forall>d. snd (dw_source sample_dot_script d) = AtFin
      \<and> 2 * length (fst (dw_source sample_dot_script d)) + 2
          \<le> count_list (replicate 10 ToUpstream @ replicate 8 ToClient) d"
  proof
    fix d
    show "snd (dw_source sample_dot_script d) = AtFin
        \<and> 2 * length (fst (dw_source sample_dot_script d)) + 2
            \<le> count_list (replicate 10 ToUpstream @ replicate 8 ToClient) d"
      by (cases d) (simp_all add: src numeral_eq_Suc)
  qed
  show ?thesis
    using dot_relay_completes [OF script_dot_law sample_dot_connect turns, of 5 metrics_new]
    by (auto simp: src sample_dot_script_def)
qed

subsection \<open>A DoQ connection\<close>

text \<open>
  When a DoQ connection is closed and what it counts: an open connection is closed exactly if a
  stream ended with a protocol error or the peer opened a unidirectional stream, and then with
  application code 2; every stream that ended is one request, a cancelled one is none, and no
  rewrite is ever counted.
\<close>

lemma doq_connection_events:
  assumes "dq_closed c = None"
  shows "(dq_closed (doq_events evs c) \<noteq> None \<longleftrightarrow> (\<exists>ev \<in> set evs. is_violation ev))
    \<and> (\<forall>code reason. dq_closed (doq_events evs c) = Some (code, reason) \<longrightarrow> code = 2)
    \<and> total_requests (dq_metrics (doq_events evs c))
        = total_requests (dq_metrics c) + of_nat (length (filter is_stream_end evs))
    \<and> sni_rewrites (dq_metrics (doq_events evs c)) = sni_rewrites (dq_metrics c)"
proof -
  have "closed_as_violation (doq_events evs c)"
    by (rule doq_events_code) (simp add: closed_as_violation_def assms)
  then show ?thesis
    using doq_events_closed_iff [of evs c] doq_events_counts [of evs c] assms
    by (auto simp: closed_as_violation_def list_ex_iff)
qed

subsection \<open>Task groups\<close>

text \<open>One task was accepted and started, the group closed, and the deadline passed.\<close>

definition started_group :: task_group where
  "started_group = \<lparr>tg_closed = True, tg_closer_sends = False, tg_alive = True, tg_queue = [Shutdown],
     tg_supervisor = Looping, tg_running = {7}, tg_finished = {}, tg_aborted = {},
     tg_accepted = {7}, tg_rejected = {}\<rparr>"

definition aborted_group :: task_group where
  "aborted_group = \<lparr>tg_closed = True, tg_closer_sends = False, tg_alive = True, tg_queue = [],
     tg_supervisor = Ended, tg_running = {}, tg_finished = {}, tg_aborted = {7},
     tg_accepted = {7}, tg_rejected = {}\<rparr>"

lemma started_group_reachable: "reachable task_init task_step started_group"
proof -
  let ?g1 = "spawn_command 7 task_group_default"
  let ?g2 = "?g1\<lparr>tg_queue := [], tg_running := {7}\<rparr>"
  let ?g3 = "close_group ?g2"
  have "reachable task_init task_step task_group_default"
    by (rule reachable_init) (simp add: task_init_def)
  moreover have "task_step task_group_default ?g1"
    by (rule task_step.spawn) (simp_all add: fresh_task_def task_group_default_def)
  moreover have "task_step ?g1 ?g2"
    using recv_spawn [of ?g1 7 "[]"]
    by (simp add: spawn_command_def start_supervisor_def task_group_default_def Let_def)
  moreover have "task_step ?g2 ?g3"
    by (rule task_step.close) (simp add: spawn_command_def start_supervisor_def task_group_default_def Let_def)
  moreover have "task_step ?g3 started_group"
    using send [of ?g3]
    by (simp add: spawn_command_def start_supervisor_def close_group_def send_shutdown_def
        task_group_default_def started_group_def Let_def)
  ultimately show ?thesis by (blast intro: reachable_step)
qed

lemma aborted_group_steps: "task_step\<^sup>*\<^sup>* started_group aborted_group"
proof -
  let ?g = "started_group\<lparr>tg_queue := [], tg_supervisor := Shutting\<rparr>"
  have "task_step started_group ?g"
    by (rule recv_shutdown) (simp_all add: started_group_def)
  moreover have "task_step ?g aborted_group"
    using deadline [of ?g] by (simp add: started_group_def aborted_group_def)
  ultimately show ?thesis by (meson converse_rtranclp_into_rtranclp r_into_rtranclp)
qed

text \<open>
  C14 No task outlives its group: once the supervisor of a group has ended, nothing runs in it, every
  task it ever accepted has finished or was aborted, and no later step takes another one; this
  holds for tasks that race with the closing, whichever way it goes.
\<close>

theorem ended_group_for_good:
  assumes "reachable task_init task_step g" and "tg_supervisor g = Ended" and "task_step\<^sup>*\<^sup>* g g'"
  shows "tg_supervisor g' = Ended \<and> tg_running g' = {} \<and> tg_queue g' = [] \<and> tg_accepted g' = tg_accepted g
    \<and> tg_accepted g' = tg_finished g' \<union> tg_aborted g'"
proof -
  have inv: "task_inv g" by (rule task_groups.reachable_inv [OF assms(1)])
  from ended_stays [OF inv assms(2,3)] have ended: "tg_supervisor g' = Ended" and inv': "task_inv g'"
    and same: "tg_accepted g' = tg_accepted g" by simp_all
  have "tg_queue g' = []" using inv' ended by (simp add: task_inv_def task_phase_def)
  then show ?thesis using ended same ended_group(1,2) [OF inv' ended] by simp
qed

theorem ended_group_for_good_witness:
  "tg_accepted (spawn_command 8 aborted_group) = tg_accepted aborted_group"
proof -
  have "reachable task_init task_step aborted_group"
    by (rule reachable_steps [OF aborted_group_steps started_group_reachable])
  moreover have "task_step aborted_group (spawn_command 8 aborted_group)"
    by (rule task_step.spawn) (simp_all add: fresh_task_def aborted_group_def)
  ultimately show ?thesis
    using ended_group_for_good [of aborted_group "spawn_command 8 aborted_group"]
    by (simp add: aborted_group_def r_into_rtranclp)
qed

text \<open>
  C10 A task group refines its contract: every step of the lock, channel and supervisor is a step of
  the abstract group that takes tasks while it is open, ends them one by one, and ends the rest
  only once it is closed or abandoned by all its holders, or is invisible to it.
\<close>

theorem task_group_refines:
  assumes "reachable task_init task_step g" and "task_step g g'"
  shows "group_step (group_of g) (group_of g') \<or> group_of g' = group_of g"
  using task_step_refines [OF _ _ assms(2)] task_ids.reachable_inv [OF assms(1)] by blast

theorem task_group_refines_witness:
  "group_step (group_of started_group) (group_of (started_group\<lparr>tg_running := {}, tg_finished := {7}\<rparr>))
     \<or> group_of (started_group\<lparr>tg_running := {}, tg_finished := {7}\<rparr>) = group_of started_group"
proof (rule task_group_refines [OF started_group_reachable])
  show "task_step started_group (started_group\<lparr>tg_running := {}, tg_finished := {7}\<rparr>)"
    using join_next [of 7 started_group] by (simp add: started_group_def)
qed

text \<open>
  Closing a group ends it: once the closer is about to send the shutdown command or has sent it,
  the group can reach its end, whatever its queue and its tasks do, a task that ignores the
  shutdown included.
\<close>

lemma closed_group_can_end:
  assumes "reachable task_init task_step g" and "tg_closer_sends g \<or> Shutdown \<in> set (tg_queue g)"
  shows "\<exists>g'. task_step\<^sup>*\<^sup>* g g' \<and> tg_supervisor g' = Ended"
proof -
  have inv: "task_inv g" by (rule task_groups.reachable_inv [OF assms(1)])
  show ?thesis
  proof (cases "tg_closer_sends g")
    case True
    then have step: "task_step g (send_shutdown g)" by (rule send)
    have "\<exists>g'. task_step\<^sup>*\<^sup>* (send_shutdown g) g' \<and> tg_supervisor g' = Ended"
      by (rule sent_shutdown_ends [OF task_step_inv [OF inv step]]) (simp add: send_shutdown_def)
    with step show ?thesis by (meson converse_rtranclp_into_rtranclp)
  next
    case False
    then show ?thesis using sent_shutdown_ends [OF inv] assms(2) by blast
  qed
qed

subsection \<open>Accept loops\<close>

definition idle_listener :: listener_sys where
  "idle_listener = \<lparr>ln_phase = Accepting, ln_permits = 1, ln_tasks = {#}, ln_streams = {#},
     ln_watchers = {#}, ln_next = 0, ln_cancelled = False, ln_closed = None, ln_backoff = backoff_new\<rparr>"

definition full_listener :: listener_sys where
  "full_listener = idle_listener\<lparr>ln_next := 2, ln_phase := WaitingPermit 1, ln_permits := 0,
     ln_tasks := {#Handshaking 0#}\<rparr>"

lemma full_listener_reachable: "reachable (listener_init 1) (listener_step DoqReader 100) full_listener"
proof -
  let ?s1 = "idle_listener\<lparr>ln_phase := WaitingPermit 0, ln_next := 1\<rparr>"
  let ?s2 = "idle_listener\<lparr>ln_next := 1, ln_phase := Accepting, ln_permits := 0, ln_tasks := {#Handshaking 0#}\<rparr>"
  have "reachable (listener_init 1) (listener_step DoqReader 100) idle_listener"
    by (rule reachable_init) (simp add: listener_init_def idle_listener_def)
  moreover have "listener_step DoqReader 100 idle_listener ?s1"
    using listener_step.loop [OF loop_step.accept [of idle_listener DoqReader 100]] by (simp add: idle_listener_def)
  moreover have "listener_step DoqReader 100 ?s1 ?s2"
    using listener_step.loop [OF permit [of ?s1 0 0 DoqReader 100]] by (simp add: first_phase_def idle_listener_def)
  moreover have "listener_step DoqReader 100 ?s2 full_listener"
    using listener_step.loop [OF loop_step.accept [of ?s2 DoqReader 100]]
    by (simp add: full_listener_def idle_listener_def numeral_2_eq_2)
  ultimately show ?thesis by (blast intro: reachable_step)
qed

text \<open>
  What a listener bounds: free permits and connection tasks always add up to
  \<open>max_connections_per_listener\<close>, no connection has more than
  \<open>max_inflight_requests_per_connection\<close> stream tasks, so the streams of the connections being
  served are at most the product. A \<open>run\<close> that returns leaves nothing behind, unless the
  application closed the task group first; and whoever closed it, no connection or stream is
  taken on afterwards.
\<close>

lemma listener_bounds:
  assumes "reachable (listener_init m) (listener_step r max_streams) s"
  shows "ln_permits s + size (ln_tasks s) = m
    \<and> (\<forall>c. count (ln_streams s) c \<le> max_streams)
    \<and> size (filter_mset (\<lambda>c. c \<in> served s) (ln_streams s)) \<le> m * max_streams
    \<and> (ln_phase s = accept_phase.Stopped \<longrightarrow> ln_closed s = Some ByApp \<or> ln_tasks s = {#} \<and> ln_streams s = {#})
    \<and> (\<forall>t. ln_closed s \<noteq> None \<and> (listener_step r max_streams)\<^sup>*\<^sup>* s t
          \<longrightarrow> size (ln_tasks t) \<le> size (ln_tasks s) \<and> ln_streams t \<subseteq># ln_streams s)"
proof -
  have inv: "listener_inv r max_streams m s" by (rule listener.reachable_inv [OF assms])
  have "size (ln_tasks t) \<le> size (ln_tasks s) \<and> ln_streams t \<subseteq># ln_streams s"
    if "ln_closed s \<noteq> None" "(listener_step r max_streams)\<^sup>*\<^sup>* s t" for t
    using closed_listener_steps [OF that(2)] that(1) by blast
  with inv served_streams_bound [OF inv] show ?thesis by (auto simp: listener_inv_def)
qed

text \<open>
  C23 What the limits do not bound: the task of a QUIC connection returns its permit when the
  connection closes, while its stream tasks run on, so a listener that serves nobody can have
  any number of stream tasks in flight, whatever the two limits are.
\<close>

theorem streams_outlive_their_limits:
  assumes "is_quic r" and "0 < m" and "0 < max_streams"
  shows "\<exists>s. reachable (listener_init m) (listener_step r max_streams) s \<and> ln_tasks s = {#}
    \<and> size (ln_streams s) = n \<and> \<not> ln_cancelled s"
  using left_behind_reachable [OF assms(1,3), of "m - 1" n] assms(2) by (auto simp: left_behind_def)

theorem streams_outlive_their_limits_witness:
  "\<exists>s. reachable (listener_init 1) (listener_step DoqReader 1) s \<and> ln_tasks s = {#}
     \<and> size (ln_streams s) = 1000 \<and> \<not> ln_cancelled s"
  by (rule streams_outlive_their_limits) simp_all

subsection \<open>Readiness\<close>

text \<open>One server: bound, and then the application ready.\<close>

definition ready_app :: app_sys where
  "ready_app = \<lparr>as_ready = True, as_failed = False, as_cancelled = False, as_phase = Ready,
     as_servers = [\<lparr>sv_report = Some Bound, sv_state = Up\<rparr>]\<rparr>"

definition checked_app :: app_sys where
  "checked_app = ready_app\<lparr>as_ready := False, as_phase := Checked\<rparr>"

lemma checked_app_reachable: "reachable (app_init 1) app_step checked_app"
proof -
  let ?s0 = "\<lparr>as_ready = False, as_failed = False, as_cancelled = False, as_phase = Awaiting 0,
     as_servers = [\<lparr>sv_report = None, sv_state = Up\<rparr>]\<rparr>"
  let ?s1 = "?s0\<lparr>as_servers := [\<lparr>sv_report = Some Bound, sv_state = Up\<rparr>]\<rparr>"
  have "reachable (app_init 1) app_step ?s0"
    by (rule reachable_init) (simp add: app_init_def)
  moreover have "app_step ?s0 ?s1"
    using bound [of 0 ?s0] by (simp add: report_if_silent_def)
  moreover have "app_step ?s1 (?s1\<lparr>as_phase := Awaiting 1\<rparr>)"
    using received [of ?s1 0] by simp
  moreover have "app_step (?s1\<lparr>as_phase := Awaiting 1\<rparr>) checked_app"
    using check [of "?s1\<lparr>as_phase := Awaiting 1\<rparr>"] by (simp add: checked_app_def ready_app_def)
  ultimately show ?thesis by (blast intro: reachable_step)
qed

lemma ready_app_reachable: "reachable (app_init 1) app_step ready_app"
proof -
  have "app_step checked_app ready_app"
    using store_ready [of checked_app] by (simp add: checked_app_def ready_app_def)
  with checked_app_reachable show ?thesis by (rule reachable_step)
qed

text \<open>
  C28 Ready means bound: whenever the application shows itself ready, every one of its servers has
  reported that it owns its listening socket, whatever the servers did in between.
\<close>

theorem ready_means_bound:
  assumes "reachable (app_init n) app_step s" and "as_ready s" and "i < n"
  shows "as_phase s = Ready \<and> sv_report (as_servers s ! i) = Some Bound"
  using app.reachable_inv [OF assms(1)] assms(2,3) by (simp add: app_inv_def)

theorem ready_means_bound_witness: "sv_report (as_servers ready_app ! 0) = Some Bound"
  using ready_means_bound [OF ready_app_reachable, of 0] by (simp add: ready_app_def)

text \<open>
  A server that fails after \<open>start\<close> returned makes the application unready for good: in every
  state after its task has ended with an error, \<open>ready\<close> is false, whatever other servers do.
\<close>

lemma failure_after_start_is_unready:
  assumes "app_step\<^sup>*\<^sup>* s t" and "as_phase s = Ready \<or> as_phase s = app_phase.Stopped"
    and "sv_state (as_servers s ! i) \<noteq> DownError" and "sv_state (as_servers t ! i) = DownError"
  shows "\<not> as_ready t"
  by (rule failure_after_start [OF assms(1) _ assms(3,4)]) (use assms(2) in \<open>simp add: started_def\<close>)

text \<open>
  What readiness does not say: the protocol lets the application be ready although its only
  server is down, because a server that fails between the check of \<open>failed\<close> and the store of
  \<open>ready\<close> is overwritten (the servers here return errors only before they report \<open>Bound\<close>), and
  because a server that ends without an error changes nothing.
\<close>

lemma ready_although_down:
  "(\<exists>s. reachable (app_init 1) app_step s \<and> as_ready s \<and> sv_state (as_servers s ! 0) = DownError)
   \<and> (\<exists>s. reachable (app_init 1) app_step s \<and> as_ready s \<and> sv_state (as_servers s ! 0) = DownOk)"
proof
  let ?flag = "checked_app\<lparr>as_failed := True, as_servers := [\<lparr>sv_report = Some Bound, sv_state = Flagged\<rparr>]\<rparr>"
  let ?down = "?flag\<lparr>as_servers := [\<lparr>sv_report = Some Bound, sv_state = DownError\<rparr>]\<rparr>"
  let ?ready = "?down\<lparr>as_ready := True, as_phase := Ready\<rparr>"
  note checked_app_reachable
  moreover have "app_step checked_app ?flag"
    using server_fails [of 0 checked_app] by (simp add: checked_app_def ready_app_def report_if_silent_def)
  moreover have "app_step ?flag ?down"
    using server_clears [of 0 ?flag] by (simp add: checked_app_def ready_app_def)
  moreover have "app_step ?down ?ready"
    using store_ready [of ?down] by (simp add: checked_app_def ready_app_def)
  ultimately have "reachable (app_init 1) app_step ?ready" by (blast intro: reachable_step)
  then show "\<exists>s. reachable (app_init 1) app_step s \<and> as_ready s \<and> sv_state (as_servers s ! 0) = DownError"
    by (intro exI [of _ ?ready]) simp
next
  let ?ended = "ready_app\<lparr>as_servers := [\<lparr>sv_report = Some Bound, sv_state = DownOk\<rparr>]\<rparr>"
  have "app_step ready_app ?ended"
    using server_ends [of 0 ready_app] by (simp add: ready_app_def report_if_silent_def)
  with ready_app_reachable have "reachable (app_init 1) app_step ?ended" by (rule reachable_step)
  then show "\<exists>s. reachable (app_init 1) app_step s \<and> as_ready s \<and> sv_state (as_servers s ! 0) = DownOk"
    by (intro exI [of _ ?ended]) (simp add: ready_app_def)
qed

text \<open>
  What the health endpoint answers: 503 exactly to a GET of \<open>/ready\<close> or of the configured path
  while the application is not ready, unless the configured path is one of the fixed ones.
\<close>

lemma health_unavailable_iff:
  assumes "handle_healthcheck lib method path hp m ready = Inr r"
  shows "resp_status r = 503 \<longleftrightarrow>
     \<not> ready \<and> method = GET \<and> (path = ''/ready'' \<or> path = hp \<and> hp \<notin> set fixed_paths)"
proof
  assume "resp_status r = 503"
  then show "\<not> ready \<and> method = GET \<and> (path = ''/ready'' \<or> path = hp \<and> hp \<notin> set fixed_paths)"
    using handle_healthcheck_unavailable [OF assms] handle_healthcheck_fixed [of path lib hp m ready r] assms
    by auto
next
  assume r: "\<not> ready \<and> method = GET \<and> (path = ''/ready'' \<or> path = hp \<and> hp \<notin> set fixed_paths)"
  then show "resp_status r = 503"
    using handle_healthcheck_ready [of path hp lib m ready] assms by auto
qed

definition sample_health_lib :: health_lib where
  "sample_health_lib = \<lparr>hl_show_seconds = (\<lambda>_. ''0.000000''), hl_metrics_json = (\<lambda>_. Inr ''{}''),
     hl_status_json = (\<lambda>_. ''{}'')\<rparr>"

end
