(* ===== verification/Connections.thy ===== *)
theory Connections
  imports Dot Doh_Correct Doh3_Correct Doq_Server
begin

section \<open>What the servers do with a connection (the tasks of \<open>src/readers/*.rs\<close>)\<close>

text \<open>
  The task an accept loop spawns for a connection: the handshake under its deadline, the
  server name, and then what serves the connection. How a handshake ends is a parameter: the
  shutdown token fired first, the deadline passed, it failed, or it is done, with what the
  TLS session says of the client.
\<close>

datatype 'd handshake =
    ShutdownFirst
  | HandshakeTimedOut
  | HandshakeFailed string
  | HandshakeDone 'd

subsection \<open>DoT\<close>

definition dot_connection_task ::
    "'w dot_io \<Rightarrow> base_sni_rewriter \<Rightarrow> u16 \<Rightarrow> relay_dir list \<Rightarrow> nat \<Rightarrow> string option handshake
     \<Rightarrow> metrics \<Rightarrow> 'w \<Rightarrow> metrics \<times> 'w" where
  "dot_connection_task io rw upstream_port sched elapsed accepted m w =
     (case accepted of
        HandshakeDone (Some source_hostname) \<Rightarrow>
          snd (dot_handle_connection io rw source_hostname upstream_port sched elapsed m w)
      | _ \<Rightarrow> (m, w))"

subsection \<open>DoH\<close>

text \<open>
  The requests of a connection one after the other, as HTTP/1.1 sends them; each comes with
  the number of a client the pool may create for it and the duration its timer shows. The
  name of the TLS session is lower-cased once and is part of every request's handling.
\<close>

fun doh_serve ::
    "http_lib \<Rightarrow> ('a, 'w) doh_io \<Rightarrow> string \<Rightarrow> base_sni_rewriter \<Rightarrow> http_upstream_config \<Rightarrow> string \<Rightarrow> string
     \<Rightarrow> (nat \<times> nat \<times> http_request) list \<Rightarrow> 'a doh_state \<Rightarrow> 'w
     \<Rightarrow> (http_response list \<times> 'a doh_state \<times> 'w) option" where
  "doh_serve lib io timeout_text rw endpoint request_path tls_sni [] st w = Some ([], st, w)"
| "doh_serve lib io timeout_text rw endpoint request_path tls_sni ((ident, elapsed, req) # reqs) st w =
     (case handle_http_request lib io timeout_text rw endpoint request_path tls_sni ident elapsed req st w of
        None \<Rightarrow> None
      | Some (response, st1, w1) \<Rightarrow>
         (case doh_serve lib io timeout_text rw endpoint request_path tls_sni reqs st1 w1 of
            None \<Rightarrow> None
          | Some (responses, st2, w2) \<Rightarrow> Some (response # responses, st2, w2)))"

definition doh_connection_task ::
    "http_lib \<Rightarrow> ('a, 'w) doh_io \<Rightarrow> string \<Rightarrow> base_sni_rewriter \<Rightarrow> http_upstream_config \<Rightarrow> string
     \<Rightarrow> (nat \<times> nat \<times> http_request) list \<Rightarrow> string option handshake \<Rightarrow> 'a doh_state \<Rightarrow> 'w
     \<Rightarrow> (http_response list \<times> 'a doh_state \<times> 'w) option" where
  "doh_connection_task lib io timeout_text rw endpoint request_path reqs accepted st w =
     (case accepted of
        HandshakeDone (Some sni) \<Rightarrow>
          doh_serve lib io timeout_text rw endpoint request_path (to_ascii_lowercase sni) reqs st w
      | _ \<Rightarrow> Some ([], st, w))"

subsection \<open>DoQ and DoH3\<close>

text \<open>
  A QUIC connection may have no handshake data, and these no server name. DoQ rewrites the
  name once for the whole connection; the result is the target of all its streams.
\<close>

definition doq_connection_task ::
    "base_sni_rewriter \<Rightarrow> string option option handshake \<Rightarrow> doq_event list \<Rightarrow> doq_connection \<Rightarrow> doq_connection" where
  "doq_connection_task rw connected evs c =
     (case connected of
        HandshakeDone data \<Rightarrow> (case doq_target rw data of Inl e \<Rightarrow> c | Inr target \<Rightarrow> doq_events evs c)
      | _ \<Rightarrow> c)"

text \<open>DoH3 then waits for the control stream of HTTP/3; any failure counts as an upstream error.\<close>

definition doh3_connection_start ::
    "string option option \<Rightarrow> (string + unit) timed \<Rightarrow> dns_proxy_error + string" where
  "doh3_connection_start data h3 =
     and_then (ok_or (InvalidInput ''DoH3 requires TLS SNI hostname'')
                 (case data of None \<Rightarrow> None | Some server_name \<Rightarrow> server_name)) (\<lambda>tls_sni.
     case h3 of
       Elapsed \<Rightarrow> Inl (Timeout ''DoH3 client control stream'')
     | Done (Inl e) \<Rightarrow> Inl (Protocol (''Failed to create H3 connection: '' @ e))
     | Done (Inr _) \<Rightarrow> Inr tls_sni)"

definition doh3_connection_task ::
    "string option option handshake \<Rightarrow> (string + unit) timed \<Rightarrow> metrics \<Rightarrow> string option \<times> metrics" where
  "doh3_connection_task connected h3 m =
     (case connected of
        HandshakeDone data \<Rightarrow>
          (case doh3_connection_start data h3 of
             Inl e \<Rightarrow> (None, record_upstream_error m)
           | Inr tls_sni \<Rightarrow> (Some tls_sni, m))
      | _ \<Rightarrow> (None, m))"

subsection \<open>A DoH connection stays with its name\<close>

lemma doh_guards_error_status:
  assumes "doh_guards lib rw request_path tls_sni req = Inl e"
  shows "resp_status (doh_error_response e) \<in> {400, 404, 405, 415}"
  using assms by (auto simp: doh_guards_def res_simps doh_error_response_def split: if_splits)

text \<open>
  A request that the guards refuse changes nothing and is answered with a client error; one
  they let through gets the client of the one target the session's name is rewritten to.
\<close>

definition pool_names :: "'a doh_state \<Rightarrow> string set" where
  "pool_names st = fst ` set (hp_clients (ds_pool st))"

lemma evict_first_names:
  "evict_first iter_guard pool = Some pool1 \<Longrightarrow> fst ` set (hp_clients pool1) \<subseteq> fst ` set (hp_clients pool)"
  by (force simp: evict_first_def AList.delete_eq split: if_splits list.splits)

lemma get_client_names:
  assumes "get_client iter_guard ident name pool = Some (client, pool')"
  shows "fst ` set (hp_clients pool') \<subseteq> insert name (fst ` set (hp_clients pool))"
proof (cases "map_of (hp_clients pool) name")
  case None
  with assms obtain pool1 where "evict_first iter_guard pool = Some pool1"
    and "hp_clients pool' = or_insert name (create_client ident pool1) (hp_clients pool1)"
    by (auto simp: get_client_def Let_def split: option.splits)
  then show ?thesis
    using evict_first_names [of iter_guard pool pool1] by (auto simp: or_insert_def split: option.splits)
next
  case (Some c)
  then show ?thesis using assms by (auto simp: get_client_def)
qed

lemma handle_http_request_confined:
  assumes "handle_http_request lib io tt rw endpoint path tls_sni ident elapsed req st w = Some (response, st', w')"
  shows "pool_names st' \<subseteq> pool_names st \<union> (case rewrite rw tls_sni of None \<Rightarrow> {} | Some r \<Rightarrow> {rr_target_hostname r})"
    and "rewrite rw tls_sni = None \<Longrightarrow> st' = st \<and> w' = w \<and> resp_status response \<in> {400, 404, 405, 415}"
proof -
  from assms obtain answer where
    inner: "handle_http_request_inner lib io tt rw endpoint path tls_sni ident elapsed req st w = Some (answer, st', w')"
    and response: "response = (case answer of Inl e \<Rightarrow> doh_error_response e | Inr r \<Rightarrow> r)"
    by (auto simp: handle_http_request_def split: option.splits sum.splits)
  have target: "rewrite rw tls_sni = Some result" if "doh_guards lib rw path tls_sni req = Inr result" for result
    using that by (simp add: doh_guards_Inr_iff)
  from inner show "pool_names st'
      \<subseteq> pool_names st \<union> (case rewrite rw tls_sni of None \<Rightarrow> {} | Some r \<Rightarrow> {rr_target_hostname r})"
  proof (cases rule: handle_inner_cases)
    case (forwarded result body w1 client pool forwarded m)
    then show ?thesis
      using get_client_names [OF forwarded(3)] by (auto simp: pool_names_def target [OF forwarded(1)])
  qed (auto simp: pool_names_def)
  assume none: "rewrite rw tls_sni = None"
  from inner show "st' = st \<and> w' = w \<and> resp_status response \<in> {400, 404, 405, 415}"
  proof (cases rule: handle_inner_cases)
    case (rejected e)
    then show ?thesis using doh_guards_error_status [OF rejected(1)] by (simp add: response)
  qed (use none in \<open>auto dest: target\<close>)
qed

lemma doh_serve_confined:
  assumes "doh_serve lib io tt rw endpoint path tls_sni reqs st w = Some (responses, st', w')"
  shows "length responses = length reqs
    \<and> pool_names st' \<subseteq> pool_names st \<union> (case rewrite rw tls_sni of None \<Rightarrow> {} | Some r \<Rightarrow> {rr_target_hostname r})
    \<and> (rewrite rw tls_sni = None \<longrightarrow> st' = st \<and> w' = w \<and> (\<forall>r \<in> set responses. resp_status r \<in> {400, 404, 405, 415}))"
  using assms
proof (induction reqs arbitrary: st w responses)
  case Nil
  then show ?case by simp
next
  case (Cons x reqs)
  obtain ident elapsed req where x: "x = (ident, elapsed, req)" by (cases x)
  from Cons.prems obtain response st1 w1 rest where
    first: "handle_http_request lib io tt rw endpoint path tls_sni ident elapsed req st w = Some (response, st1, w1)"
    and rest: "doh_serve lib io tt rw endpoint path tls_sni reqs st1 w1 = Some (rest, st', w')"
    and responses: "responses = response # rest"
    by (auto simp: x split: option.splits)
  show ?case
    using handle_http_request_confined [OF first] Cons.IH [OF rest] by (auto simp: responses)
qed

subsection \<open>What a DoH connection sends upstream\<close>

text \<open>
  \<open>sent\<close> reads the requests given to the HTTP client so far off the environment: a send adds its
  request, nothing else does.
\<close>

definition logs_sends :: "('a, 'w) doh_io \<Rightarrow> ('w \<Rightarrow> outbound_request list) \<Rightarrow> bool" where
  "logs_sends io sent \<longleftrightarrow>
     (\<forall>w. sent (snd (dh_request_frame io w)) = sent w \<and> sent (snd (dh_response_frame io w)) = sent w
        \<and> (\<forall>client req. sent (snd (dh_send io client req w)) = sent w @ [req]))"

text \<open>
  A request that connects to \<open>target\<close> at the configured port: its URI has exactly this host and
  port for its authority, followed by the configured path and perhaps a query, and its host
  header is the target.
\<close>

definition goes_to :: "http_lib \<Rightarrow> string \<Rightarrow> http_upstream_config \<Rightarrow> outbound_request \<Rightarrow> bool" where
  "goes_to lib target endpoint req \<longleftrightarrow>
     (\<exists>query. ob_uri req = ''https://'' @ target @ '':'' @ show_nat (unat (hu_port endpoint)) @ hu_path endpoint @ query
        \<and> (query = [] \<or> hd query = CHR ''?''))
     \<and> (\<exists>v. map_of (ob_headers req) ''host'' = Some v \<and> hl_header_value lib target = Inr v)"

lemma collect_body_keeps:
  assumes "collect_body_with_progress next_frame operation collected w = Some (r, w')"
    and "\<And>v. view (snd (next_frame v)) = view v"
  shows "view w' = view w"
proof -
  let ?P = "\<lambda>next_frame (operation :: string) (collected :: bytes) w y.
    (\<forall>v. view (snd (next_frame v)) = view v) \<longrightarrow> view (snd y) = view w"
  have "?P next_frame operation collected w (r, w')"
  proof (rule collect_body_with_progress.raw_induct [of ?P, OF _ assms(1)], intro impI)
    fix rec and nf :: "'a \<Rightarrow> (string + body_frame) option timed \<times> 'a" and op col w y
    assume IH: "\<And>nf op col w y. rec nf op col w = Some y \<Longrightarrow> (\<forall>v. view (snd (nf v)) = view v) \<longrightarrow> view (snd y) = view w"
      and run: "(case nf w of
        (Elapsed, w1) \<Rightarrow> Some (Inl (Stalled op), w1)
      | (Done None, w1) \<Rightarrow> Some (Inr col, w1)
      | (Done (Some (Inl e)), w1) \<Rightarrow> Some (Inl (BodyRead op e), w1)
      | (Done (Some (Inr (DataFrame data))), w1) \<Rightarrow>
          if max_dns_message_size - length col < length data then Some (Inl (TooLarge op), w1)
          else rec nf op (col @ data) w1
      | (Done (Some (Inr TrailersFrame)), w1) \<Rightarrow> rec nf op col w1) = Some y"
      and keep: "\<forall>v. view (snd (nf v)) = view v"
    obtain x w1 where n: "nf w = (x, w1)" by fastforce
    then have "view w1 = view w" using keep by (metis snd_conv)
    then show "view (snd y) = view w"
      using run n IH keep by (auto split: timed.splits option.splits sum.splits body_frame.splits if_splits)
  qed
  then show ?thesis using assms(2) by simp
qed

lemma doh_request_body_keeps:
  assumes "doh_request_body io method w = Some (r, w')" and "logs_sends io sent"
  shows "sent w' = sent w"
proof (cases "method = POST")
  case True
  then obtain r' where "collect_body_with_progress (dh_request_frame io) ''DoH request body'' [] w = Some (r', w')"
    using assms(1) by (auto simp: doh_request_body_def split: option.splits sum.splits prod.splits)
  from collect_body_keeps [OF this, of sent] show ?thesis using assms(2) by (simp add: logs_sends_def)
next
  case False
  then show ?thesis using assms(1) by (simp add: doh_request_body_def)
qed

lemma forward_http_request_sends:
  assumes run: "forward_http_request lib io tt client uri target method hs body w = Some (r, w')"
    and log: "logs_sends io sent"
  shows "sent w' = sent w \<or> (\<exists>req. build_upstream_request lib uri target method hs body = Inr req \<and> sent w' = sent w @ [req])"
proof (cases "build_upstream_request lib uri target method hs body")
  case (Inl e)
  then show ?thesis using run by (simp add: forward_http_request_def)
next
  case (Inr req)
  obtain x w1 where snd1: "dh_send io client req w = (x, w1)" by fastforce
  then have w1: "sent w1 = sent w @ [req]" using log unfolding logs_sends_def by (metis snd_conv)
  have "sent w' = sent w1"
  proof (cases "\<exists>status resp_hs. x = Done (Inr (status, resp_hs))")
    case True
    then obtain r' where "collect_body_with_progress (dh_response_frame io) (''Upstream response body for '' @ uri) [] w1 = Some (r', w')"
      using run Inr snd1 by (auto simp: forward_http_request_def split: option.splits sum.splits prod.splits)
    from collect_body_keeps [OF this, of sent] show ?thesis using log by (simp add: logs_sends_def)
  next
    case False
    then show ?thesis
      using run Inr snd1 by (auto simp: forward_http_request_def split: timed.splits sum.splits prod.splits)
  qed
  then show ?thesis using w1 Inr by simp
qed

lemma built_goes_to:
  assumes "build_upstream_request lib (upstream_uri target (hu_port endpoint) (hu_path endpoint) query) target method hs body = Inr req"
  shows "goes_to lib target endpoint req"
proof -
  note built = build_upstream_request_Inr(2,4) [OF assms]
  have "ob_uri req = ''https://'' @ target @ '':'' @ show_nat (unat (hu_port endpoint)) @ hu_path endpoint
      @ (case query of None \<Rightarrow> [] | Some q \<Rightarrow> ''?'' @ q)"
    using built(1) by (simp add: upstream_uri_def host_port_def)
  moreover have "\<exists>v. map_of (ob_headers req) ''host'' = Some v \<and> hl_header_value lib target = Inr v"
    using assms built(2) by (auto simp: build_upstream_request_def split: option.splits sum.splits)
  ultimately show ?thesis unfolding goes_to_def by (cases query) auto
qed

lemma handle_http_request_sends:
  assumes run: "handle_http_request lib io tt rw endpoint path tls_sni ident elapsed req st w = Some (response, st', w')"
    and log: "logs_sends io sent"
  shows "\<exists>new. sent w' = sent w @ new \<and> length new \<le> 1
    \<and> (\<forall>ob \<in> set new. \<exists>r. rewrite rw tls_sni = Some r \<and> goes_to lib (rr_target_hostname r) endpoint ob)"
proof -
  from run obtain answer where
    "handle_http_request_inner lib io tt rw endpoint path tls_sni ident elapsed req st w = Some (answer, st', w')"
    by (auto simp: handle_http_request_def split: option.splits sum.splits)
  then show ?thesis
  proof (cases rule: handle_inner_cases)
    case (forwarded result body w1 client pool forwarded m)
    have w1: "sent w1 = sent w" by (rule doh_request_body_keeps [OF forwarded(2) log])
    have "rewrite rw tls_sni = Some result" using forwarded(1) by (simp add: doh_guards_Inr_iff)
    then show ?thesis
      using forward_http_request_sends [OF forwarded(4) log] built_goes_to w1 by fastforce
  qed (use doh_request_body_keeps [OF _ log] in auto)
qed

lemma doh_serve_sends:
  assumes "doh_serve lib io tt rw endpoint path tls_sni reqs st w = Some (responses, st', w')" and log: "logs_sends io sent"
  shows "\<exists>new. sent w' = sent w @ new \<and> length new \<le> length reqs
    \<and> (\<forall>ob \<in> set new. \<exists>r. rewrite rw tls_sni = Some r \<and> goes_to lib (rr_target_hostname r) endpoint ob)"
  using assms(1)
proof (induction reqs arbitrary: st w responses)
  case Nil
  then show ?case by simp
next
  case (Cons x reqs)
  obtain ident elapsed req where x: "x = (ident, elapsed, req)" by (cases x)
  from Cons.prems obtain response st1 w1 rest where
    first: "handle_http_request lib io tt rw endpoint path tls_sni ident elapsed req st w = Some (response, st1, w1)"
    and rest: "doh_serve lib io tt rw endpoint path tls_sni reqs st1 w1 = Some (rest, st', w')"
    by (auto simp: x split: option.splits)
  obtain new1 where new1: "sent w1 = sent w @ new1" "length new1 \<le> 1"
    "\<forall>ob \<in> set new1. \<exists>r. rewrite rw tls_sni = Some r \<and> goes_to lib (rr_target_hostname r) endpoint ob"
    using handle_http_request_sends [OF first log] by blast
  obtain new2 where new2: "sent w' = sent w1 @ new2" "length new2 \<le> length reqs"
    "\<forall>ob \<in> set new2. \<exists>r. rewrite rw tls_sni = Some r \<and> goes_to lib (rr_target_hostname r) endpoint ob"
    using Cons.IH [OF rest] by blast
  show ?case using new1 new2 by (intro exI [of _ "new1 @ new2"]) auto
qed

text \<open>Any environment becomes one that logs what is sent.\<close>

definition on_fst :: "('w \<Rightarrow> 'r \<times> 'w) \<Rightarrow> 'w \<times> 'l \<Rightarrow> 'r \<times> 'w \<times> 'l" where
  "on_fst op x = (case op (fst x) of (r, w) \<Rightarrow> (r, w, snd x))"

definition recording :: "('a, 'w) doh_io \<Rightarrow> ('a, 'w \<times> outbound_request list) doh_io" where
  "recording io =
     \<lparr>dh_request_frame = on_fst (dh_request_frame io), dh_iter_guard = dh_iter_guard io,
      dh_send = (\<lambda>client req x. case dh_send io client req (fst x) of (r, w) \<Rightarrow> (r, w, snd x @ [req])),
      dh_response_frame = on_fst (dh_response_frame io)\<rparr>"

lemma recording_logs: "logs_sends (recording io) snd"
  by (simp add: logs_sends_def recording_def on_fst_def split: prod.split)

lemma recording_frames_law:
  assumes "frames_law next_frame frames"
  shows "frames_law (on_fst next_frame) (\<lambda>x. frames (fst x))"
  using assms unfolding frames_law_def by (fastforce simp: on_fst_def split: prod.split)

end
