(* ===== verification/Egress.thy ===== *)
theory Egress
  imports Connections Config_Validation
begin

section \<open>Where a server can connect to\<close>

text \<open>
  The names of upstreams come from clients, so the question is which hosts a client can make the
  servers contact. The answer is given by a firewall: an environment that refuses every
  connection but those to a host the predicate lets through, on one port. If nothing changes
  when it is put in place, no other connection is ever attempted. For DoH, where the HTTP
  client connects to the authority of the request's URI, the firewall reads the URI.
\<close>

definition in_zone :: "app_config \<Rightarrow> string \<Rightarrow> bool" where
  "in_zone c h \<longleftrightarrow> ends_with h (target_suffix (cfg_rewrite c)) \<and> h \<noteq> target_suffix (cfg_rewrite c)"

definition uri_authority :: "string \<Rightarrow> string" where
  "uri_authority uri = takeWhile (\<lambda>x. x \<notin> set ''/?#'') (drop (length ''https://'') uri)"

definition uri_allowed :: "(string \<Rightarrow> bool) \<Rightarrow> u16 \<Rightarrow> string \<Rightarrow> bool" where
  "uri_allowed allow port uri \<longleftrightarrow> starts_with uri ''https://''
     \<and> (case split_on CHR '':'' (uri_authority uri) of
          [h, p] \<Rightarrow> allow h \<and> p = show_nat (unat port)
        | _ \<Rightarrow> False)"

definition dot_firewall :: "(string \<Rightarrow> bool) \<Rightarrow> u16 \<Rightarrow> 'w dot_io \<Rightarrow> 'w dot_io" where
  "dot_firewall allow port io = io\<lparr>
     dio_connect := (\<lambda>h p w. if allow h \<and> p = port then dio_connect io h p w else (Done (Inl ''refused''), w)),
     dio_tls_connect := (\<lambda>h w. if allow h then dio_tls_connect io h w else (Done (Inl ''refused''), w))\<rparr>"

definition doq_firewall :: "(string \<Rightarrow> bool) \<Rightarrow> u16 \<Rightarrow> 'w doq_io \<Rightarrow> 'w doq_io" where
  "doq_firewall allow port io = io\<lparr>
     io_pool_get := (\<lambda>a h p w. if allow h \<and> p = port then io_pool_get io a h p w
       else (Done (Inl (pool_upstream_error h p ''refused'')), w))\<rparr>"

definition doh_firewall :: "(string \<Rightarrow> bool) \<Rightarrow> u16 \<Rightarrow> ('a, 'w) doh_io \<Rightarrow> ('a, 'w) doh_io" where
  "doh_firewall allow port io = io\<lparr>
     dh_send := (\<lambda>client req w. if uri_allowed allow port (ob_uri req) then dh_send io client req w
       else (Done (Inl ''refused''), w))\<rparr>"

definition h3_firewall :: "(string \<Rightarrow> bool) \<Rightarrow> u16 \<Rightarrow> 'w h3_client_io \<Rightarrow> 'w h3_client_io" where
  "h3_firewall allow port io = io\<lparr>
     hc_get := (\<lambda>h p w. if allow h \<and> p = port then hc_get io h p w
       else (Done (Inl (pool_upstream_error h p ''refused'')), w)),
     hc_send_request := (\<lambda>m uri hs w. if uri_allowed allow port uri then hc_send_request io m uri hs w
       else (Done (Inl ''refused''), w))\<rparr>"

subsection \<open>A rewritten name passes\<close>

lemma rewritten_in_zone:
  assumes "config_ok env c" and "rewrite (create_rewriter (cfg_rewrite c)) sni = Some r"
  shows "in_zone c (rr_target_hostname r)"
  using base_rw.target_in_zone [OF config_ok_rewriter(1) [OF assms(1)] assms(2)] config_ok_rewriter(2) [OF assms(1)]
  by (simp add: in_zone_def rewriter_zone_def)

lemma takeWhile_authority:
  assumes "\<And>x. x \<in> set a \<Longrightarrow> P x" and "rest \<noteq> [] \<Longrightarrow> \<not> P (hd rest)"
  shows "takeWhile P (a @ rest) = a"
  using assms by (induction a) (cases rest, auto)

lemma upstream_uri_allowed:
  assumes "config_ok env c" and "rewrite (create_rewriter (cfg_rewrite c)) sni = Some r" and "starts_with path ''/''"
  shows "uri_allowed (in_zone c) port (upstream_uri (rr_target_hostname r) port path query)"
proof -
  note ok = config_ok_rewriter(1) [OF assms(1)]
  let ?a = "host_port (rr_target_hostname r) port"
  have "x \<notin> set ''/?#''" if "x \<in> set ?a" for x
  proof -
    have "x \<in> set (rr_target_hostname r) \<or> x = CHR '':'' \<or> x \<in> set (show_nat (unat port))"
      using that by (auto simp: host_port_def)
    then show ?thesis
      using base_rw.target_no_delimiter [OF ok assms(2), of x] show_nat_digits [of x]
      by (auto simp: ascii_digit_def)
  qed
  then have "uri_authority (upstream_uri (rr_target_hostname r) port path query) = ?a"
    using assms(3) by (auto simp: uri_authority_def upstream_uri_def starts_with_def prefix_def intro!: takeWhile_authority)
  then show ?thesis
    using base_rw.authority_splits [OF ok assms(2)] rewritten_in_zone [OF assms(1,2)]
    by (simp add: uri_allowed_def upstream_uri_def starts_with_def)
qed

subsection \<open>DoT\<close>

lemma dot_firewall_simps:
  "dio_server_name (dot_firewall allow port io) = dio_server_name io"
  "dio_read (dot_firewall allow port io) = dio_read io"
  "dio_write (dot_firewall allow port io) = dio_write io"
  "dio_shutdown (dot_firewall allow port io) = dio_shutdown io"
  "allow h \<Longrightarrow> dio_connect (dot_firewall allow port io) h port = dio_connect io h port"
  "allow h \<Longrightarrow> dio_tls_connect (dot_firewall allow port io) h = dio_tls_connect io h"
  by (simp_all add: dot_firewall_def fun_eq_iff)

lemma relay_step_firewall:
  "relay_step (dot_firewall allow port io) d upstream h = relay_step io d upstream h"
  by (cases h) (simp_all only: relay_step.simps dot_firewall_simps)

lemma try_join_relay_firewall:
  "try_join_relay (dot_firewall allow port io) upstream sched h w = try_join_relay io upstream sched h w"
proof (induction sched arbitrary: h w)
  case Nil
  then show ?case by (subst (1 2) try_join_relay.simps) (simp split: half.split)
next
  case (Cons d sched)
  then show ?case
    by (subst (1 2) try_join_relay.simps) (simp only: list.case relay_step_firewall)
qed

lemma dot_connect_firewall:
  assumes "\<And>r. rewrite rw source_hostname = Some r \<Longrightarrow> allow (rr_target_hostname r)"
  shows "dot_connect (dot_firewall allow port io) rw source_hostname port = dot_connect io rw source_hostname port"
proof (cases "rewrite rw source_hostname")
  case None
  then show ?thesis by (simp add: dot_connect_def)
next
  case (Some r)
  have "allow (rr_target_hostname r)" using Some by (rule assms)
  note fw = dot_firewall_simps(1) dot_firewall_simps(5,6) [of allow "rr_target_hostname r", OF this]
  show ?thesis unfolding dot_connect_def Some option.case Let_def fw ..
qed

lemma dot_task_firewall:
  assumes "\<And>sni r. rewrite rw sni = Some r \<Longrightarrow> allow (rr_target_hostname r)"
  shows "dot_connection_task (dot_firewall allow port io) rw port sched elapsed accepted m w
    = dot_connection_task io rw port sched elapsed accepted m w"
proof -
  have connect: "dot_connect (dot_firewall allow port io) rw sni port = dot_connect io rw sni port" for sni
    by (rule dot_connect_firewall) (rule assms)
  show ?thesis unfolding dot_connection_task_def dot_handle_connection_def connect try_join_relay_firewall ..
qed

subsection \<open>DoQ\<close>

lemma doq_firewall_simps:
  "io_show_read_error (doq_firewall allow port io) = io_show_read_error io"
  "io_read_client (doq_firewall allow port io) = io_read_client io"
  "io_write_client (doq_firewall allow port io) = io_write_client io"
  "io_finish_client (doq_firewall allow port io) = io_finish_client io"
  "io_open_bi (doq_firewall allow port io) = io_open_bi io"
  "io_invalidate (doq_firewall allow port io) = io_invalidate io"
  "io_read_upstream (doq_firewall allow port io) = io_read_upstream io"
  "io_write_upstream (doq_firewall allow port io) = io_write_upstream io"
  "io_finish_upstream (doq_firewall allow port io) = io_finish_upstream io"
  "allow h \<Longrightarrow> io_pool_get (doq_firewall allow port io) a h port = io_pool_get io a h port"
  by (simp_all add: doq_firewall_def fun_eq_iff)

text \<open>A loop's result depends on the operations it uses only.\<close>

lemma relay_responses_mono:
  assumes "relay_responses io sent w = Some y" and "io_show_read_error io' = io_show_read_error io"
    and "io_read_upstream io' = io_read_upstream io" and "io_write_client io' = io_write_client io"
  shows "relay_responses io' sent w = Some y"
proof -
  let ?same = "\<lambda>io. io_show_read_error io' = io_show_read_error io \<and> io_read_upstream io' = io_read_upstream io
      \<and> io_write_client io' = io_write_client io"
  let ?P = "\<lambda>io sent w y. ?same io \<longrightarrow> relay_responses io' sent w = Some y"
  have "?P io sent w y"
  proof (rule relay_responses.raw_induct [of ?P, OF _ assms(1)], intro impI)
    fix relay and io :: "'a doq_io" and sent w y
    assume IH: "\<And>io sent w y. relay io sent w = Some y \<Longrightarrow> ?P io sent w y"
      and body: "(case read_doq_frame (io_show_read_error io) (io_read_upstream io) w of
        (Inl e, w1) \<Rightarrow> Some (Inl e, w1)
      | (Inr None, w1) \<Rightarrow> Some (Inr sent, w1)
      | (Inr (Some response), w1) \<Rightarrow>
          if length response < 12 \<or> take 2 response \<noteq> [0, 0]
          then Some (Inl (Protocol ''DoQ upstream response has an invalid DNS message ID''), w1)
          else (case write_doq_frame (io_write_client io) response w1 of
                  (Inl e, w2) \<Rightarrow> Some (Inl e, w2)
                | (Inr _, w2) \<Rightarrow> relay io (sent + of_nat (length response + 2)) w2)) = Some y"
      and same: "?same io"
    show "relay_responses io' sent w = Some y"
      using body IH [of io] same
      by (cases y, subst relay_responses.simps) (auto split: sum.splits option.splits prod.splits if_splits)
  qed
  then show ?thesis using assms(2-4) by simp
qed

lemma relay_responses_firewall: "relay_responses (doq_firewall allow port io) = relay_responses io"
proof (intro ext)
  fix sent w
  have "relay_responses (doq_firewall allow port io) sent w = Some y \<longleftrightarrow> relay_responses io sent w = Some y" for y
    using relay_responses_mono [of io sent w y "doq_firewall allow port io"]
      relay_responses_mono [of "doq_firewall allow port io" sent w y io]
    by (auto simp: doq_firewall_simps)
  then show "relay_responses (doq_firewall allow port io) sent w = relay_responses io sent w"
    by (metis option.exhaust)
qed

lemma doq_task_firewall:
  assumes "allow target"
  shows "doq_stream_task (doq_firewall allow port io) target port elapsed c w = doq_stream_task io target port elapsed c w"
  unfolding doq_stream_task_def forward_quic_stream_def send_query_def open_upstream_def
    doq_firewall_simps(1-9) doq_firewall_simps(10) [of allow target, OF assms] relay_responses_firewall ..

subsection \<open>DoH\<close>

lemma doh_firewall_simps:
  "dh_request_frame (doh_firewall allow port io) = dh_request_frame io"
  "dh_iter_guard (doh_firewall allow port io) = dh_iter_guard io"
  "dh_response_frame (doh_firewall allow port io) = dh_response_frame io"
  "uri_allowed allow port (ob_uri req) \<Longrightarrow> dh_send (doh_firewall allow port io) client req = dh_send io client req"
  by (simp_all add: doh_firewall_def fun_eq_iff)

lemma forward_http_request_firewall:
  assumes "uri_allowed allow port uri"
  shows "forward_http_request lib (doh_firewall allow port io) timeout_text client uri target method hs body w
    = forward_http_request lib io timeout_text client uri target method hs body w"
proof (cases "build_upstream_request lib uri target method hs body")
  case (Inl e)
  then show ?thesis by (simp add: forward_http_request_def)
next
  case (Inr req)
  then have "ob_uri req = uri" by (auto simp: build_upstream_request_def split: option.splits sum.splits)
  then have send: "dh_send (doh_firewall allow port io) client req = dh_send io client req"
    using doh_firewall_simps(4) [of allow port req] assms by simp
  show ?thesis unfolding forward_http_request_def Inr sum.case send doh_firewall_simps(1-3) ..
qed

lemma handle_http_request_firewall:
  assumes "\<And>r. rewrite rw tls_sni = Some r \<Longrightarrow>
    uri_allowed allow port (upstream_uri (rr_target_hostname r) (hu_port endpoint) (hu_path endpoint) (req_query req))"
  shows "handle_http_request lib (doh_firewall allow port io) tt rw endpoint path tls_sni ident elapsed req st w
    = handle_http_request lib io tt rw endpoint path tls_sni ident elapsed req st w"
proof -
  have body: "doh_request_body (doh_firewall allow port io) = doh_request_body io"
    unfolding doh_request_body_def [abs_def] doh_firewall_simps ..
  have "handle_http_request_inner lib (doh_firewall allow port io) tt rw endpoint path tls_sni ident elapsed req st w
    = handle_http_request_inner lib io tt rw endpoint path tls_sni ident elapsed req st w"
  proof (cases "doh_guards lib rw path tls_sni req")
    case (Inl e)
    then show ?thesis by (simp add: handle_http_request_inner_def)
  next
    case (Inr r)
    then have "rewrite rw tls_sni = Some r" by (simp add: doh_guards_Inr_iff)
    note forward = forward_http_request_firewall [OF assms [OF this]]
    show ?thesis unfolding handle_http_request_inner_def Inr sum.case Let_def body doh_firewall_simps(2) forward ..
  qed
  then show ?thesis by (simp add: handle_http_request_def)
qed

lemma doh_task_firewall:
  assumes "\<And>sni r query. rewrite rw sni = Some r \<Longrightarrow>
    uri_allowed allow port (upstream_uri (rr_target_hostname r) (hu_port endpoint) (hu_path endpoint) query)"
  shows "doh_connection_task lib (doh_firewall allow port io) tt rw endpoint path reqs accepted st w
    = doh_connection_task lib io tt rw endpoint path reqs accepted st w"
proof -
  have handle: "handle_http_request lib (doh_firewall allow port io) tt rw endpoint path tls_sni ident elapsed req st w
    = handle_http_request lib io tt rw endpoint path tls_sni ident elapsed req st w" for tls_sni ident elapsed req st w
    by (rule handle_http_request_firewall) (rule assms)
  have serve: "doh_serve lib (doh_firewall allow port io) tt rw endpoint path tls_sni reqs st w
    = doh_serve lib io tt rw endpoint path tls_sni reqs st w" for tls_sni st w
    by (induction reqs arbitrary: st w) (auto simp: handle split: option.split)
  show ?thesis unfolding doh_connection_task_def serve ..
qed

subsection \<open>DoH3\<close>

lemma h3_firewall_simps:
  "hc_invalidate (h3_firewall allow port io) = hc_invalidate io"
  "hc_send_data (h3_firewall allow port io) = hc_send_data io"
  "hc_finish (h3_firewall allow port io) = hc_finish io"
  "hc_recv_response (h3_firewall allow port io) = hc_recv_response io"
  "hc_recv_data (h3_firewall allow port io) = hc_recv_data io"
  "allow h \<Longrightarrow> hc_get (h3_firewall allow port io) h port = hc_get io h port"
  "uri_allowed allow port uri \<Longrightarrow> hc_send_request (h3_firewall allow port io) m uri = hc_send_request io m uri"
  by (simp_all add: h3_firewall_def fun_eq_iff)

lemma h3_recv_body_mono:
  assumes "h3_recv_body io uri body w = Some y" and "hc_recv_data io' = hc_recv_data io"
  shows "h3_recv_body io' uri body w = Some y"
proof -
  let ?P = "\<lambda>io uri body w y. hc_recv_data io' = hc_recv_data io \<longrightarrow> h3_recv_body io' uri body w = Some y"
  have "?P io uri body w y"
  proof (rule h3_recv_body.raw_induct [of ?P, OF _ assms(1)], intro impI)
    fix recv and io :: "'a h3_client_io" and uri body w and y :: "(dns_proxy_error + bytes) \<times> 'a"
    assume IH: "\<And>io uri body w y. recv io uri body w = Some y \<Longrightarrow> ?P io uri body w y"
      and step: "(case hc_recv_data io w of
        (Elapsed, w1) \<Rightarrow> Some (Inl (Timeout uri), w1)
      | (Done (Inl e), w1) \<Rightarrow> Some (Inl (Protocol e), w1)
      | (Done (Inr None), w1) \<Rightarrow> Some (Inr body, w1)
      | (Done (Inr (Some chunk)), w1) \<Rightarrow>
          if max_dns_message_size < length body + buf_remaining chunk
          then Some (Inl (Upstream (RequestFailed uri ''HTTP/3 upstream response exceeds DNS message limit'')), w1)
          else recv io uri (body @ buf_chunk chunk) w1) = Some y"
      and same: "hc_recv_data io' = hc_recv_data io"
    show "h3_recv_body io' uri body w = Some y"
      using step IH [of io] same
      by (cases y, subst h3_recv_body.simps) (auto split: timed.splits sum.splits option.splits prod.splits if_splits)
  qed
  then show ?thesis using assms(2) by simp
qed

lemma h3_recv_body_firewall: "h3_recv_body (h3_firewall allow port io) = h3_recv_body io"
proof (intro ext)
  fix uri body w
  have "h3_recv_body (h3_firewall allow port io) uri body w = Some y \<longleftrightarrow> h3_recv_body io uri body w = Some y" for y
    using h3_recv_body_mono [of io uri body w y "h3_firewall allow port io"]
      h3_recv_body_mono [of "h3_firewall allow port io" uri body w y io]
    by (auto simp: h3_firewall_simps)
  then show "h3_recv_body (h3_firewall allow port io) uri body w = h3_recv_body io uri body w"
    by (metis option.exhaust)
qed

lemma forward_http3_firewall:
  assumes "allow target" and "uri_allowed allow port uri"
  shows "forward_http3_request lib (h3_firewall allow port io) uri target port method hs body w
    = forward_http3_request lib io uri target port method hs body w"
  unfolding forward_http3_request_def h3_send_def h3_recv_body_firewall h3_firewall_simps(1-5)
    h3_firewall_simps(6) [of allow target, OF assms(1)] h3_firewall_simps(7) [of allow port uri, OF assms(2)] ..

lemma doh3_request_firewall:
  assumes "\<And>sni r. rewrite rw sni = Some r \<Longrightarrow> allow (rr_target_hostname r)
    \<and> uri_allowed allow (hu_port endpoint)
        (upstream_uri (rr_target_hostname r) (hu_port endpoint) (hu_path endpoint) (req_query req))"
  shows "h3_handle_request lib (h3_firewall allow (hu_port endpoint) up) io eio rw endpoint path tls_sni elapsed req m w
    = h3_handle_request lib up io eio rw endpoint path tls_sni elapsed req m w"
proof -
  have "process_request lib (h3_firewall allow (hu_port endpoint) up) io rw endpoint path tls_sni elapsed req m w
    = process_request lib up io rw endpoint path tls_sni elapsed req m w"
  proof (cases "doh3_guards lib rw path tls_sni req")
    case (Inl e)
    then show ?thesis by (simp add: process_request_def)
  next
    case (Inr r)
    then obtain sni where "rewrite rw sni = Some r" by (auto simp: doh3_guards_Inr_iff doh_guards_Inr_iff)
    note ok = assms [OF this]
    show ?thesis
      unfolding process_request_def Inr sum.case Let_def
        forward_http3_firewall [OF ok [THEN conjunct1] ok [THEN conjunct2]] ..
  qed
  then show ?thesis by (simp add: h3_handle_request_def)
qed

end
