(* ===== verification/Doh_Requests.thy ===== *)
theory Doh_Requests
  imports Connections
begin

section \<open>The requests of a DoH connection, interleaved (\<open>src/readers/doh.rs\<close>)\<close>

text \<open>
  Over HTTP/2 a connection has many requests in progress. Each waits for one of the connection's
  \<open>max_inflight_requests_per_connection\<close> permits and is then handled by \<open>handle_http_request\<close>;
  the handlers share the client pool and the counters, and interleave at their awaits: the
  request body, the pool, the upstream exchange. A request carries the state of its own two
  streams. Its future may be dropped at any time, which returns the permit and records nothing.
\<close>

datatype 'a doh_stage =
    Queued
  | ReadingBody rewrite_result
  | NeedsClient rewrite_result bytes
  | Exchanging rewrite_result bytes "'a http_client"
  | Answered http_response
  | Dropped_request

record ('a, 'w) doh_request =
  rq_request :: http_request
  rq_begin :: 'w                \<comment> \<open>its streams when it arrived\<close>
  rq_world :: 'w                \<comment> \<open>its streams now\<close>
  rq_stage :: "'a doh_stage"

record ('a, 'w) doh_conn =
  dc_state :: "'a doh_state"
  dc_permits :: nat
  dc_requests :: "('a, 'w) doh_request list"

definition doh_conn_init :: "nat \<Rightarrow> 'a doh_state \<Rightarrow> ('a, 'w) doh_conn \<Rightarrow> bool" where
  "doh_conn_init max_inflight st s \<longleftrightarrow> s = \<lparr>dc_state = st, dc_permits = max_inflight, dc_requests = []\<rparr>"

definition set_request :: "nat \<Rightarrow> ('a, 'w) doh_request \<Rightarrow> ('a, 'w) doh_conn \<Rightarrow> ('a, 'w) doh_conn" where
  "set_request i q s = s\<lparr>dc_requests := (dc_requests s)[i := q]\<rparr>"

definition release_permit :: "('a, 'w) doh_conn \<Rightarrow> ('a, 'w) doh_conn" where
  "release_permit s = s\<lparr>dc_permits := Suc (dc_permits s)\<rparr>"

fun holds_permit :: "'a doh_stage \<Rightarrow> bool" where
  "holds_permit (ReadingBody r) = True"
| "holds_permit (NeedsClient r body) = True"
| "holds_permit (Exchanging r body client) = True"
| "holds_permit _ = False"

definition request_at :: "('a, 'w) doh_conn \<Rightarrow> nat \<Rightarrow> ('a, 'w) doh_request \<Rightarrow> bool" where
  "request_at s i q \<longleftrightarrow> i < length (dc_requests s) \<and> q = dc_requests s ! i"

definition answer_of :: "doh_http_error + http_response \<Rightarrow> http_response" where
  "answer_of r = (case r of Inl e \<Rightarrow> doh_error_response e | Inr response \<Rightarrow> response)"

inductive doh_conn_step ::
    "http_lib \<Rightarrow> ('a, 'w) doh_io \<Rightarrow> string \<Rightarrow> base_sni_rewriter \<Rightarrow> http_upstream_config \<Rightarrow> string \<Rightarrow> string
     \<Rightarrow> ('a, 'w) doh_conn \<Rightarrow> ('a, 'w) doh_conn \<Rightarrow> bool"
  for lib :: http_lib and io :: "('a, 'w) doh_io" and timeout_text :: string and rw :: base_sni_rewriter
    and endpoint :: http_upstream_config and request_path :: string and tls_sni :: string where
  arrives: "doh_conn_step lib io timeout_text rw endpoint request_path tls_sni s
     (s\<lparr>dc_requests := dc_requests s @ [\<lparr>rq_request = req, rq_begin = w, rq_world = w, rq_stage = Queued\<rparr>]\<rparr>)"
| refused: "request_at s i q \<Longrightarrow> rq_stage q = Queued \<Longrightarrow> 0 < dc_permits s \<Longrightarrow>
     doh_guards lib rw request_path tls_sni (rq_request q) = Inl e \<Longrightarrow>
     doh_conn_step lib io timeout_text rw endpoint request_path tls_sni s
       (set_request i (q\<lparr>rq_stage := Answered (doh_error_response e)\<rparr>) s)"
| admitted: "request_at s i q \<Longrightarrow> rq_stage q = Queued \<Longrightarrow> dc_permits s = Suc n \<Longrightarrow>
     doh_guards lib rw request_path tls_sni (rq_request q) = Inr r \<Longrightarrow>
     doh_conn_step lib io timeout_text rw endpoint request_path tls_sni s
       (set_request i (q\<lparr>rq_stage := ReadingBody r\<rparr>)
          (s\<lparr>dc_permits := n, dc_state := (dc_state s)\<lparr>ds_metrics := record_sni_rewrite (ds_metrics (dc_state s))\<rparr>\<rparr>))"
| bad_body: "request_at s i q \<Longrightarrow> rq_stage q = ReadingBody r \<Longrightarrow>
     doh_request_body io (req_method (rq_request q)) (rq_world q) = Some (Inl e, w) \<Longrightarrow>
     doh_conn_step lib io timeout_text rw endpoint request_path tls_sni s
       (release_permit (set_request i (q\<lparr>rq_world := w, rq_stage := Answered (doh_error_response e)\<rparr>) s))"
| has_body: "request_at s i q \<Longrightarrow> rq_stage q = ReadingBody r \<Longrightarrow>
     doh_request_body io (req_method (rq_request q)) (rq_world q) = Some (Inr body, w) \<Longrightarrow>
     doh_conn_step lib io timeout_text rw endpoint request_path tls_sni s
       (set_request i (q\<lparr>rq_world := w, rq_stage := NeedsClient r body\<rparr>) s)"
| has_client: "request_at s i q \<Longrightarrow> rq_stage q = NeedsClient r body \<Longrightarrow>
     get_client (dh_iter_guard io) ident (rr_target_hostname r) (ds_pool (dc_state s)) = Some (client, pool) \<Longrightarrow>
     doh_conn_step lib io timeout_text rw endpoint request_path tls_sni s
       (set_request i (q\<lparr>rq_stage := Exchanging r body client\<rparr>)
          (s\<lparr>dc_state := (dc_state s)\<lparr>ds_pool := pool\<rparr>\<rparr>))"
| exchanged: "request_at s i q \<Longrightarrow> rq_stage q = Exchanging r body client \<Longrightarrow>
     forward_http_request lib io timeout_text client
       (upstream_uri (rr_target_hostname r) (hu_port endpoint) (hu_path endpoint) (req_query (rq_request q)))
       (rr_target_hostname r) (req_method (rq_request q)) (req_headers (rq_request q)) body (rq_world q)
       = Some (forwarded, w) \<Longrightarrow>
     doh_record elapsed (of_nat (length body)) forwarded (ds_metrics (dc_state s)) = (answer, m) \<Longrightarrow>
     doh_conn_step lib io timeout_text rw endpoint request_path tls_sni s
       (release_permit (set_request i (q\<lparr>rq_world := w, rq_stage := Answered (answer_of answer)\<rparr>)
          (s\<lparr>dc_state := (dc_state s)\<lparr>ds_metrics := m\<rparr>\<rparr>)))"
| dropped: "request_at s i q \<Longrightarrow> \<forall>response. rq_stage q \<noteq> Answered response \<Longrightarrow>
     doh_conn_step lib io timeout_text rw endpoint request_path tls_sni s
       ((if holds_permit (rq_stage q) then release_permit else id) (set_request i (q\<lparr>rq_stage := Dropped_request\<rparr>) s))"

subsection \<open>Every answer is the handler's\<close>

text \<open>What a request has been through, in terms of the handler's parts.\<close>

definition handled_alone ::
    "http_lib \<Rightarrow> ('a, 'w) doh_io \<Rightarrow> string \<Rightarrow> base_sni_rewriter \<Rightarrow> http_upstream_config \<Rightarrow> string \<Rightarrow> string
     \<Rightarrow> http_request \<Rightarrow> 'w \<Rightarrow> http_response \<Rightarrow> bool" where
  "handled_alone lib io timeout_text rw endpoint request_path tls_sni req w response \<longleftrightarrow>
     (\<exists>ident elapsed st st' w'. handle_http_request lib io timeout_text rw endpoint request_path tls_sni
        ident elapsed req st w = Some (response, st', w'))"

fun stage_ok ::
    "http_lib \<Rightarrow> ('a, 'w) doh_io \<Rightarrow> string \<Rightarrow> base_sni_rewriter \<Rightarrow> http_upstream_config \<Rightarrow> string \<Rightarrow> string
     \<Rightarrow> http_request \<Rightarrow> 'w \<Rightarrow> 'w \<Rightarrow> 'a doh_stage \<Rightarrow> bool" where
  "stage_ok lib io tt rw endpoint path sni req w0 w (ReadingBody r) \<longleftrightarrow>
     doh_guards lib rw path sni req = Inr r \<and> w = w0"
| "stage_ok lib io tt rw endpoint path sni req w0 w (NeedsClient r body) \<longleftrightarrow>
     doh_guards lib rw path sni req = Inr r \<and> doh_request_body io (req_method req) w0 = Some (Inr body, w)"
| "stage_ok lib io tt rw endpoint path sni req w0 w (Exchanging r body client) \<longleftrightarrow>
     doh_guards lib rw path sni req = Inr r \<and> doh_request_body io (req_method req) w0 = Some (Inr body, w)
     \<and> (\<exists>ident pool pool'. get_client (dh_iter_guard io) ident (rr_target_hostname r) pool = Some (client, pool'))"
| "stage_ok lib io tt rw endpoint path sni req w0 w (Answered response) \<longleftrightarrow>
     handled_alone lib io tt rw endpoint path sni req w0 response"
| "stage_ok lib io tt rw endpoint path sni req w0 w Queued \<longleftrightarrow> w = w0"
| "stage_ok lib io tt rw endpoint path sni req w0 w Dropped_request \<longleftrightarrow> True"

lemma refused_alone:
  assumes "doh_guards lib rw path sni req = Inl e"
  shows "handled_alone lib io tt rw endpoint path sni req w (doh_error_response e)"
  unfolding handled_alone_def
  using assms by (auto simp: handle_http_request_def handle_http_request_inner_def)

lemma bad_body_alone:
  assumes "doh_guards lib rw path sni req = Inr r" and "doh_request_body io (req_method req) w = Some (Inl e, w')"
  shows "handled_alone lib io tt rw endpoint path sni req w (doh_error_response e)"
  unfolding handled_alone_def
  using assms by (auto simp: handle_http_request_def handle_http_request_inner_def Let_def)

text \<open>The answer to an exchange does not depend on the counters.\<close>

lemma doh_record_answer: "fst (doh_record elapsed n forwarded m) = fst (doh_record elapsed' n' forwarded m')"
  by (auto simp: doh_record_def Let_def split: sum.split)

lemma exchanged_alone:
  assumes "doh_guards lib rw path sni req = Inr r" and "doh_request_body io (req_method req) w = Some (Inr body, w1)"
    and client: "get_client (dh_iter_guard io) ident (rr_target_hostname r) pool = Some (client, pool')"
    and forward: "forward_http_request lib io tt client
       (upstream_uri (rr_target_hostname r) (hu_port endpoint) (hu_path endpoint) (req_query req))
       (rr_target_hostname r) (req_method req) (req_headers req) body w1 = Some (forwarded, w2)"
    and "doh_record elapsed (of_nat (length body)) forwarded m = (answer, m')"
  shows "handled_alone lib io tt rw endpoint path sni req w (answer_of answer)"
proof -
  let ?st = "\<lparr>ds_metrics = m, ds_pool = pool\<rparr>"
  obtain m1 where rec: "doh_record elapsed (of_nat (length body)) forwarded (record_sni_rewrite m) = (answer, m1)"
    using doh_record_answer [of elapsed "of_nat (length body)" forwarded m elapsed "of_nat (length body)"
        "record_sni_rewrite m"] assms(5) by (cases "doh_record elapsed (of_nat (length body)) forwarded (record_sni_rewrite m)") simp
  have "handle_http_request_inner lib io tt rw endpoint path sni ident elapsed req ?st w
      = Some (answer, \<lparr>ds_metrics = m1, ds_pool = pool'\<rparr>, w2)"
    unfolding handle_http_request_inner_def assms(1,2) sum.case option.case prod.case Let_def
    by (simp add: client forward rec)
  then have "handle_http_request lib io tt rw endpoint path sni ident elapsed req ?st w
      = Some (answer_of answer, \<lparr>ds_metrics = m1, ds_pool = pool'\<rparr>, w2)"
    by (simp add: handle_http_request_def answer_of_def split: sum.split)
  then show ?thesis unfolding handled_alone_def by blast
qed

subsection \<open>What holds of the connection\<close>

definition in_progress :: "('a, 'w) doh_conn \<Rightarrow> nat" where
  "in_progress s = length (filter (\<lambda>q. holds_permit (rq_stage q)) (dc_requests s))"

definition session_targets :: "base_sni_rewriter \<Rightarrow> string \<Rightarrow> string set" where
  "session_targets rw sni = (case rewrite rw sni of None \<Rightarrow> {} | Some r \<Rightarrow> {rr_target_hostname r})"

definition doh_conn_inv ::
    "http_lib \<Rightarrow> ('a, 'w) doh_io \<Rightarrow> string \<Rightarrow> base_sni_rewriter \<Rightarrow> http_upstream_config \<Rightarrow> string \<Rightarrow> string
     \<Rightarrow> nat \<Rightarrow> 'a doh_state \<Rightarrow> ('a, 'w) doh_conn \<Rightarrow> bool" where
  "doh_conn_inv lib io tt rw endpoint path sni max_inflight st s \<longleftrightarrow>
     dc_permits s + in_progress s = max_inflight
     \<and> pool_names (dc_state s) \<subseteq> pool_names st \<union> session_targets rw sni
     \<and> (\<forall>q \<in> set (dc_requests s).
          stage_ok lib io tt rw endpoint path sni (rq_request q) (rq_begin q) (rq_world q) (rq_stage q))"

lemma length_filter_update:
  "i < length xs \<Longrightarrow> length (filter P (xs[i := x])) + (if P (xs ! i) then 1 else 0)
     = length (filter P xs) + (if P x then 1 else 0)"
proof (induction xs arbitrary: i)
  case (Cons y ys)
  then show ?case by (cases i) auto
qed simp

lemma in_progress_set_request:
  assumes "request_at s i q"
  shows "in_progress (set_request i q' s) + (if holds_permit (rq_stage q) then 1 else 0)
    = in_progress s + (if holds_permit (rq_stage q') then 1 else 0)"
  using length_filter_update [of i "dc_requests s" "\<lambda>q. holds_permit (rq_stage q)" q'] assms
  by (simp add: in_progress_def set_request_def request_at_def)

lemma doh_conn_simps [simp]:
  "dc_state (set_request i q s) = dc_state s"
  "dc_permits (set_request i q s) = dc_permits s"
  "dc_requests (set_request i q s) = (dc_requests s)[i := q]"
  "dc_state (release_permit s) = dc_state s"
  "dc_permits (release_permit s) = Suc (dc_permits s)"
  "dc_requests (release_permit s) = dc_requests s"
  "in_progress (release_permit s) = in_progress s"
  "in_progress (s\<lparr>dc_permits := n\<rparr>) = in_progress s"
  "in_progress (s\<lparr>dc_state := st\<rparr>) = in_progress s"
  "set_request i q (s\<lparr>dc_permits := n\<rparr>) = (set_request i q s)\<lparr>dc_permits := n\<rparr>"
  "set_request i q (s\<lparr>dc_state := st\<rparr>) = (set_request i q s)\<lparr>dc_state := st\<rparr>"
  by (simp_all add: set_request_def release_permit_def in_progress_def)

lemma pool_names_simps [simp]:
  "pool_names (st\<lparr>ds_metrics := m\<rparr>) = pool_names st"
  "pool_names (st\<lparr>ds_pool := pool\<rparr>) = fst ` set (hp_clients pool)"
  by (simp_all add: pool_names_def)

text \<open>A step of one request: what is left to show of the others follows.\<close>

lemma doh_conn_inv_request:
  assumes inv: "doh_conn_inv lib io tt rw endpoint path sni m st s" and at: "request_at s i q"
    and "stage_ok lib io tt rw endpoint path sni (rq_request q') (rq_begin q') (rq_world q') (rq_stage q')"
    and requests: "dc_requests t = (dc_requests s)[i := q']"
    and "dc_permits t + (if holds_permit (rq_stage q') then 1 else 0)
      = dc_permits s + (if holds_permit (rq_stage q) then 1 else 0)"
    and "pool_names (dc_state t) \<subseteq> pool_names (dc_state s) \<union> session_targets rw sni"
  shows "doh_conn_inv lib io tt rw endpoint path sni m st t"
proof -
  have "in_progress t = in_progress (set_request i q' s)" using requests by (simp add: in_progress_def)
  then have "dc_permits t + in_progress t = m"
    using in_progress_set_request [OF at, of q'] assms(1,5) by (auto simp: doh_conn_inv_def split: if_splits)
  moreover have "set (dc_requests t) \<subseteq> insert q' (set (dc_requests s))"
    unfolding requests by (rule set_update_subset_insert)
  ultimately show ?thesis using assms(1,3,6) by (auto simp: doh_conn_inv_def)
qed

lemma request_stage_ok:
  "doh_conn_inv lib io tt rw endpoint path sni m st s \<Longrightarrow> request_at s i q \<Longrightarrow>
     stage_ok lib io tt rw endpoint path sni (rq_request q) (rq_begin q) (rq_world q) (rq_stage q)"
  by (simp add: doh_conn_inv_def request_at_def)

lemma doh_conn_step_inv:
  assumes inv: "doh_conn_inv lib io tt rw endpoint path sni m st s"
    and step: "doh_conn_step lib io tt rw endpoint path sni s t"
  shows "doh_conn_inv lib io tt rw endpoint path sni m st t"
  using step
proof cases
  case (arrives req w)
  then show ?thesis using inv by (auto simp: doh_conn_inv_def in_progress_def)
next
  case (refused i q e)
  then show ?thesis
    by (intro doh_conn_inv_request [OF inv refused(2)]) (auto intro: refused_alone)
next
  case (admitted i q n r)
  then show ?thesis
    using request_stage_ok [OF inv admitted(2)]
    by (intro doh_conn_inv_request [OF inv admitted(2), where q' = "q\<lparr>rq_stage := ReadingBody r\<rparr>"]) auto
next
  case (bad_body i q r e w)
  then show ?thesis
    using request_stage_ok [OF inv bad_body(2)]
    by (intro doh_conn_inv_request [OF inv bad_body(2),
          where q' = "q\<lparr>rq_world := w, rq_stage := Answered (doh_error_response e)\<rparr>"])
       (auto intro: bad_body_alone)
next
  case (has_body i q r body w)
  then show ?thesis
    using request_stage_ok [OF inv has_body(2)]
    by (intro doh_conn_inv_request [OF inv has_body(2),
          where q' = "q\<lparr>rq_world := w, rq_stage := NeedsClient r body\<rparr>"]) auto
next
  case (has_client i q r body ident client pool)
  have ok: "doh_guards lib rw path sni (rq_request q) = Inr r"
    "doh_request_body io (req_method (rq_request q)) (rq_begin q) = Some (Inr body, rq_world q)"
    using request_stage_ok [OF inv has_client(2)] has_client(3) by simp_all
  then have "rewrite rw sni = Some r" by (simp add: doh_guards_Inr_iff)
  then have "pool_names (dc_state t) \<subseteq> pool_names (dc_state s) \<union> session_targets rw sni"
    using get_client_names [OF has_client(4)] has_client(1) by (auto simp: session_targets_def pool_names_def)
  then show ?thesis
    using ok has_client
    by (intro doh_conn_inv_request [OF inv has_client(2),
          where q' = "q\<lparr>rq_stage := Exchanging r body client\<rparr>"]) auto
next
  case (exchanged i q r body client forwarded w elapsed answer mt)
  have ok: "doh_guards lib rw path sni (rq_request q) = Inr r"
    "doh_request_body io (req_method (rq_request q)) (rq_begin q) = Some (Inr body, rq_world q)"
    and "\<exists>ident pool pool'. get_client (dh_iter_guard io) ident (rr_target_hostname r) pool = Some (client, pool')"
    using request_stage_ok [OF inv exchanged(2)] exchanged(3) by simp_all
  then obtain ident pool pool' where
    "get_client (dh_iter_guard io) ident (rr_target_hostname r) pool = Some (client, pool')" by blast
  from exchanged_alone [OF ok this exchanged(4,5)]
  show ?thesis
    using exchanged
    by (intro doh_conn_inv_request [OF inv exchanged(2),
          where q' = "q\<lparr>rq_world := w, rq_stage := Answered (answer_of answer)\<rparr>"]) auto
next
  case (dropped i q)
  then show ?thesis
    by (intro doh_conn_inv_request [OF inv dropped(2), where q' = "q\<lparr>rq_stage := Dropped_request\<rparr>"]) auto
qed

interpretation doh_conn: inductive_invariant "doh_conn_init m st"
    "doh_conn_step lib io tt rw endpoint path sni" "doh_conn_inv lib io tt rw endpoint path sni m st"
    for lib and io :: "('a, 'w) doh_io" and tt rw endpoint path sni m and st :: "'a doh_state"
proof unfold_locales
  fix s :: "('a, 'w) doh_conn"
  assume "doh_conn_init m st s"
  then show "doh_conn_inv lib io tt rw endpoint path sni m st s"
    by (simp add: doh_conn_init_def doh_conn_inv_def in_progress_def)
qed (rule doh_conn_step_inv)

subsection \<open>The handler alone is a run\<close>

text \<open>The newest request takes a step.\<close>

definition newest :: "('a, 'w) doh_request list \<Rightarrow> nat \<Rightarrow> 'a doh_state \<Rightarrow> ('a, 'w) doh_request \<Rightarrow> ('a, 'w) doh_conn" where
  "newest qs n st q = \<lparr>dc_state = st, dc_permits = n, dc_requests = qs @ [q]\<rparr>"

lemma newest_simps [simp]:
  "request_at (newest qs n st q) (length qs) q' \<longleftrightarrow> q' = q"
  "set_request (length qs) q' (newest qs n st q) = newest qs n st q'"
  "dc_state (newest qs n st q) = st"
  "dc_permits (newest qs n st q) = n"
  "(newest qs n st q)\<lparr>dc_state := st'\<rparr> = newest qs n st' q"
  "(newest qs n st q)\<lparr>dc_permits := n'\<rparr> = newest qs n' st q"
  "release_permit (newest qs n st q) = newest qs (Suc n) st q"
  by (auto simp: newest_def request_at_def set_request_def release_permit_def)

lemma handler_is_run:
  fixes io :: "('a, 'w) doh_io" and qs :: "('a, 'w) doh_request list"
  assumes "handle_http_request lib io tt rw endpoint path sni ident elapsed req st w = Some (response, st', w')"
  shows "(doh_conn_step lib io tt rw endpoint path sni)\<^sup>*\<^sup>* \<lparr>dc_state = st, dc_permits = Suc n, dc_requests = qs\<rparr>
    (newest qs (Suc n) st' \<lparr>rq_request = req, rq_begin = w, rq_world = w', rq_stage = Answered response\<rparr>)"
proof -
  let ?step = "doh_conn_step lib io tt rw endpoint path sni"
  let ?at = "\<lambda>w' stage. \<lparr>rq_request = req, rq_begin = w, rq_world = w', rq_stage = stage\<rparr>"
  note steps = converse_rtranclp_into_rtranclp [of ?step]
  from assms obtain answer where
    inner: "handle_http_request_inner lib io tt rw endpoint path sni ident elapsed req st w = Some (answer, st', w')"
    and response: "response = answer_of answer"
    by (auto simp: handle_http_request_def answer_of_def split: option.splits sum.splits)
  have arrives: "?step \<lparr>dc_state = st, dc_permits = Suc n, dc_requests = qs\<rparr> (newest qs (Suc n) st (?at w Queued))"
    using doh_conn_step.arrives [of lib io tt rw endpoint path sni "\<lparr>dc_state = st, dc_permits = Suc n, dc_requests = qs\<rparr>" req w]
    by (simp add: newest_def)
  let ?st1 = "st\<lparr>ds_metrics := record_sni_rewrite (ds_metrics st)\<rparr>"
  have admitted: "?step (newest qs (Suc n) st (?at w Queued)) (newest qs n ?st1 (?at w (ReadingBody r)))"
    if "doh_guards lib rw path sni req = Inr r" for r
    using doh_conn_step.admitted [of "newest qs (Suc n) st (?at w Queued)" "length qs" "?at w Queued" n lib rw path sni r
        io tt endpoint] that by simp
  from inner show ?thesis
  proof (cases rule: handle_inner_cases)
    case (rejected e)
    have "?step (newest qs (Suc n) st (?at w Queued)) (newest qs (Suc n) st (?at w (Answered (doh_error_response e))))"
      using doh_conn_step.refused [of "newest qs (Suc n) st (?at w Queued)" "length qs" "?at w Queued" lib rw path sni e
          io tt endpoint] rejected(1) by simp
    then show ?thesis using arrives rejected response by (auto simp: answer_of_def intro: steps)
  next
    case (bad_body r e)
    have "?step (newest qs n ?st1 (?at w (ReadingBody r))) (newest qs (Suc n) ?st1 (?at w' (Answered (doh_error_response e))))"
      using doh_conn_step.bad_body [of "newest qs n ?st1 (?at w (ReadingBody r))" "length qs" "?at w (ReadingBody r)" r
          io e w' lib tt rw endpoint path sni] bad_body(2) by simp
    then show ?thesis using arrives admitted [OF bad_body(1)] bad_body response by (auto simp: answer_of_def intro: steps)
  next
    case (forwarded r body w1 client pool forwarded m)
    let ?st2 = "?st1\<lparr>ds_pool := pool\<rparr>"
    have "?step (newest qs n ?st1 (?at w (ReadingBody r))) (newest qs n ?st1 (?at w1 (NeedsClient r body)))"
      using doh_conn_step.has_body [of "newest qs n ?st1 (?at w (ReadingBody r))" "length qs" "?at w (ReadingBody r)" r
          io body w1 lib tt rw endpoint path sni] forwarded(2) by simp
    moreover have "?step (newest qs n ?st1 (?at w1 (NeedsClient r body))) (newest qs n ?st2 (?at w1 (Exchanging r body client)))"
      using doh_conn_step.has_client [of "newest qs n ?st1 (?at w1 (NeedsClient r body))" "length qs" "?at w1 (NeedsClient r body)"
          r body io ident client pool lib tt rw endpoint path sni] forwarded(3) by simp
    moreover have "?step (newest qs n ?st2 (?at w1 (Exchanging r body client)))
        (newest qs (Suc n) (?st2\<lparr>ds_metrics := m\<rparr>) (?at w' (Answered (answer_of answer))))"
      using doh_conn_step.exchanged [of "newest qs n ?st2 (?at w1 (Exchanging r body client))" "length qs"
          "?at w1 (Exchanging r body client)" r body client lib io tt endpoint forwarded w' elapsed answer m rw path sni]
        forwarded(4,5) by simp
    moreover have "st' = ?st2\<lparr>ds_metrics := m\<rparr>" using forwarded(6) by simp
    ultimately show ?thesis
      using arrives admitted [OF forwarded(1)] unfolding response by (auto intro!: steps)
  qed
qed

end
