(* ===== verification/Logging.thy ===== *)
theory Logging
  imports Config
begin

section \<open>Setting logging up (\<open>src/logging.rs\<close>)\<close>

text \<open>
  \<open>init_logging\<close> decides the filter, where the lines go and in which format, and installs the
  result as the process's subscriber. Its decisions are the model: the subscriber is a list of
  layers, each with a sink, a format and a filter (all of them print target, file, line and an
  RFC 3339 time). The filter language of \<open>tracing_subscriber\<close> and opening a file are parameters;
  \<open>std::path\<close> is modelled on its components. A file to append to that cannot be opened is an error;
  \<open>tracing_appender::rolling::daily\<close> panics if it cannot create its file, in a directory it makes if
  need be. The panic of \<open>init\<close> when a subscriber is installed already cannot happen here: \<open>main\<close>
  calls \<open>init_logging\<close> once.
\<close>

subsection \<open>Paths\<close>

datatype path_component = RootDir | CurDir | ParentDir | Normal string

fun component_of :: "string \<Rightarrow> path_component" where
  "component_of s = (if s = ''.'' then CurDir else if s = ''..'' then ParentDir else Normal s)"

text \<open>\<open>Path::components\<close> on Unix: empty parts and dots vanish, except a leading dot.\<close>

definition path_components :: "string \<Rightarrow> path_component list" where
  "path_components p =
     (case split_on CHR ''/'' p of
        [] \<Rightarrow> []
      | first # rest \<Rightarrow>
          (if first = [] then (if rest = [] then [] else [RootDir]) else [component_of first])
          @ map component_of (filter (\<lambda>s. s \<noteq> [] \<and> s \<noteq> ''.'') rest))"

text \<open>\<open>Path::parent\<close> and \<open>Path::file_name\<close>.\<close>

definition path_parent :: "path_component list \<Rightarrow> path_component list option" where
  "path_parent cs = (if cs = [] \<or> last cs = RootDir then None else Some (butlast cs))"

definition path_file_name :: "path_component list \<Rightarrow> string option" where
  "path_file_name cs = (if cs = [] then None else (case last cs of Normal s \<Rightarrow> Some s | _ \<Rightarrow> None))"

subsection \<open>The filter\<close>

record 'f log_lib =
  ll_parse :: "string \<Rightarrow> 'f option"                 \<comment> \<open>\<open>EnvFilter::from_str\<close>\<close>
  ll_new :: "string \<Rightarrow> 'f"                          \<comment> \<open>\<open>EnvFilter::new\<close>\<close>
  ll_open_append :: "string \<Rightarrow> string option"       \<comment> \<open>the error of opening a file to append to, if any\<close>
  ll_open_daily :: "path_component list \<Rightarrow> string \<Rightarrow> string option"
    \<comment> \<open>the error of creating the day's file with a prefix in a directory, if any\<close>

text \<open>\<open>rust_log\<close> is the variable \<open>RUST_LOG\<close>, \<open>None\<close> if it is not set or is no UTF-8.\<close>

definition try_from_default_env :: "'f log_lib \<Rightarrow> string option \<Rightarrow> 'f option" where
  "try_from_default_env lib rust_log = (case rust_log of None \<Rightarrow> None | Some v \<Rightarrow> ll_parse lib v)"

definition env_filter :: "'f log_lib \<Rightarrow> string option \<Rightarrow> logging_config \<Rightarrow> 'f" where
  "env_filter lib rust_log c =
     (let level = (case rust_log of None \<Rightarrow> log_level c | Some v \<Rightarrow> v)
      in case try_from_default_env lib rust_log of
           Some f \<Rightarrow> f
         | None \<Rightarrow> (case ll_parse lib level of Some f \<Rightarrow> f | None \<Rightarrow> ll_new lib ''info''))"

subsection \<open>The layers\<close>

datatype log_sink =
    Stdout
  | Stderr
  | AppendFile string                          \<comment> \<open>written to directly\<close>
  | DailyFile "path_component list" string     \<comment> \<open>directory and prefix, behind a worker thread\<close>

datatype log_format = PlainText | Json

record 'f log_layer =
  ly_sink :: log_sink
  ly_format :: log_format
  ly_filter :: 'f

definition log_layer_of :: "log_sink \<Rightarrow> bool \<Rightarrow> 'f \<Rightarrow> 'f log_layer" where
  "log_layer_of sink json f = \<lparr>ly_sink = sink, ly_format = (if json then Json else PlainText), ly_filter = f\<rparr>"

definition daily_directory :: "string \<Rightarrow> path_component list" where
  "daily_directory log_file_path =
     (case path_parent (path_components log_file_path) of Some d \<Rightarrow> d | None \<Rightarrow> path_components ''.'')"

definition daily_prefix :: "string \<Rightarrow> string" where
  "daily_prefix log_file_path =
     (case path_file_name (path_components log_file_path) of Some n \<Rightarrow> n | None \<Rightarrow> ''dns-proxy.log'')"

definition daily_sink :: "string \<Rightarrow> log_sink" where
  "daily_sink log_file_path = DailyFile (daily_directory log_file_path) (daily_prefix log_file_path)"

text \<open>
  The result tells whether there is a worker to keep, and the layers installed; \<open>None\<close> is a panic.
\<close>

definition init_logging ::
    "'f log_lib \<Rightarrow> string option \<Rightarrow> logging_config \<Rightarrow> (anyhow_error + bool \<times> 'f log_layer list) option" where
  "init_logging lib rust_log c =
     (let f = env_filter lib rust_log c
      in case log_file c of
           None \<Rightarrow> Some (Inr (False, [log_layer_of Stdout (log_json c) f]))
         | Some p \<Rightarrow>
             (if log_rotation c
              then (case ll_open_daily lib (daily_directory p) (daily_prefix p) of
                      Some _ \<Rightarrow> None
                    | None \<Rightarrow> Some (Inr (True, [log_layer_of (daily_sink p) (log_json c) f, log_layer_of Stderr False f])))
              else (case ll_open_append lib p of
                      Some _ \<Rightarrow> Some (Inl (''Failed to open log file: '' @ p))
                    | None \<Rightarrow> Some (Inr (False, [log_layer_of (AppendFile p) (log_json c) f, log_layer_of Stderr False f])))))"

subsection \<open>What it decides\<close>

lemma component_of_Normal [simp]: "s \<noteq> ''.'' \<Longrightarrow> s \<noteq> ''..'' \<Longrightarrow> component_of s = Normal s"
  by simp

declare component_of.simps [simp del]

lemma split_on_last:
  "CHR ''/'' \<notin> set n \<Longrightarrow> split_on CHR ''/'' (d @ CHR ''/'' # n) = split_on CHR ''/'' d @ [n]"
  by (induction d) (auto simp: split_on_no_sep split: list.splits)

lemma path_components_append:
  assumes "CHR ''/'' \<notin> set n" and "n \<noteq> []" and "n \<noteq> ''.''" and "n \<noteq> ''..''" and "d \<noteq> []"
  shows "path_components (d @ CHR ''/'' # n) = path_components d @ [Normal n]"
proof -
  obtain p ps where ps: "split_on CHR ''/'' d = p # ps"
    by (cases "split_on CHR ''/'' d") auto
  have "p \<noteq> [] \<or> ps \<noteq> []"
  proof (rule ccontr)
    assume "\<not> (p \<noteq> [] \<or> ps \<noteq> [])"
    with ps assms(5) show False by (cases d) (auto split: if_splits list.splits)
  qed
  then show ?thesis using assms ps by (auto simp: path_components_def split_on_last)
qed

lemma path_components_name:
  assumes "CHR ''/'' \<notin> set n" and "n \<noteq> []" and "n \<noteq> ''.''" and "n \<noteq> ''..''"
  shows "path_components n = [Normal n]"
  using assms by (simp add: path_components_def split_on_no_sep)

lemma daily_sink_in_directory:
  assumes "CHR ''/'' \<notin> set n" and "n \<noteq> []" and "n \<noteq> ''.''" and "n \<noteq> ''..''"
  shows "daily_sink n = DailyFile [] n"
    and "d \<noteq> [] \<Longrightarrow> daily_sink (d @ CHR ''/'' # n) = DailyFile (path_components d) n"
  using path_components_name [OF assms] path_components_append [OF assms]
  by (simp_all add: daily_sink_def daily_directory_def daily_prefix_def path_parent_def path_file_name_def)

lemma env_filter_cases:
  "env_filter lib (Some v) c = (case ll_parse lib v of Some f \<Rightarrow> f | None \<Rightarrow> ll_new lib ''info'')"
  "env_filter lib None c = (case ll_parse lib (log_level c) of Some f \<Rightarrow> f | None \<Rightarrow> ll_new lib ''info'')"
  by (auto simp: env_filter_def try_from_default_env_def split: option.split)

lemma init_logging_Inl_iff:
  "init_logging lib rust_log c = Some (Inl e) \<longleftrightarrow>
     (\<exists>p m. log_file c = Some p \<and> \<not> log_rotation c \<and> ll_open_append lib p = Some m
        \<and> e = ''Failed to open log file: '' @ p)"
  by (auto simp: init_logging_def Let_def split: option.split)

lemma init_logging_panic_iff:
  "init_logging lib rust_log c = None \<longleftrightarrow>
     (\<exists>p m. log_file c = Some p \<and> log_rotation c \<and> ll_open_daily lib (daily_directory p) (daily_prefix p) = Some m)"
  by (auto simp: init_logging_def Let_def split: option.split)

text \<open>The configured file can be opened, in the way the configuration asks for.\<close>

definition log_opens :: "'f log_lib \<Rightarrow> logging_config \<Rightarrow> bool" where
  "log_opens lib c \<longleftrightarrow>
     (case log_file c of
        None \<Rightarrow> True
      | Some p \<Rightarrow>
          (if log_rotation c then ll_open_daily lib (daily_directory p) (daily_prefix p) = None
           else ll_open_append lib p = None))"

lemma init_logging_ok_iff: "(\<exists>r. init_logging lib rust_log c = Some (Inr r)) \<longleftrightarrow> log_opens lib c"
  by (auto simp: init_logging_def log_opens_def Let_def split: option.split)

text \<open>The size limit and the number of files to keep are not used.\<close>

lemma init_logging_ignores_limits:
  "init_logging lib rust_log (c\<lparr>log_max_file_size := n, log_max_files := k\<rparr>) = init_logging lib rust_log c"
  by (cases rust_log) (simp_all add: init_logging_def env_filter_cases Let_def split: option.split)

lemma init_logging_ignores_level:
  "init_logging lib (Some v) (c\<lparr>log_level := l\<rparr>) = init_logging lib (Some v) c"
  by (simp add: init_logging_def env_filter_cases Let_def split: option.split)

lemma init_logging_layers:
  assumes "init_logging lib rust_log c = Some (Inr (guard, layers))"
  shows "guard \<longleftrightarrow> log_file c \<noteq> None \<and> log_rotation c"
    and "\<forall>y \<in> set layers. ly_filter y = env_filter lib rust_log c"
    and "log_file c = None \<Longrightarrow> map ly_sink layers = [Stdout]"
    and "log_file c = Some p \<Longrightarrow> map ly_sink layers = [if log_rotation c then daily_sink p else AppendFile p, Stderr]"
    and "length (filter (\<lambda>y. ly_format y = Json) layers) = (if log_json c then 1 else 0)"
  using assms
  by (auto simp: init_logging_def log_layer_of_def Let_def split: option.splits if_splits)

end
