(* ===== verification/Server_Start.thy ===== *)
theory Server_Start
  imports App Quic_Pool
begin

section \<open>How the servers start (\<open>run\<close> in \<open>src/readers/*.rs\<close>, \<open>src/quic/config.rs\<close>)\<close>

text \<open>
  What the \<open>run\<close> of each server does before its accept loop: the TLS configuration, the
  socket, and the message it sends over the readiness channel the application gave it. The
  servers differ in the order of these and in which failures they report; a sender that is
  dropped unused is the report \<open>Dropped\<close>. How \<open>App::start\<close> reads the channels is at the end.
  The sockets are the parameter \<open>net_lib\<close>, with the error texts of the host.
\<close>

record ('ip, 'sock) net_lib =
  nl_bind_tcp :: "string \<Rightarrow> string + 'sock"
  nl_parse_error :: "string \<Rightarrow> string"
  nl_quic_config :: "string list \<Rightarrow> string + unit"
  nl_bind_udp :: "'ip \<times> u16 \<Rightarrow> string + 'sock"

record ('cert, 'skey) server_tls =
  st_resolver :: "('cert, 'skey) certified_key certificate_resolver"
  st_alpn :: "string list"

definition create_server_config ::
    "('cert, 'anchor, 'key, 'skey) tls_lib \<Rightarrow> tls_config \<Rightarrow> dns_proxy_error + ('cert, 'skey) server_tls" where
  "create_server_config lib tls =
     and_then (certificate_resolver_new lib tls) (\<lambda>resolver.
     Inr \<lparr>st_resolver = resolver, st_alpn = []\<rparr>)"

text \<open>The text of an \<open>anyhow::Error\<close> is that of its outermost context.\<close>

definition create_quic_server_endpoint ::
    "('ip, 'sock) net_lib \<Rightarrow> ('cert, 'anchor, 'key, 'skey) tls_lib \<Rightarrow> app_config \<Rightarrow> 'ip \<times> u16
     \<Rightarrow> quic_application \<Rightarrow> anyhow_error + 'sock \<times> ('cert, 'skey) server_tls" where
  "create_quic_server_endpoint net lib c bind_addr application =
     and_then (map_err (\<lambda>_. ''Failed to create TLS server config'') (create_server_config lib (cfg_tls c))) (\<lambda>tls0.
     let tls = tls0\<lparr>st_alpn := [alpn application]\<rparr> in
     and_then (map_err (\<lambda>_. ''Failed to create QuicServerConfig'') (nl_quic_config net (st_alpn tls))) (\<lambda>_.
     and_then (map_err (\<lambda>_. ''Failed to create QUIC endpoint'') (nl_bind_udp net bind_addr)) (\<lambda>sock.
     Inr (sock, tls))))"

text \<open>Where \<open>run\<close> stands when its set-up is over: in the accept loop, or returned.\<close>

datatype ('sock, 'tls) startup =
    Listening 'sock "'tls option"
  | Returned "dns_proxy_error + unit"

definition healthcheck_setup ::
    "('ip, 'sock) net_lib \<Rightarrow> app_config \<Rightarrow> report \<times> ('sock, unit) startup" where
  "healthcheck_setup net c =
     (let server_config = srv_healthcheck (cfg_servers c) in
      if \<not> hc_enabled server_config then (Dropped, Returned (Inr ()))
      else case nl_bind_tcp net (host_port (hc_bind_address server_config) (hc_port server_config)) of
             Inl message \<Rightarrow> (BindError (Io message), Returned (Inl (Io message)))
           | Inr sock \<Rightarrow> (Bound, Listening sock None))"

definition dot_setup ::
    "('ip, 'sock) net_lib \<Rightarrow> ('cert, 'anchor, 'key, 'skey) tls_lib \<Rightarrow> app_config
     \<Rightarrow> report \<times> ('sock, ('cert, 'skey) server_tls) startup" where
  "dot_setup net lib c =
     (let server_config = srv_dot (cfg_servers c) in
      if \<not> sp_enabled server_config then (Dropped, Returned (Inr ()))
      else case create_server_config lib (cfg_tls c) of
             Inl e \<Rightarrow>
               let err = Tls (show_error e)
               in (BindError (Tls (show_error err)), Returned (Inl err))
           | Inr tls \<Rightarrow>
              (case nl_bind_tcp net (host_port (sp_bind_address server_config) (sp_port server_config)) of
                 Inl message \<Rightarrow> (BindError (Io message), Returned (Inl (Io message)))
               | Inr sock \<Rightarrow> (Bound, Listening sock (Some (tls\<lparr>st_alpn := [''dot'']\<rparr>)))))"

text \<open>DoH binds first, and a failure of its certificates leaves the channel unused.\<close>

definition doh_setup ::
    "('ip, 'sock) net_lib \<Rightarrow> ('cert, 'anchor, 'key, 'skey) tls_lib \<Rightarrow> app_config
     \<Rightarrow> report \<times> ('sock, ('cert, 'skey) server_tls) startup" where
  "doh_setup net lib c =
     (let server_config = srv_doh (cfg_servers c) in
      if \<not> sp_enabled server_config then (Dropped, Returned (Inr ()))
      else case nl_bind_tcp net (host_port (sp_bind_address server_config) (sp_port server_config)) of
             Inl message \<Rightarrow> (BindError (Io message), Returned (Inl (Io message)))
           | Inr sock \<Rightarrow>
              (case create_server_config lib (cfg_tls c) of
                 Inl e \<Rightarrow> (Dropped, Returned (Inl (Tls (show_error e))))
               | Inr tls \<Rightarrow> (Bound, Listening sock (Some (tls\<lparr>st_alpn := [''h2'', ''http/1.1'']\<rparr>)))))"

text \<open>The two QUIC servers; an address that does not parse leaves the channel unused.\<close>

definition quic_setup ::
    "'ip validation_env \<Rightarrow> ('ip, 'sock) net_lib \<Rightarrow> ('cert, 'anchor, 'key, 'skey) tls_lib \<Rightarrow> app_config
     \<Rightarrow> server_port_config \<Rightarrow> quic_application \<Rightarrow> report \<times> ('sock, ('cert, 'skey) server_tls) startup" where
  "quic_setup env net lib c server_config application =
     (if \<not> sp_enabled server_config then (Dropped, Returned (Inr ()))
      else let bind_addr = host_port (sp_bind_address server_config) (sp_port server_config)
           in case ve_parse_socket_addr env bind_addr of
                None \<Rightarrow> (Dropped, Returned (Inl (InvalidInput
                           (''Invalid bind address: '' @ nl_parse_error net bind_addr))))
              | Some addr \<Rightarrow>
                 (case create_quic_server_endpoint net lib c addr application of
                    Inl e \<Rightarrow> (BindError (Protocol e), Returned (Inl (error_from_anyhow e)))
                  | Inr (sock, tls) \<Rightarrow> (Bound, Listening sock (Some tls))))"

definition doq_setup ::
    "'ip validation_env \<Rightarrow> ('ip, 'sock) net_lib \<Rightarrow> ('cert, 'anchor, 'key, 'skey) tls_lib \<Rightarrow> app_config
     \<Rightarrow> report \<times> ('sock, ('cert, 'skey) server_tls) startup" where
  "doq_setup env net lib c = quic_setup env net lib c (srv_doq (cfg_servers c)) Doq"

definition doh3_setup ::
    "'ip validation_env \<Rightarrow> ('ip, 'sock) net_lib \<Rightarrow> ('cert, 'anchor, 'key, 'skey) tls_lib \<Rightarrow> app_config
     \<Rightarrow> report \<times> ('sock, ('cert, 'skey) server_tls) startup" where
  "doh3_setup env net lib c = quic_setup env net lib c (srv_doh3 (cfg_servers c)) H3"

subsection \<open>\<open>App::start\<close> over these servers\<close>

text \<open>
  The servers \<open>start\<close> spawns, in its order, with what each of them reports and whether its
  task stores \<open>failed\<close> when the set-up is over (it does if \<open>run\<close> returned an error; the token
  is not cancelled before a report was read).
\<close>

fun setup_failed :: "('sock, 'tls) startup \<Rightarrow> bool" where
  "setup_failed (Returned (Inl e)) = True"
| "setup_failed (Returned (Inr u)) = False"
| "setup_failed (Listening sock tls) = False"

definition spawn_server :: "bool \<Rightarrow> string \<Rightarrow> report \<times> ('sock, 'tls) startup \<Rightarrow> (string \<times> report \<times> bool) list" where
  "spawn_server enabled name outcome =
     (if enabled then [(name, fst outcome, setup_failed (snd outcome))] else [])"

definition spawned_servers ::
    "'ip validation_env \<Rightarrow> ('ip, 'sock) net_lib \<Rightarrow> ('cert, 'anchor, 'key, 'skey) tls_lib \<Rightarrow> app_config
     \<Rightarrow> (string \<times> report \<times> bool) list" where
  "spawned_servers env net lib c =
     spawn_server (hc_enabled (srv_healthcheck (cfg_servers c))) ''healthcheck'' (healthcheck_setup net c)
     @ spawn_server (sp_enabled (srv_dot (cfg_servers c))) ''DoT'' (dot_setup net lib c)
     @ spawn_server (sp_enabled (srv_doh (cfg_servers c))) ''DoH'' (doh_setup net lib c)
     @ spawn_server (sp_enabled (srv_doq (cfg_servers c))) ''DoQ'' (doq_setup env net lib c)
     @ spawn_server (sp_enabled (srv_doh3 (cfg_servers c))) ''DoH3'' (doh3_setup env net lib c)"

text \<open>The loop over the channels: the first report that is not \<open>Ok\<close> ends it.\<close>

fun await_readiness :: "(string \<times> report \<times> bool) list \<Rightarrow> dns_proxy_error + unit" where
  "await_readiness [] = Inr ()"
| "await_readiness ((name, Bound, failed) # readiness) = await_readiness readiness"
| "await_readiness ((name, BindError e, failed) # readiness) = Inl e"
| "await_readiness ((name, Dropped, failed) # readiness) =
     Inl (Protocol (name @ '' server exited before reporting listener readiness''))"

text \<open>
  \<open>start\<close>: the servers load the certificates again, so the files they read (\<open>lib'\<close>) need not be
  those the application has checked (\<open>lib\<close>). The result, and whether \<open>start\<close> has shut the
  application down again, which it does on every failure after the first server was spawned.
\<close>

definition app_start ::
    "'ip validation_env \<Rightarrow> ('ip, 'sock) net_lib \<Rightarrow> ('cert, 'anchor, 'key, 'skey) tls_lib
     \<Rightarrow> ('cert, 'anchor, 'key, 'skey) tls_lib \<Rightarrow> app_config \<Rightarrow> (dns_proxy_error + unit) \<times> bool" where
  "app_start env net lib lib' c =
     (case prepare_start env lib c of
        Inl e \<Rightarrow> (Inl e, False)
      | Inr _ \<Rightarrow>
         (let servers = spawned_servers env net lib' c
          in case await_readiness servers of
               Inl e \<Rightarrow> (Inl e, True)
             | Inr _ \<Rightarrow>
                 (if list_ex (\<lambda>(_, _, failed). failed) servers
                  then (Inl (Protocol ''a listener exited during startup''), True)
                  else (Inr (), False))))"

definition start_servers ::
    "'ip validation_env \<Rightarrow> ('ip, 'sock) net_lib \<Rightarrow> ('cert, 'anchor, 'key, 'skey) tls_lib
     \<Rightarrow> ('cert, 'anchor, 'key, 'skey) tls_lib \<Rightarrow> app_config \<Rightarrow> dns_proxy_error + unit" where
  "start_servers env net lib lib' c = fst (app_start env net lib lib' c)"

lemma start_servers_eq:
  "start_servers env net lib lib' c =
     and_then (prepare_start env lib c) (\<lambda>_.
     let servers = spawned_servers env net lib' c in
     and_then (await_readiness servers) (\<lambda>_.
     ensure (\<not> list_ex (\<lambda>(_, _, failed). failed) servers) (Protocol ''a listener exited during startup'')))"
  by (simp add: start_servers_def app_start_def ensure_def Let_def split: sum.split)

lemma app_start_shut_down:
  "snd (app_start env net lib lib' c) \<longleftrightarrow>
     (\<exists>names. prepare_start env lib c = Inr names) \<and> start_servers env net lib lib' c \<noteq> Inr ()"
  by (simp add: start_servers_def app_start_def Let_def split: sum.split)

subsection \<open>What a server reports\<close>

text \<open>
  The error a listener's own set-up gives when the certificates load: that of its TCP socket, or for
  QUIC the one that stands for a refused TLS configuration or for a UDP socket that could not be
  bound at the address of the listener. A set-up is reported faithfully: \<open>Bound\<close> if it serves, else
  the very error \<open>run\<close> returns.
\<close>

definition listener_alpn :: "listener \<Rightarrow> string list" where
  "listener_alpn l = [if ls_name l = ''doq'' then ''doq'' else ''h3'']"

definition listener_error :: "'ip validation_env \<Rightarrow> ('ip, 'sock) net_lib \<Rightarrow> listener \<Rightarrow> dns_proxy_error \<Rightarrow> bool" where
  "listener_error env net l e \<longleftrightarrow>
     (let bind_addr = host_port (ls_bind_address l) (ls_port l) in
      if ls_transport l = ''tcp'' then \<exists>m. nl_bind_tcp net bind_addr = Inl m \<and> e = Io m
      else (\<exists>m. nl_quic_config net (listener_alpn l) = Inl m \<and> e = Protocol ''Failed to create QuicServerConfig'')
         \<or> (\<exists>addr m. nl_quic_config net (listener_alpn l) = Inr () \<and> ve_parse_socket_addr env bind_addr = Some addr
              \<and> nl_bind_udp net addr = Inl m \<and> e = Protocol ''Failed to create QUIC endpoint''))"

definition told :: "'ip validation_env \<Rightarrow> ('ip, 'sock) net_lib \<Rightarrow> listener \<Rightarrow> report \<times> ('sock, 'tls) startup \<Rightarrow> bool" where
  "told env net l outcome \<longleftrightarrow>
     (\<exists>sock tls. outcome = (Bound, Listening sock tls))
     \<or> (\<exists>e. listener_error env net l e \<and> outcome = (BindError e, Returned (Inl e)))"

lemma told_outcome:
  "told env net l outcome \<Longrightarrow> fst outcome = Bound \<and> \<not> setup_failed (snd outcome)
     \<or> (\<exists>e. listener_error env net l e \<and> fst outcome = BindError e) \<and> setup_failed (snd outcome)"
  by (auto simp: told_def)

lemma healthcheck_setup_told:
  "hc_enabled (srv_healthcheck (cfg_servers c))
   \<Longrightarrow> told env net (healthcheck_listener (cfg_servers c)) (healthcheck_setup net c)"
  by (simp add: healthcheck_setup_def told_def listener_error_def healthcheck_listener_def Let_def split: sum.split)

lemma dot_setup_told:
  "sp_enabled (srv_dot (cfg_servers c)) \<Longrightarrow> certificate_resolver_new lib (cfg_tls c) = Inr r
   \<Longrightarrow> told env net (port_listener ''dot'' ''tcp'' (srv_dot (cfg_servers c))) (dot_setup net lib c)"
  by (simp add: dot_setup_def create_server_config_def told_def listener_error_def port_listener_def Let_def
      split: sum.split)

lemma doh_setup_told:
  "sp_enabled (srv_doh (cfg_servers c)) \<Longrightarrow> certificate_resolver_new lib (cfg_tls c) = Inr r
   \<Longrightarrow> told env net (port_listener ''doh'' ''tcp'' (srv_doh (cfg_servers c))) (doh_setup net lib c)"
  by (simp add: doh_setup_def create_server_config_def told_def listener_error_def port_listener_def Let_def
      split: sum.split)

lemma create_quic_server_endpoint_Inl:
  assumes "create_quic_server_endpoint net lib c addr application = Inl e"
    and "certificate_resolver_new lib (cfg_tls c) = Inr r"
  shows "(\<exists>m. nl_quic_config net [alpn application] = Inl m) \<and> e = ''Failed to create QuicServerConfig''
    \<or> nl_quic_config net [alpn application] = Inr () \<and> (\<exists>m. nl_bind_udp net addr = Inl m)
      \<and> e = ''Failed to create QUIC endpoint''"
  using assms
  by (cases "nl_quic_config net [alpn application]"; cases "nl_bind_udp net addr")
     (auto simp: create_quic_server_endpoint_def create_server_config_def map_err_def Let_def)

lemma quic_setup_told:
  assumes "sp_enabled sc"
    and addr: "ve_parse_socket_addr env (host_port (sp_bind_address sc) (sp_port sc)) = Some addr"
    and "certificate_resolver_new lib (cfg_tls c) = Inr r"
    and alpn: "alpn application = (if name = ''doq'' then ''doq'' else ''h3'')"
  shows "told env net (port_listener name ''udp'' sc) (quic_setup env net lib c sc application)"
proof (cases "create_quic_server_endpoint net lib c addr application")
  case (Inl e)
  have "quic_setup env net lib c sc application = (BindError (Protocol e), Returned (Inl (Protocol e)))"
    using assms(1,2) Inl by (simp add: quic_setup_def error_from_anyhow_def)
  moreover have "listener_error env net (port_listener name ''udp'' sc) (Protocol e)"
  proof -
    have l: "listener_alpn (port_listener name ''udp'' sc) = [alpn application]"
      "ls_transport (port_listener name ''udp'' sc) = ''udp''"
      "host_port (ls_bind_address (port_listener name ''udp'' sc)) (ls_port (port_listener name ''udp'' sc))
        = host_port (sp_bind_address sc) (sp_port sc)"
      by (simp_all add: listener_alpn_def port_listener_def alpn)
    have udp: "''udp'' \<noteq> ''tcp''" by simp
    show ?thesis
      unfolding listener_error_def Let_def l if_not_P [OF udp] addr
      using create_quic_server_endpoint_Inl [OF Inl assms(3)] by blast
  qed
  ultimately show ?thesis by (simp add: told_def)
next
  case (Inr x)
  then show ?thesis using assms by (cases x) (simp add: quic_setup_def told_def)
qed

subsection \<open>When every server is bound\<close>

text \<open>The sockets a configuration asks for, over the listeners its validation looks at.\<close>

definition listener_binds :: "'ip validation_env \<Rightarrow> ('ip, 'sock) net_lib \<Rightarrow> listener \<Rightarrow> bool" where
  "listener_binds env net l \<longleftrightarrow>
     (let bind_addr = host_port (ls_bind_address l) (ls_port l) in
      if ls_transport l = ''tcp'' then \<exists>sock. nl_bind_tcp net bind_addr = Inr sock
      else \<exists>addr sock. ve_parse_socket_addr env bind_addr = Some addr \<and> nl_bind_udp net addr = Inr sock
             \<and> nl_quic_config net [if ls_name l = ''doq'' then ''doq'' else ''h3''] = Inr ())"

definition sockets_bind :: "'ip validation_env \<Rightarrow> ('ip, 'sock) net_lib \<Rightarrow> app_config \<Rightarrow> bool" where
  "sockets_bind env net c \<longleftrightarrow> (\<forall>l \<in> set (all_listeners c). ls_enabled l \<longrightarrow> listener_binds env net l)"

lemma create_quic_server_endpoint_ok_iff:
  assumes "certificate_resolver_new lib (cfg_tls c) = Inr r"
  shows "(\<exists>x. create_quic_server_endpoint net lib c addr application = Inr x)
    \<longleftrightarrow> nl_quic_config net [alpn application] = Inr () \<and> (\<exists>sock. nl_bind_udp net addr = Inr sock)"
  using assms by (auto simp: create_quic_server_endpoint_def create_server_config_def Let_def res_simps)

lemma quic_setup_Bound_iff:
  assumes "certificate_resolver_new lib (cfg_tls c) = Inr r" and "sp_enabled sc"
  shows "fst (quic_setup env net lib c sc application) = Bound \<longleftrightarrow>
    (\<exists>addr sock. ve_parse_socket_addr env (host_port (sp_bind_address sc) (sp_port sc)) = Some addr
       \<and> nl_bind_udp net addr = Inr sock \<and> nl_quic_config net [alpn application] = Inr ())"
proof (cases "ve_parse_socket_addr env (host_port (sp_bind_address sc) (sp_port sc))")
  case None
  then show ?thesis using assms(2) by (simp add: quic_setup_def)
next
  case (Some addr)
  have "fst (quic_setup env net lib c sc application) = Bound
      \<longleftrightarrow> (\<exists>x. create_quic_server_endpoint net lib c addr application = Inr x)"
    using assms(2) Some
    by (cases "create_quic_server_endpoint net lib c addr application") (auto simp: quic_setup_def split: prod.split)
  with Some show ?thesis
    unfolding create_quic_server_endpoint_ok_iff [OF assms(1)] by auto
qed

lemma setup_Bound_iff:
  assumes "certificate_resolver_new lib (cfg_tls c) = Inr r"
  shows "sp_enabled (srv_dot (cfg_servers c)) \<Longrightarrow> fst (dot_setup net lib c) = Bound
      \<longleftrightarrow> listener_binds env net (port_listener ''dot'' ''tcp'' (srv_dot (cfg_servers c)))"
    and "sp_enabled (srv_doh (cfg_servers c)) \<Longrightarrow> fst (doh_setup net lib c) = Bound
      \<longleftrightarrow> listener_binds env net (port_listener ''doh'' ''tcp'' (srv_doh (cfg_servers c)))"
    and "sp_enabled (srv_doq (cfg_servers c)) \<Longrightarrow> fst (doq_setup env net lib c) = Bound
      \<longleftrightarrow> listener_binds env net (port_listener ''doq'' ''udp'' (srv_doq (cfg_servers c)))"
    and "sp_enabled (srv_doh3 (cfg_servers c)) \<Longrightarrow> fst (doh3_setup env net lib c) = Bound
      \<longleftrightarrow> listener_binds env net (port_listener ''doh3'' ''udp'' (srv_doh3 (cfg_servers c)))"
  using assms
  by (auto simp: dot_setup_def doh_setup_def doq_setup_def doh3_setup_def quic_setup_Bound_iff
      create_server_config_def listener_binds_def port_listener_def Let_def split: sum.splits)

lemma healthcheck_setup_Bound_iff:
  "hc_enabled (srv_healthcheck (cfg_servers c)) \<Longrightarrow> fst (healthcheck_setup net c) = Bound
     \<longleftrightarrow> listener_binds env net (healthcheck_listener (cfg_servers c))"
  by (auto simp: healthcheck_setup_def listener_binds_def healthcheck_listener_def Let_def split: sum.splits)

lemma await_readiness_ok_iff:
  "await_readiness servers = Inr () \<longleftrightarrow> (\<forall>x \<in> set servers. fst (snd x) = Bound)"
  by (induction servers rule: await_readiness.induct) auto

lemma await_readiness_Inl:
  assumes "await_readiness servers = Inl e"
  shows "\<exists>name failed. (name, BindError e, failed) \<in> set servers
    \<or> (name, Dropped, failed) \<in> set servers"
  using assms by (induction servers rule: await_readiness.induct) auto

text \<open>Without a DNS listener no certificate is loaded, and only the health server is spawned.\<close>

lemma spawned_without_dns:
  assumes "\<not> any_dns_listener (cfg_servers c)"
  shows "spawned_servers env net lib c
    = spawn_server (hc_enabled (srv_healthcheck (cfg_servers c))) ''healthcheck'' (healthcheck_setup net c)"
  using assms by (simp add: any_dns_listener_def spawned_servers_def spawn_server_def)

lemma in_spawn_server:
  "(n, r, failed) \<in> set (spawn_server enabled name outcome)
     \<longleftrightarrow> enabled \<and> n = name \<and> r = fst outcome \<and> failed = setup_failed (snd outcome)"
  by (auto simp: spawn_server_def)

lemma all_spawn_server:
  "(\<forall>x \<in> set (spawn_server enabled name outcome). P x)
     \<longleftrightarrow> (enabled \<longrightarrow> P (name, fst outcome, setup_failed (snd outcome)))"
  by (simp add: spawn_server_def)

lemma all_all_listeners:
  "(\<forall>l \<in> set (all_listeners c). P l) \<longleftrightarrow>
     P (port_listener ''dot'' ''tcp'' (srv_dot (cfg_servers c)))
     \<and> P (port_listener ''doh'' ''tcp'' (srv_doh (cfg_servers c)))
     \<and> P (port_listener ''doq'' ''udp'' (srv_doq (cfg_servers c)))
     \<and> P (port_listener ''doh3'' ''udp'' (srv_doh3 (cfg_servers c)))
     \<and> P (healthcheck_listener (cfg_servers c))"
  by (simp add: all_listeners_def standard_listeners_def)

lemma ls_enabled_simps [simp]:
  "ls_enabled (port_listener name transport sc) = sp_enabled sc"
  "ls_enabled (healthcheck_listener s) = hc_enabled (srv_healthcheck s)"
  by (simp_all add: port_listener_def healthcheck_listener_def)

lemma spawned_all_Bound_iff:
  assumes "any_dns_listener (cfg_servers c) \<Longrightarrow> certificate_resolver_new lib (cfg_tls c) = Inr r"
  shows "(\<forall>x \<in> set (spawned_servers env net lib c). fst (snd x) = Bound) \<longleftrightarrow> sockets_bind env net c"
proof (cases "any_dns_listener (cfg_servers c)")
  case False
  then have "\<not> sp_enabled (srv_dot (cfg_servers c))" "\<not> sp_enabled (srv_doh (cfg_servers c))"
    "\<not> sp_enabled (srv_doq (cfg_servers c))" "\<not> sp_enabled (srv_doh3 (cfg_servers c))"
    by (simp_all add: any_dns_listener_def)
  then show ?thesis
    unfolding spawned_without_dns [OF False] sockets_bind_def all_spawn_server all_all_listeners
    by (simp add: healthcheck_setup_Bound_iff [where env = env])
next
  case True
  note bound = setup_Bound_iff [OF assms [OF True], where env = env and net = net]
    healthcheck_setup_Bound_iff [where env = env and net = net and c = c]
  show ?thesis
    unfolding sockets_bind_def spawned_servers_def set_append ball_Un all_spawn_server all_all_listeners
      fst_conv snd_conv ls_enabled_simps
    by (simp only: bound conj_ac cong: imp_cong)
qed

subsection \<open>What \<open>start\<close> returns\<close>

text \<open>What the checks before the first spawn establish for the servers.\<close>

lemma prepare_start_Inr_iff:
  "(\<exists>names. prepare_start env lib c = Inr names) \<longleftrightarrow>
     config_ok env c \<and> (\<exists>roots. load_upstream_root_store lib (upstream_ca_file (cfg_tls c)) = Inr roots)
     \<and> (any_dns_listener (cfg_servers c) \<longrightarrow> (\<exists>r. certificate_resolver_new lib (cfg_tls c) = Inr r))"
  by (auto simp: prepare_start_def validate_and_load_upstream_roots_def validate_structure_iff res_simps
      config_ok_def)

lemma listener_parses:
  assumes "config_ok env c" and "l \<in> set (all_listeners c)" and "ls_enabled l"
  shows "\<exists>addr. ve_parse_socket_addr env (host_port (ls_bind_address l) (ls_port l)) = Some addr"
proof -
  have "listener_addr env l \<in> set (enabled_addrs env (all_listeners c))"
    using assms(2,3) by (simp add: enabled_addrs_def)
  moreover have "None \<notin> set (enabled_addrs env (all_listeners c))"
    using assms(1) by (simp add: config_ok_def listeners_ok_def)
  ultimately have "listener_addr env l \<noteq> None" by metis
  then show ?thesis by (auto simp: listener_addr_def)
qed

lemma told_listener:
  assumes "told env net l outcome" and "l \<in> set (all_listeners c)" and "ls_enabled l"
    and "r = fst outcome" and "failed = setup_failed (snd outcome)"
  shows "r = Bound \<and> \<not> failed
      \<or> (\<exists>l e. l \<in> set (all_listeners c) \<and> ls_enabled l \<and> listener_error env net l e \<and> r = BindError e) \<and> failed"
  using told_outcome [OF assms(1)] assms(2-5) by blast

lemma spawned_told:
  assumes "config_ok env c"
    and certs: "any_dns_listener (cfg_servers c) \<Longrightarrow> certificate_resolver_new lib (cfg_tls c) = Inr cr"
    and "(name, r, failed) \<in> set (spawned_servers env net lib c)"
  shows "r = Bound \<and> \<not> failed
    \<or> (\<exists>l e. l \<in> set (all_listeners c) \<and> ls_enabled l \<and> listener_error env net l e \<and> r = BindError e) \<and> failed"
proof -
  have quic: "told env net (port_listener n ''udp'' sc) (quic_setup env net lib c sc application)"
    if alpn: "alpn application = (if n = ''doq'' then ''doq'' else ''h3'')" and l: "port_listener n ''udp'' sc \<in> set (all_listeners c)" and on: "sp_enabled sc"
      and any: "any_dns_listener (cfg_servers c)" for n sc application
  proof -
    obtain addr where "ve_parse_socket_addr env (host_port (sp_bind_address sc) (sp_port sc)) = Some addr"
      using listener_parses [OF assms(1) l] on by (auto simp: port_listener_def)
    from quic_setup_told [OF on this certs [OF any] alpn] show ?thesis .
  qed
  have dns: "any_dns_listener (cfg_servers c)"
    if "sp_enabled (srv_dot (cfg_servers c)) \<or> sp_enabled (srv_doh (cfg_servers c))
      \<or> sp_enabled (srv_doq (cfg_servers c)) \<or> sp_enabled (srv_doh3 (cfg_servers c))"
    using that by (auto simp: any_dns_listener_def)
  have ls: "healthcheck_listener (cfg_servers c) \<in> set (all_listeners c)"
    "port_listener ''dot'' ''tcp'' (srv_dot (cfg_servers c)) \<in> set (all_listeners c)"
    "port_listener ''doh'' ''tcp'' (srv_doh (cfg_servers c)) \<in> set (all_listeners c)"
    "port_listener ''doq'' ''udp'' (srv_doq (cfg_servers c)) \<in> set (all_listeners c)"
    "port_listener ''doh3'' ''udp'' (srv_doh3 (cfg_servers c)) \<in> set (all_listeners c)"
    by (simp_all add: all_listeners_def standard_listeners_def)
  from assms(3) show ?thesis
    unfolding spawned_servers_def set_append Un_iff in_spawn_server
  proof (elim disjE conjE)
    assume on: "hc_enabled (srv_healthcheck (cfg_servers c))" and rf: "r = fst (healthcheck_setup net c)"
      "failed = setup_failed (snd (healthcheck_setup net c))"
    show ?thesis
      using on by (intro told_listener [OF healthcheck_setup_told ls(1) _ rf]) simp_all
  next
    assume on: "sp_enabled (srv_dot (cfg_servers c))" and rf: "r = fst (dot_setup net lib c)"
      "failed = setup_failed (snd (dot_setup net lib c))"
    from on have any: "any_dns_listener (cfg_servers c)" by (simp add: dns)
    show ?thesis
      using on by (intro told_listener [OF dot_setup_told [OF on certs [OF any]] ls(2) _ rf]) simp_all
  next
    assume on: "sp_enabled (srv_doh (cfg_servers c))" and rf: "r = fst (doh_setup net lib c)"
      "failed = setup_failed (snd (doh_setup net lib c))"
    from on have any: "any_dns_listener (cfg_servers c)" by (simp add: dns)
    show ?thesis
      using on by (intro told_listener [OF doh_setup_told [OF on certs [OF any]] ls(3) _ rf]) simp_all
  next
    assume on: "sp_enabled (srv_doq (cfg_servers c))" and rf: "r = fst (doq_setup env net lib c)"
      "failed = setup_failed (snd (doq_setup env net lib c))"
    from on have any: "any_dns_listener (cfg_servers c)" by (simp add: dns)
    show ?thesis
      using on by (intro told_listener [OF quic [OF _ ls(4) on any] ls(4) _ rf [unfolded doq_setup_def]]) simp_all
  next
    assume on: "sp_enabled (srv_doh3 (cfg_servers c))" and rf: "r = fst (doh3_setup env net lib c)"
      "failed = setup_failed (snd (doh3_setup env net lib c))"
    from on have any: "any_dns_listener (cfg_servers c)" by (simp add: dns)
    show ?thesis
      using on by (intro told_listener [OF quic [OF _ ls(5) on any] ls(5) _ rf [unfolded doh3_setup_def]]) simp_all
  qed
qed

text \<open>Certificates that no longer load when a server wants them.\<close>

lemma lost_certificates:
  assumes "certificate_resolver_new lib (cfg_tls c) = Inl e"
  shows "sp_enabled (srv_dot (cfg_servers c)) \<Longrightarrow> fst (dot_setup net lib c) = BindError (Tls (show_error (Tls (show_error e))))"
    and "sp_enabled (srv_doh (cfg_servers c))
      \<Longrightarrow> listener_binds env net (port_listener ''doh'' ''tcp'' (srv_doh (cfg_servers c)))
      \<Longrightarrow> fst (doh_setup net lib c) = Dropped"
    and "sp_enabled sc \<Longrightarrow> ve_parse_socket_addr env (host_port (sp_bind_address sc) (sp_port sc)) = Some addr
      \<Longrightarrow> fst (quic_setup env net lib c sc application) = BindError (Protocol ''Failed to create TLS server config'')"
  using assms
  by (auto simp: dot_setup_def doh_setup_def quic_setup_def create_quic_server_endpoint_def map_err_def
      create_server_config_def listener_binds_def port_listener_def Let_def)

lemma lost_certificates_not_Bound:
  assumes "certificate_resolver_new lib (cfg_tls c) = Inl e" and "any_dns_listener (cfg_servers c)"
  shows "\<not> (\<forall>x \<in> set (spawned_servers env net lib c). fst (snd x) = Bound)"
proof -
  have "fst (quic_setup env net lib c sc application) \<noteq> Bound" if "sp_enabled sc" for sc application
    using assms(1) that
    by (auto simp: quic_setup_def create_quic_server_endpoint_def create_server_config_def map_err_def Let_def
        split: option.split)
  moreover have "sp_enabled (srv_dot (cfg_servers c)) \<Longrightarrow> fst (dot_setup net lib c) \<noteq> Bound"
    "sp_enabled (srv_doh (cfg_servers c)) \<Longrightarrow> fst (doh_setup net lib c) \<noteq> Bound"
    using assms(1) by (auto simp: dot_setup_def doh_setup_def create_server_config_def Let_def split: sum.splits)
  ultimately show ?thesis
    using assms(2)
    unfolding spawned_servers_def set_append ball_Un all_spawn_server fst_conv snd_conv doq_setup_def
      doh3_setup_def any_dns_listener_def
    by auto
qed

lemma start_servers_Inr_iff:
  "start_servers env net lib lib' c = Inr () \<longleftrightarrow>
     config_ok env c \<and> (\<exists>roots. load_upstream_root_store lib (upstream_ca_file (cfg_tls c)) = Inr roots)
     \<and> (any_dns_listener (cfg_servers c) \<longrightarrow> (\<exists>r. certificate_resolver_new lib (cfg_tls c) = Inr r)
           \<and> (\<exists>r. certificate_resolver_new lib' (cfg_tls c) = Inr r))
     \<and> sockets_bind env net c"
proof (cases "config_ok env c \<and> (any_dns_listener (cfg_servers c) \<longrightarrow> (\<exists>r. certificate_resolver_new lib' (cfg_tls c) = Inr r))")
  case True
  then obtain cr where certs: "any_dns_listener (cfg_servers c) \<Longrightarrow> certificate_resolver_new lib' (cfg_tls c) = Inr cr"
    by blast
  let ?servers = "spawned_servers env net lib' c"
  have "\<not> failed" if "(name, Bound, failed) \<in> set ?servers" for name failed
    using spawned_told [OF _ certs that] True by simp
  then have none: "\<not> list_ex (\<lambda>(_, _, failed). failed) ?servers" if "await_readiness ?servers = Inr ()"
    using that unfolding await_readiness_ok_iff by (fastforce simp: list_ex_iff)
  have bound: "await_readiness ?servers = Inr () \<longleftrightarrow> sockets_bind env net c"
    unfolding await_readiness_ok_iff by (rule spawned_all_Bound_iff [OF certs])
  have "start_servers env net lib lib' c = Inr ()
      \<longleftrightarrow> (\<exists>names. prepare_start env lib c = Inr names) \<and> await_readiness ?servers = Inr ()"
    using none
    by (cases "prepare_start env lib c"; cases "await_readiness ?servers") (simp_all add: start_servers_eq ensure_def)
  then show ?thesis
    unfolding prepare_start_Inr_iff bound using True by blast
next
  case False
  have "start_servers env net lib lib' c \<noteq> Inr ()"
  proof
    assume started: "start_servers env net lib lib' c = Inr ()"
    then obtain names where names: "prepare_start env lib c = Inr names"
      and await: "await_readiness (spawned_servers env net lib' c) = Inr ()"
      by (cases "prepare_start env lib c"; cases "await_readiness (spawned_servers env net lib' c)")
         (simp_all add: start_servers_eq)
    have "config_ok env c" using names prepare_start_Inr_iff [of env lib c] by blast
    with False have any: "any_dns_listener (cfg_servers c)" and "\<nexists>r. certificate_resolver_new lib' (cfg_tls c) = Inr r"
      by blast+
    then obtain e where e: "certificate_resolver_new lib' (cfg_tls c) = Inl e"
      by (cases "certificate_resolver_new lib' (cfg_tls c)") auto
    show False
      using lost_certificates_not_Bound [OF e any, of env net] await unfolding await_readiness_ok_iff by blast
  qed
  with False show ?thesis by blast
qed

lemma start_servers_Inl_told:
  assumes "prepare_start env lib c = Inr names"
    and certs: "any_dns_listener (cfg_servers c) \<Longrightarrow> certificate_resolver_new lib' (cfg_tls c) = Inr cr"
    and "start_servers env net lib lib' c = Inl e"
  shows "\<exists>l. l \<in> set (all_listeners c) \<and> ls_enabled l \<and> listener_error env net l e"
proof -
  have ok: "config_ok env c" using assms(1) prepare_start_Inr_iff [of env lib c] by blast
  note told = spawned_told [OF ok certs]
  have "await_readiness (spawned_servers env net lib' c) = Inl e"
  proof (cases "await_readiness (spawned_servers env net lib' c)")
    case (Inl d)
    then show ?thesis using assms(1,3) by (simp add: start_servers_eq)
  next
    case (Inr u)
    then have "\<forall>x \<in> set (spawned_servers env net lib' c). fst (snd x) = Bound"
      by (simp add: await_readiness_ok_iff [symmetric])
    then have "\<not> list_ex (\<lambda>(_, _, failed). failed) (spawned_servers env net lib' c)"
      using told by (fastforce simp: list_ex_iff)
    then show ?thesis using Inr assms(1,3) by (simp add: start_servers_eq ensure_def)
  qed
  from await_readiness_Inl [OF this] show ?thesis using told by blast
qed

end
