(* ===== verification/Shutdown.thy ===== *)
theory Shutdown
  imports Listener
begin

section \<open>Shutting the application down (\<open>App::shutdown\<close>)\<close>

text \<open>
  \<open>shutdown\<close> cancels the token, takes a deadline one grace period ahead, closes all task groups
  at once, waits until every one of these calls has returned, and then joins the servers' handles
  one after the other, aborting a handle that has not finished by the deadline. Meanwhile each
  server notices the token, leaves its loop and closes its own group with a deadline of its own.
  Whoever closes a group first waits for its tasks; the other call returns at once. Time is a
  clock in milliseconds that a step may advance; a deadline that has passed may be acted on at
  any time from then on.

  The listeners are those of \<open>Listener\<close>, one for each handle. Every step has an actor: the clock, a
  server with its tasks, the supervisor of a server's group, or the application. A task may end at
  any time, as a step of its server, or never; it is aborted only by the supervisor of a closed
  group, and only after the deadline of the call that closed it. So what the deadlines enforce is
  what the application and the supervisors can do without a step of a server.
\<close>

definition shutdown_grace :: nat where
  "shutdown_grace = 10 * 1000"

datatype join_handle = Running | Finished | Aborted

record server_task =
  st_kind :: server_kind
  st_max_streams :: nat
  st_listener :: listener_sys
  st_deadline :: nat          \<comment> \<open>of the call that closed the group\<close>
  st_handle :: join_handle

datatype shutdown_phase =
    NotRequested
  | TokenCancelled
  | ClosingGroups "nat set"   \<comment> \<open>the servers whose group was asked to close\<close>
  | JoiningHandle nat
  | ShutdownDone

record shutdown_sys =
  sd_now :: nat
  sd_phase :: shutdown_phase
  sd_deadline :: nat
  sd_servers :: "server_task list"

text \<open>A server is up, or its \<open>run\<close> has returned before it accepted anything.\<close>

definition shutdown_init :: "shutdown_sys \<Rightarrow> bool" where
  "shutdown_init s \<longleftrightarrow> sd_phase s = NotRequested
     \<and> (\<forall>v \<in> set (sd_servers s). (\<exists>m. listener_init m (st_listener v)) \<and> st_handle v \<noteq> Aborted)"

definition no_tasks :: "listener_sys \<Rightarrow> bool" where
  "no_tasks l \<longleftrightarrow> ln_tasks l = {#} \<and> ln_streams l = {#} \<and> ln_watchers l = {#}"

text \<open>What a server and its tasks do on their own. A handle that is not running takes no step of the
  loop.\<close>

definition own_step :: "server_task \<Rightarrow> listener_sys \<Rightarrow> bool" where
  "own_step v l \<longleftrightarrow> loop_step (st_kind v) (st_max_streams v) (st_listener v) l
     \<and> (st_handle v \<noteq> Running \<longrightarrow> ln_phase l = ln_phase (st_listener v))"

definition after_own_step :: "server_task \<Rightarrow> listener_sys \<Rightarrow> server_task" where
  "after_own_step v l = v\<lparr>st_listener := l,
     st_handle := (if st_handle v = Running \<and> ln_phase l = Stopped then Finished else st_handle v)\<rparr>"

definition cancel_listener :: "server_task \<Rightarrow> server_task" where
  "cancel_listener v = v\<lparr>st_listener := (st_listener v)\<lparr>ln_cancelled := True\<rparr>\<rparr>"

text \<open>\<open>close_and_wait_until\<close>, which leaves a closed group alone.\<close>

definition close_listener :: "closer \<Rightarrow> nat \<Rightarrow> server_task \<Rightarrow> server_task" where
  "close_listener who deadline v =
     (if ln_closed (st_listener v) = None
      then v\<lparr>st_listener := (st_listener v)\<lparr>ln_closed := Some who\<rparr>, st_deadline := deadline\<rparr>
      else v)"

definition abort_listener :: "server_task \<Rightarrow> server_task" where
  "abort_listener v = v\<lparr>st_listener := (st_listener v)\<lparr>ln_tasks := {#}, ln_streams := {#}, ln_watchers := {#},
     ln_permits := ln_permits (st_listener v) + size (ln_tasks (st_listener v))\<rparr>\<rparr>"

text \<open>The application's call has returned for a server whose group it did not close, or whose
  tasks are gone.\<close>

definition close_returned :: "server_task \<Rightarrow> bool" where
  "close_returned v \<longleftrightarrow> ln_closed (st_listener v) = Some ByRun \<or> no_tasks (st_listener v)"

datatype actor = Clock | ServerOf nat | SupervisorOf nat | Application

inductive shutdown_act :: "actor \<Rightarrow> shutdown_sys \<Rightarrow> shutdown_sys \<Rightarrow> bool" where
  tick: "shutdown_act Clock s (s\<lparr>sd_now := Suc (sd_now s)\<rparr>)"
| serve: "i < length (sd_servers s) \<Longrightarrow> v = sd_servers s ! i \<Longrightarrow> own_step v l \<Longrightarrow>
     shutdown_act (ServerOf i) s (s\<lparr>sd_servers := (sd_servers s)[i := after_own_step v l]\<rparr>)"
| run_closes_group: "i < length (sd_servers s) \<Longrightarrow> v = sd_servers s ! i \<Longrightarrow> st_handle v = Running \<Longrightarrow>
     ln_phase (st_listener v) = Draining \<Longrightarrow>
     shutdown_act (ServerOf i) s (s\<lparr>sd_servers := (sd_servers s)[i := close_listener ByRun (sd_now s + shutdown_grace) v]\<rparr>)"
| abort_group: "i < length (sd_servers s) \<Longrightarrow> v = sd_servers s ! i \<Longrightarrow> ln_closed (st_listener v) \<noteq> None \<Longrightarrow>
     \<not> no_tasks (st_listener v) \<Longrightarrow> st_deadline v \<le> sd_now s \<Longrightarrow>
     shutdown_act (SupervisorOf i) s (s\<lparr>sd_servers := (sd_servers s)[i := abort_listener v]\<rparr>)"
| cancel_token: "sd_phase s = NotRequested \<Longrightarrow>
     shutdown_act Application s (s\<lparr>sd_phase := TokenCancelled, sd_servers := map cancel_listener (sd_servers s)\<rparr>)"
| take_deadline: "sd_phase s = TokenCancelled \<Longrightarrow>
     shutdown_act Application s (s\<lparr>sd_phase := ClosingGroups {}, sd_deadline := sd_now s + shutdown_grace\<rparr>)"
| app_closes_group: "sd_phase s = ClosingGroups A \<Longrightarrow> i < length (sd_servers s) \<Longrightarrow> i \<notin> A \<Longrightarrow>
     shutdown_act Application s (s\<lparr>sd_phase := ClosingGroups (insert i A),
       sd_servers := (sd_servers s)[i := close_listener ByApp (sd_deadline s) (sd_servers s ! i)]\<rparr>)"
| groups_closed: "sd_phase s = ClosingGroups A \<Longrightarrow> {..<length (sd_servers s)} \<subseteq> A \<Longrightarrow>
     \<forall>v \<in> set (sd_servers s). close_returned v \<Longrightarrow>
     shutdown_act Application s (s\<lparr>sd_phase := JoiningHandle 0\<rparr>)"
| joined: "sd_phase s = JoiningHandle i \<Longrightarrow> i < length (sd_servers s) \<Longrightarrow>
     st_handle (sd_servers s ! i) = Finished \<Longrightarrow>
     shutdown_act Application s (s\<lparr>sd_phase := JoiningHandle (Suc i)\<rparr>)"
| handle_aborted: "sd_phase s = JoiningHandle i \<Longrightarrow> i < length (sd_servers s) \<Longrightarrow> v = sd_servers s ! i \<Longrightarrow>
     st_handle v = Running \<Longrightarrow> sd_deadline s \<le> sd_now s \<Longrightarrow>
     shutdown_act Application s (s\<lparr>sd_phase := JoiningHandle (Suc i),
       sd_servers := (sd_servers s)[i := v\<lparr>st_handle := Aborted\<rparr>]\<rparr>)"
| all_joined: "sd_phase s = JoiningHandle (length (sd_servers s)) \<Longrightarrow>
     shutdown_act Application s (s\<lparr>sd_phase := ShutdownDone\<rparr>)"

definition shutdown_step :: "shutdown_sys \<Rightarrow> shutdown_sys \<Rightarrow> bool" where
  "shutdown_step s t \<longleftrightarrow> (\<exists>a. shutdown_act a s t)"

lemma shutdown_stepI: "shutdown_act a s t \<Longrightarrow> shutdown_step s t"
  by (auto simp: shutdown_step_def)

text \<open>The steps no server and no task has to take part in.\<close>

definition forced_step :: "shutdown_sys \<Rightarrow> shutdown_sys \<Rightarrow> bool" where
  "forced_step s t \<longleftrightarrow> (\<exists>a. shutdown_act a s t \<and> (a = Application \<or> (\<exists>i. a = SupervisorOf i)))"

lemma forced_is_step: "forced_step s t \<Longrightarrow> shutdown_step s t"
  by (auto simp: forced_step_def shutdown_step_def)

subsection \<open>What holds of every server meanwhile\<close>

fun asked_to_close :: "shutdown_phase \<Rightarrow> nat set" where
  "asked_to_close (ClosingGroups A) = A"
| "asked_to_close (JoiningHandle k) = UNIV"
| "asked_to_close ShutdownDone = UNIV"
| "asked_to_close _ = {}"

fun close_calls_returned :: "shutdown_phase \<Rightarrow> bool" where
  "close_calls_returned (JoiningHandle k) = True"
| "close_calls_returned ShutdownDone = True"
| "close_calls_returned _ = False"

text \<open>The handles taken care of; all of them in the end.\<close>

fun was_joined :: "shutdown_phase \<Rightarrow> nat \<Rightarrow> bool" where
  "was_joined (JoiningHandle k) i = (i < k)"
| "was_joined ShutdownDone i = True"
| "was_joined _ i = False"

fun has_deadline :: "shutdown_phase \<Rightarrow> bool" where
  "has_deadline NotRequested = False"
| "has_deadline TokenCancelled = False"
| "has_deadline _ = True"

definition server_inv :: "server_task \<Rightarrow> bool" where
  "server_inv v \<longleftrightarrow> (\<exists>m. listener_inv (st_kind v) (st_max_streams v) m (st_listener v))
     \<and> (st_handle v = Finished \<longrightarrow> no_tasks (st_listener v) \<or> ln_closed (st_listener v) = Some ByApp)"

definition phase_inv :: "shutdown_phase \<Rightarrow> nat \<Rightarrow> server_task \<Rightarrow> bool" where
  "phase_inv p i v \<longleftrightarrow>
     (i \<in> asked_to_close p \<longrightarrow> ln_closed (st_listener v) \<noteq> None)
     \<and> (close_calls_returned p \<longrightarrow> close_returned v)
     \<and> (if was_joined p i then st_handle v \<noteq> Running else st_handle v \<noteq> Aborted)"

definition deadline_inv :: "nat \<Rightarrow> shutdown_phase \<Rightarrow> nat \<Rightarrow> server_task \<Rightarrow> bool" where
  "deadline_inv now p deadline v \<longleftrightarrow>
     (ln_closed (st_listener v) \<noteq> None \<longrightarrow> st_deadline v \<le> now + shutdown_grace)
     \<and> (ln_closed (st_listener v) = Some ByApp \<longrightarrow> has_deadline p \<and> st_deadline v = deadline)
     \<and> (st_handle v = Aborted \<longrightarrow> deadline \<le> now)"

definition entry_inv :: "shutdown_sys \<Rightarrow> nat \<Rightarrow> server_task \<Rightarrow> bool" where
  "entry_inv s i v \<longleftrightarrow> server_inv v \<and> phase_inv (sd_phase s) i v
     \<and> deadline_inv (sd_now s) (sd_phase s) (sd_deadline s) v"

definition shutdown_inv :: "shutdown_sys \<Rightarrow> bool" where
  "shutdown_inv s \<longleftrightarrow> (has_deadline (sd_phase s) \<longrightarrow> sd_deadline s \<le> sd_now s + shutdown_grace)
     \<and> (\<forall>k. sd_phase s = JoiningHandle k \<longrightarrow> k \<le> length (sd_servers s))
     \<and> (\<forall>i < length (sd_servers s). entry_inv s i (sd_servers s ! i))"

lemma no_tasks_own_step:
  assumes "no_tasks l" and "loop_step r k l l'" and "ln_phase l' = ln_phase l \<or> ln_closed l \<noteq> None"
  shows "no_tasks l'"
  using assms(2)
proof cases
  case streams
  from streams(2) show ?thesis by cases (use assms(1) in \<open>simp_all add: no_tasks_def\<close>)
qed (use assms in \<open>auto simp: no_tasks_def after_accept_error_def\<close>)

lemma own_step_keeps:
  assumes "own_step v l"
  shows "ln_cancelled l = ln_cancelled (st_listener v)" and "ln_closed l = ln_closed (st_listener v)"
  using assms loop_step_keeps by (auto simp: own_step_def)

lemma own_step_returned:
  assumes "own_step v l" and "close_returned v" and "ln_closed (st_listener v) \<noteq> None"
  shows "close_returned (v\<lparr>st_listener := l\<rparr>)"
  using assms no_tasks_own_step [of "st_listener v"] own_step_keeps [OF assms(1)]
  by (auto simp: close_returned_def own_step_def)

lemma own_step_server_inv:
  assumes step: "own_step v l" and inv: "server_inv v"
  shows "server_inv (after_own_step v l)"
proof -
  obtain m where "listener_inv (st_kind v) (st_max_streams v) m (st_listener v)"
    using inv by (auto simp: server_inv_def)
  then have li: "listener_inv (st_kind v) (st_max_streams v) m l"
    using loop_step_inv step unfolding own_step_def by blast
  have "no_tasks l \<or> ln_closed l = Some ByApp" if "st_handle v = Finished"
    using that inv step no_tasks_own_step [of "st_listener v"] own_step_keeps [OF step]
    by (auto simp: server_inv_def own_step_def)
  moreover have "no_tasks l \<or> ln_closed l = Some ByApp" if "ln_phase l = Stopped"
    using that li by (auto simp: listener_inv_def no_tasks_def)
  ultimately show ?thesis using li by (auto simp: server_inv_def after_own_step_def)
qed

lemma own_step_entry_inv:
  assumes "own_step v l" and "entry_inv s i v"
  shows "entry_inv s i (after_own_step v l)"
proof -
  have closed: "ln_closed l = ln_closed (st_listener v)" by (rule own_step_keeps(2) [OF assms(1)])
  have "phase_inv (sd_phase s) i (after_own_step v l)"
    using assms(2) closed own_step_returned [OF assms(1)]
    by (cases "sd_phase s") (auto simp: entry_inv_def phase_inv_def after_own_step_def close_returned_def)
  moreover have "deadline_inv (sd_now s) (sd_phase s) (sd_deadline s) (after_own_step v l)"
    using assms(2) closed by (auto simp: entry_inv_def deadline_inv_def after_own_step_def)
  moreover have "server_inv (after_own_step v l)"
    using own_step_server_inv [OF assms(1)] assms(2) by (simp add: entry_inv_def)
  ultimately show ?thesis by (simp add: entry_inv_def)
qed

lemma listener_inv_cancelled [simp]:
  "listener_inv r k m (l\<lparr>ln_cancelled := b\<rparr>) = listener_inv r k m l"
  by (simp add: listener_inv_def)

lemma listener_inv_updates:
  assumes "listener_inv r k m l"
  shows "ln_closed l = None \<Longrightarrow> listener_inv r k m (l\<lparr>ln_closed := Some who\<rparr>)"
    and "ln_closed l = Some who \<Longrightarrow> listener_inv r k m
      (l\<lparr>ln_tasks := {#}, ln_streams := {#}, ln_watchers := {#}, ln_permits := ln_permits l + size (ln_tasks l)\<rparr>)"
  using assms by (auto simp: listener_inv_def)

lemma no_tasks_simps [simp]:
  "no_tasks (l\<lparr>ln_cancelled := b\<rparr>) = no_tasks l"
  "no_tasks (l\<lparr>ln_closed := c\<rparr>) = no_tasks l"
  "no_tasks (l\<lparr>ln_tasks := {#}, ln_streams := {#}, ln_watchers := {#}, ln_permits := n\<rparr>)"
  by (simp_all add: no_tasks_def)

lemma close_listener_simps [simp]:
  "ln_closed (st_listener (close_listener who d v)) \<noteq> None"
  "st_handle (close_listener who d v) = st_handle v"
  by (auto simp: close_listener_def)

lemma server_inv_updates:
  assumes "server_inv v"
  shows "server_inv (cancel_listener v)"
    and "who = ByApp \<or> st_handle v = Running \<Longrightarrow> server_inv (close_listener who d v)"
    and "ln_closed (st_listener v) \<noteq> None \<Longrightarrow> server_inv (abort_listener v)"
    and "server_inv (v\<lparr>st_handle := Aborted\<rparr>)"
  using assms
  by (auto simp: server_inv_def cancel_listener_def close_listener_def abort_listener_def
      intro: listener_inv_updates)

lemma run_close_entry_inv:
  assumes "entry_inv s i v" and "st_handle v = Running"
  shows "entry_inv s i (close_listener ByRun (sd_now s + shutdown_grace) v)"
  using assms server_inv_updates(2) [of v ByRun]
  by (auto simp: entry_inv_def phase_inv_def deadline_inv_def close_listener_def close_returned_def)

lemma app_close_entry_inv:
  assumes inv: "entry_inv s i v" and "sd_phase s = ClosingGroups A" and "sd_deadline s \<le> sd_now s + shutdown_grace"
    and t: "t = s\<lparr>sd_phase := ClosingGroups (insert i A), sd_servers := vs\<rparr>"
  shows "entry_inv t i (close_listener ByApp (sd_deadline s) v)"
proof -
  have "deadline_inv (sd_now s) (ClosingGroups (insert i A)) (sd_deadline s) (close_listener ByApp (sd_deadline s) v)"
    using assms by (auto simp: entry_inv_def deadline_inv_def close_listener_def)
  then show ?thesis
    using assms server_inv_updates(2) [of v ByApp] by (simp add: entry_inv_def phase_inv_def)
qed

lemma abort_entry_inv:
  assumes "entry_inv s i v" and "ln_closed (st_listener v) \<noteq> None"
  shows "entry_inv s i (abort_listener v)"
  using assms server_inv_updates(3) [of v]
  by (auto simp: entry_inv_def phase_inv_def deadline_inv_def abort_listener_def close_returned_def)

lemma shutdown_inv_at:
  assumes "shutdown_inv s" and "i < length (sd_servers s)" and "entry_inv s i v"
  shows "shutdown_inv (s\<lparr>sd_servers := (sd_servers s)[i := v]\<rparr>)"
  using assms by (auto simp: shutdown_inv_def entry_inv_def nth_list_update)

lemma shutdown_inv_entry: "shutdown_inv s \<Longrightarrow> i < length (sd_servers s) \<Longrightarrow> entry_inv s i (sd_servers s ! i)"
  by (simp add: shutdown_inv_def)

lemma shutdown_inv_init: "shutdown_init s \<Longrightarrow> shutdown_inv s"
proof -
  assume init: "shutdown_init s"
  have "entry_inv s i v" if v: "v \<in> set (sd_servers s)" for i v
  proof -
    obtain m where "listener_init m (st_listener v)" and "st_handle v \<noteq> Aborted"
      using init v by (auto simp: shutdown_init_def)
    moreover have "listener_inv (st_kind v) (st_max_streams v) m (st_listener v)"
      using calculation(1) by (simp add: listener_init_def listener_inv_def)
    ultimately show ?thesis
      using init
      by (auto simp: shutdown_init_def entry_inv_def server_inv_def phase_inv_def deadline_inv_def
          listener_init_def no_tasks_def)
  qed
  then show ?thesis using init by (simp add: shutdown_inv_def shutdown_init_def)
qed

lemma shutdown_act_inv:
  assumes inv: "shutdown_inv s" and step: "shutdown_act a s t"
  shows "shutdown_inv t"
  using step
proof cases
  case tick
  then show ?thesis
    using inv by (auto simp: shutdown_inv_def entry_inv_def deadline_inv_def)
next
  case (serve i v l)
  then show ?thesis
    using shutdown_inv_at [OF inv serve(3)] own_step_entry_inv [OF serve(5)] shutdown_inv_entry [OF inv serve(3)] by simp
next
  case (run_closes_group i v)
  then show ?thesis
    using shutdown_inv_at [OF inv] run_close_entry_inv [of s i v] shutdown_inv_entry [OF inv] by simp
next
  case (abort_group i v)
  then show ?thesis
    using shutdown_inv_at [OF inv] abort_entry_inv [of s i v] shutdown_inv_entry [OF inv] by simp
next
  case cancel_token
  then show ?thesis
    using inv server_inv_updates(1)
    by (auto simp: shutdown_inv_def entry_inv_def phase_inv_def deadline_inv_def cancel_listener_def)
next
  case take_deadline
  then show ?thesis
    using inv by (fastforce simp: shutdown_inv_def entry_inv_def phase_inv_def deadline_inv_def)
next
  case (app_closes_group A i)
  have d: "sd_deadline s \<le> sd_now s + shutdown_grace" using inv app_closes_group(3) by (simp add: shutdown_inv_def)
  have "entry_inv t j (sd_servers t ! j)" if "j < length (sd_servers t)" for j
  proof (cases "j = i")
    case True
    then show ?thesis
      using app_close_entry_inv [OF shutdown_inv_entry [OF inv] _ d app_closes_group(2)] app_closes_group by simp
  next
    case False
    then show ?thesis
      using shutdown_inv_entry [OF inv, of j] that app_closes_group
      by (auto simp: entry_inv_def phase_inv_def deadline_inv_def)
  qed
  then show ?thesis using d app_closes_group by (simp add: shutdown_inv_def)
next
  case (groups_closed A)
  then show ?thesis
    using inv by (fastforce simp: shutdown_inv_def entry_inv_def phase_inv_def deadline_inv_def)
next
  case (joined i)
  then show ?thesis
    using inv by (auto simp: shutdown_inv_def entry_inv_def phase_inv_def deadline_inv_def less_Suc_eq)
next
  case (handle_aborted i v)
  have "entry_inv t j (sd_servers t ! j)" if j: "j < length (sd_servers t)" for j
  proof (cases "j = i")
    case True
    then show ?thesis
      using shutdown_inv_entry [OF inv, of i] server_inv_updates(4) [of v] handle_aborted
      by (auto simp: entry_inv_def phase_inv_def deadline_inv_def close_returned_def)
  next
    case False
    then show ?thesis
      using shutdown_inv_entry [OF inv, of j] j handle_aborted
      by (auto simp: entry_inv_def phase_inv_def deadline_inv_def less_Suc_eq)
  qed
  then show ?thesis using inv handle_aborted by (simp add: shutdown_inv_def)
next
  case all_joined
  then show ?thesis
    using inv by (auto simp: shutdown_inv_def entry_inv_def phase_inv_def deadline_inv_def)
qed

lemma shutdown_step_inv: "shutdown_inv s \<Longrightarrow> shutdown_step s t \<Longrightarrow> shutdown_inv t"
  by (auto simp: shutdown_step_def intro: shutdown_act_inv)

interpretation shutdown: inductive_invariant shutdown_init shutdown_step shutdown_inv
  by unfold_locales (rule shutdown_inv_init, assumption, rule shutdown_step_inv)

subsection \<open>What is left when \<open>shutdown\<close> has returned\<close>

lemma shutdown_leaves:
  assumes "reachable shutdown_init shutdown_step s" and "sd_phase s = ShutdownDone" and "v \<in> set (sd_servers s)"
  shows "st_handle v \<noteq> Running"
    and "no_tasks (st_listener v) \<or> ln_closed (st_listener v) = Some ByRun \<and> st_handle v = Aborted
      \<and> sd_deadline s \<le> sd_now s \<and> st_deadline v \<le> sd_now s + shutdown_grace"
proof -
  obtain i where "i < length (sd_servers s)" and "v = sd_servers s ! i"
    using assms(3) by (metis in_set_conv_nth)
  then have inv: "server_inv v" "phase_inv ShutdownDone i v" "deadline_inv (sd_now s) ShutdownDone (sd_deadline s) v"
    using shutdown.reachable_inv [OF assms(1)] assms(2) by (auto simp: shutdown_inv_def entry_inv_def)
  then show up: "st_handle v \<noteq> Running" by (simp add: phase_inv_def)
  show "no_tasks (st_listener v) \<or> ln_closed (st_listener v) = Some ByRun \<and> st_handle v = Aborted
      \<and> sd_deadline s \<le> sd_now s \<and> st_deadline v \<le> sd_now s + shutdown_grace"
    using inv up
    by (cases "st_handle v") (auto simp: server_inv_def phase_inv_def deadline_inv_def close_returned_def)
qed

subsection \<open>\<open>shutdown\<close> returns once its deadline has passed\<close>

text \<open>
  What the application and the supervisors have left to do: for a group, to ask it to close, and to
  end its tasks if it is open or has any; then the handles to join.
\<close>

definition group_work :: "shutdown_phase \<Rightarrow> nat \<Rightarrow> server_task \<Rightarrow> nat" where
  "group_work p i v = (case p of ClosingGroups A \<Rightarrow> if i \<in> A then 0 else 1 | _ \<Rightarrow> 0)
     + (if ln_closed (st_listener v) \<noteq> None \<and> no_tasks (st_listener v) then 0 else 1)"

fun join_work :: "shutdown_phase \<Rightarrow> nat \<Rightarrow> nat" where
  "join_work (JoiningHandle k) n = n - k + 1"
| "join_work ShutdownDone n = 0"
| "join_work p n = n + 2"

definition shutdown_work :: "shutdown_sys \<Rightarrow> nat" where
  "shutdown_work s = (\<Sum>i < length (sd_servers s). group_work (sd_phase s) i (sd_servers s ! i))
     + join_work (sd_phase s) (length (sd_servers s))"

lemma group_work_le: "group_work p i v \<le> 2"
  by (simp add: group_work_def split: shutdown_phase.split)

lemma shutdown_work_le: "shutdown_work s \<le> 3 * length (sd_servers s) + 2"
proof -
  have "(\<Sum>i < length (sd_servers s). group_work (sd_phase s) i (sd_servers s ! i)) \<le> length (sd_servers s) * 2"
    using sum_mono [of "{..<length (sd_servers s)}" "\<lambda>i. group_work (sd_phase s) i (sd_servers s ! i)" "\<lambda>_. 2"]
    by (simp add: group_work_le)
  moreover have "join_work p n \<le> n + 2" for p n by (cases p) simp_all
  ultimately have "shutdown_work s \<le> length (sd_servers s) * 2 + (length (sd_servers s) + 2)"
    unfolding shutdown_work_def by (intro add_mono)
  then show ?thesis by simp
qed

text \<open>A change at one server.\<close>

lemma sum_group_work_at:
  assumes "i < length vs"
  shows "(\<Sum>j < length vs. group_work p j (vs[i := v] ! j)) + group_work p i (vs ! i)
    = (\<Sum>j < length vs. group_work p j (vs ! j)) + group_work p i v"
proof -
  have "(\<Sum>j < length vs. f j) = f i + (\<Sum>j \<in> {..<length vs} - {i}. f j)" for f :: "nat \<Rightarrow> nat"
    by (rule sum.remove) (use assms in simp_all)
  moreover have "(\<Sum>j \<in> {..<length vs} - {i}. group_work p j (vs[i := v] ! j))
      = (\<Sum>j \<in> {..<length vs} - {i}. group_work p j (vs ! j))"
    by (rule sum.cong) (simp_all add: nth_list_update)
  ultimately show ?thesis using assms by simp
qed

lemma shutdown_work_at:
  assumes "i < length (sd_servers s)"
  shows "shutdown_work (s\<lparr>sd_servers := (sd_servers s)[i := v]\<rparr>) + group_work (sd_phase s) i (sd_servers s ! i)
    = shutdown_work s + group_work (sd_phase s) i v"
  using sum_group_work_at [OF assms, of "sd_phase s" v] by (simp add: shutdown_work_def)

lemma own_step_work:
  assumes "own_step v l"
  shows "group_work p i (after_own_step v l) \<le> group_work p i v"
  using no_tasks_own_step [of "st_listener v"] own_step_keeps [OF assms] assms
  by (auto simp: group_work_def after_own_step_def own_step_def)

lemma close_listener_work: "group_work p i (close_listener who d v) \<le> group_work p i v"
  by (auto simp: group_work_def close_listener_def)

text \<open>No step of a server undoes what was done.\<close>

lemma asking_work:
  assumes "sd_phase s = ClosingGroups A" and "i < length (sd_servers s)" and "i \<notin> A"
  shows "shutdown_work (s\<lparr>sd_phase := ClosingGroups (insert i A), sd_servers := (sd_servers s)[i := v]\<rparr>)
      + group_work (ClosingGroups A) i (sd_servers s ! i)
    = shutdown_work s + group_work (ClosingGroups (insert i A)) i v"
proof -
  let ?n = "length (sd_servers s)"
  have "(\<Sum>j < ?n. f j) = f i + (\<Sum>j \<in> {..<?n} - {i}. f j)" for f :: "nat \<Rightarrow> nat"
    by (rule sum.remove) (use assms(2) in simp_all)
  moreover have "(\<Sum>j \<in> {..<?n} - {i}. group_work (ClosingGroups (insert i A)) j ((sd_servers s)[i := v] ! j))
      = (\<Sum>j \<in> {..<?n} - {i}. group_work (ClosingGroups A) j (sd_servers s ! j))"
    by (rule sum.cong) (auto simp: nth_list_update group_work_def)
  ultimately show ?thesis using assms(1,2) by (simp add: shutdown_work_def)
qed

lemma group_work_phase:
  "{..<n} \<subseteq> A \<Longrightarrow> i < n \<Longrightarrow> group_work (JoiningHandle k) i v = group_work (ClosingGroups A) i v"
  by (auto simp: group_work_def)

lemma server_act_work:
  assumes "shutdown_act a s t" and "a = Clock \<or> (\<exists>i. a = ServerOf i)"
  shows "shutdown_work t \<le> shutdown_work s"
  using assms(1)
proof cases
  case (serve i v l)
  then show ?thesis
    using shutdown_work_at [of i s "after_own_step v l"] own_step_work [of v l "sd_phase s" i] by simp
next
  case (run_closes_group i v)
  then show ?thesis
    using shutdown_work_at [of i s "close_listener ByRun (sd_now s + shutdown_grace) v"]
      close_listener_work [of "sd_phase s" i ByRun "sd_now s + shutdown_grace" v] by simp
qed (use assms(2) in \<open>simp_all add: shutdown_work_def\<close>)

text \<open>Every step of the application and of a supervisor does some of it.\<close>

lemma forced_act_work:
  assumes "shutdown_act a s t" and "a = Application \<or> (\<exists>i. a = SupervisorOf i)" and "has_deadline (sd_phase s)"
  shows "shutdown_work t < shutdown_work s"
  using assms(1)
proof cases
  case (abort_group i v)
  have "group_work (sd_phase s) i (abort_listener v) < group_work (sd_phase s) i v"
    using abort_group(5,6) by (simp add: group_work_def abort_listener_def)
  then show ?thesis using abort_group shutdown_work_at [of i s "abort_listener v"] by simp
next
  case (app_closes_group A i)
  let ?v = "close_listener ByApp (sd_deadline s) (sd_servers s ! i)"
  have "group_work (ClosingGroups (insert i A)) i ?v < group_work (ClosingGroups A) i ?v"
    using app_closes_group(5) by (simp add: group_work_def)
  also have "\<dots> \<le> group_work (ClosingGroups A) i (sd_servers s ! i)" by (rule close_listener_work)
  finally show ?thesis using asking_work [OF app_closes_group(3,4,5), of ?v] app_closes_group(2) by simp
next
  case (groups_closed A)
  have "(\<Sum>i < length (sd_servers s). group_work (JoiningHandle 0) i (sd_servers s ! i))
      = (\<Sum>i < length (sd_servers s). group_work (ClosingGroups A) i (sd_servers s ! i))"
    by (rule sum.cong) (use group_work_phase [OF groups_closed(4)] in simp_all)
  then show ?thesis using groups_closed by (simp add: shutdown_work_def)
next
  case (joined i)
  have "group_work (JoiningHandle (Suc i)) = group_work (JoiningHandle i)" by (simp add: fun_eq_iff group_work_def)
  then show ?thesis using joined by (simp add: shutdown_work_def)
next
  case (handle_aborted i v)
  have same: "group_work p j (u\<lparr>st_handle := h\<rparr>) = group_work p j u"
    "group_work (JoiningHandle (Suc i)) j u = group_work (JoiningHandle i) j u" for p j u h
    by (simp_all add: group_work_def)
  have "(\<Sum>j < length (sd_servers s). group_work (JoiningHandle (Suc i)) j ((sd_servers s)[i := v\<lparr>st_handle := Aborted\<rparr>] ! j))
      = (\<Sum>j < length (sd_servers s). group_work (JoiningHandle i) j (sd_servers s ! j))"
    by (rule sum.cong) (use handle_aborted(4,5) in \<open>auto simp: nth_list_update same\<close>)
  then show ?thesis using handle_aborted by (simp add: shutdown_work_def)
next
  case all_joined
  have "group_work ShutdownDone = group_work (JoiningHandle n)" for n by (simp add: fun_eq_iff group_work_def)
  then show ?thesis using all_joined by (simp add: shutdown_work_def)
qed (use assms(2,3) in simp_all)

text \<open>And after the deadline one of these steps is always possible, until \<open>shutdown\<close> has returned.\<close>

lemma forced_progress:
  assumes inv: "shutdown_inv s" and "has_deadline (sd_phase s)" and "sd_deadline s \<le> sd_now s"
    and "sd_phase s \<noteq> ShutdownDone"
  shows "\<exists>t. forced_step s t"
proof (cases "sd_phase s")
  case (ClosingGroups A)
  show ?thesis
  proof (cases "{..<length (sd_servers s)} \<subseteq> A")
    case False
    then obtain i where "i < length (sd_servers s)" "i \<notin> A" by auto
    from app_closes_group [OF ClosingGroups this] show ?thesis by (auto simp: forced_step_def)
  next
    case asked: True
    show ?thesis
    proof (cases "\<forall>v \<in> set (sd_servers s). close_returned v")
      case True
      from groups_closed [OF ClosingGroups asked this] show ?thesis by (auto simp: forced_step_def)
    next
      case False
      then obtain i where i: "i < length (sd_servers s)" and open_i: "\<not> close_returned (sd_servers s ! i)"
        by (auto simp: in_set_conv_nth)
      let ?v = "sd_servers s ! i"
      note entry = shutdown_inv_entry [OF inv i]
      have closed: "ln_closed (st_listener ?v) \<noteq> None"
        using entry ClosingGroups asked i by (auto simp: entry_inv_def phase_inv_def)
      then have "ln_closed (st_listener ?v) = Some ByApp" and tasks: "\<not> no_tasks (st_listener ?v)"
        using open_i by (auto simp: close_returned_def) (metis closer.exhaust)
      then have "st_deadline ?v \<le> sd_now s" using entry assms(3) by (simp add: entry_inv_def deadline_inv_def)
      from abort_group [OF i refl closed tasks this] show ?thesis by (auto simp: forced_step_def)
    qed
  qed
next
  case (JoiningHandle k)
  show ?thesis
  proof (cases "k < length (sd_servers s)")
    case True
    show ?thesis
    proof (cases "st_handle (sd_servers s ! k)")
      case Running
      from handle_aborted [OF JoiningHandle True refl Running assms(3)] show ?thesis by (auto simp: forced_step_def)
    next
      case Finished
      from joined [OF JoiningHandle True Finished] show ?thesis by (auto simp: forced_step_def)
    next
      case Aborted
      then show ?thesis
        using shutdown_inv_entry [OF inv True] JoiningHandle by (simp add: entry_inv_def phase_inv_def)
    qed
  next
    case False
    then have "sd_phase s = JoiningHandle (length (sd_servers s))"
      using inv JoiningHandle by (simp add: shutdown_inv_def)
    from all_joined [OF this] show ?thesis by (auto simp: forced_step_def)
  qed
qed (use assms(2,4) in simp_all)

lemma forced_step_work:
  "forced_step s t \<Longrightarrow> has_deadline (sd_phase s) \<Longrightarrow> shutdown_work t < shutdown_work s"
  using forced_act_work by (auto simp: forced_step_def)

lemma shutdown_step_work:
  assumes "shutdown_step s t" and "has_deadline (sd_phase s)"
  shows "shutdown_work t \<le> shutdown_work s"
proof -
  obtain a where a: "shutdown_act a s t" using assms(1) by (auto simp: shutdown_step_def)
  show ?thesis
    using server_act_work [OF a] forced_act_work [OF a _ assms(2)]
    by (cases a) (auto intro: less_imp_le)
qed

lemma forced_step_clock:
  assumes "forced_step s t" and "has_deadline (sd_phase s)"
  shows "has_deadline (sd_phase t)" and "sd_now t = sd_now s" and "sd_deadline t = sd_deadline s"
proof -
  obtain a where "shutdown_act a s t" and "a = Application \<or> (\<exists>i. a = SupervisorOf i)"
    using assms(1) by (auto simp: forced_step_def)
  then have "has_deadline (sd_phase t) \<and> sd_now t = sd_now s \<and> sd_deadline t = sd_deadline s"
    by cases (use assms(2) in auto)
  then show "has_deadline (sd_phase t)" "sd_now t = sd_now s" "sd_deadline t = sd_deadline s" by simp_all
qed

lemma shutdown_returns:
  assumes "shutdown_inv s" and "has_deadline (sd_phase s)" and "sd_deadline s \<le> sd_now s"
  shows "\<exists>t. forced_step\<^sup>*\<^sup>* s t \<and> sd_phase t = ShutdownDone \<and> sd_now t = sd_now s"
  using assms
proof (induction "shutdown_work s" arbitrary: s rule: less_induct)
  case less
  show ?case
  proof (cases "sd_phase s = ShutdownDone")
    case False
    obtain u where u: "forced_step s u" using forced_progress [OF less.prems False] by blast
    note clock = forced_step_clock [OF u less.prems(2)]
    from less.hyps [OF forced_step_work [OF u less.prems(2)] shutdown_step_inv [OF less.prems(1) forced_is_step [OF u]]]
    obtain t where "forced_step\<^sup>*\<^sup>* u t" "sd_phase t = ShutdownDone" "sd_now t = sd_now s"
      using clock less.prems(3) by auto
    with u show ?thesis by (meson converse_rtranclp_into_rtranclp)
  qed blast
qed

subsection \<open>A task that outlives \<open>shutdown\<close>\<close>

lemma clock_runs: "shutdown_step\<^sup>*\<^sup>* s (s\<lparr>sd_now := sd_now s + n\<rparr>)"
proof (induction n)
  case (Suc n)
  from rtranclp.rtrancl_into_rtrancl [OF Suc shutdown_stepI [OF tick]] show ?case by simp
qed simp

lemma serve_only:
  assumes "sd_servers s = [v]" and "loop_step (st_kind v) (st_max_streams v) (st_listener v) l"
    and "st_handle v = Running" and "ln_phase l \<noteq> Stopped"
  shows "shutdown_step s (s\<lparr>sd_servers := [v\<lparr>st_listener := l\<rparr>]\<rparr>)"
proof -
  have "own_step v l" using assms(2,3) unfolding own_step_def by simp
  moreover have "after_own_step v l = v\<lparr>st_listener := l\<rparr>" using assms(3,4) unfolding after_own_step_def by simp
  ultimately show ?thesis
    using shutdown_stepI [OF serve [of 0 s v l]] unfolding assms(1) by simp
qed

text \<open>A DoT server with one connection, the moment \<open>shutdown\<close> takes its deadline.\<close>

definition busy_dot :: server_task where
  "busy_dot = \<lparr>st_kind = DotReader, st_max_streams = 0,
     st_listener = \<lparr>ln_phase = Accepting, ln_permits = 0, ln_tasks = {#Handshaking 0#}, ln_streams = {#},
       ln_watchers = {#}, ln_next = 1, ln_cancelled = True, ln_closed = None, ln_backoff = backoff_new\<rparr>,
     st_deadline = 0, st_handle = Running\<rparr>"

definition busy_shutdown :: shutdown_sys where
  "busy_shutdown = \<lparr>sd_now = 0, sd_phase = ClosingGroups {}, sd_deadline = shutdown_grace, sd_servers = [busy_dot]\<rparr>"

lemma busy_shutdown_reachable: "reachable shutdown_init shutdown_step busy_shutdown"
proof -
  let ?l0 = "\<lparr>ln_phase = Accepting, ln_permits = 1, ln_tasks = {#}, ln_streams = {#}, ln_watchers = {#},
    ln_next = 0, ln_cancelled = False, ln_closed = None, ln_backoff = backoff_new\<rparr>"
  let ?v = "\<lambda>l. \<lparr>st_kind = DotReader, st_max_streams = 0, st_listener = l, st_deadline = 0, st_handle = Running\<rparr>"
  let ?s = "\<lambda>l. \<lparr>sd_now = 0, sd_phase = NotRequested, sd_deadline = 0, sd_servers = [?v l]\<rparr>"
  let ?l1 = "?l0\<lparr>ln_phase := WaitingPermit 0, ln_next := 1\<rparr>"
  let ?l2 = "?l1\<lparr>ln_phase := Accepting, ln_permits := 0, ln_tasks := {#Handshaking 0#}\<rparr>"
  have "reachable shutdown_init shutdown_step (?s ?l0)"
    by (rule reachable_init) (auto simp: shutdown_init_def listener_init_def)
  moreover have "shutdown_step (?s ?l0) (?s ?l1)"
    using serve_only [of "?s ?l0" "?v ?l0" ?l1] loop_step.accept [of ?l0 DotReader 0] by simp
  moreover have "shutdown_step (?s ?l1) (?s ?l2)"
    using serve_only [of "?s ?l1" "?v ?l1" ?l2] loop_step.permit [of ?l1 0 0 DotReader 0]
    by (simp add: first_phase_def)
  ultimately have served: "reachable shutdown_init shutdown_step (?s ?l2)"
    by (meson reachable_step)
  show ?thesis
    using reachable_step [OF reachable_step [OF served shutdown_stepI [OF cancel_token]] shutdown_stepI [OF take_deadline]]
    by (simp add: cancel_listener_def busy_shutdown_def busy_dot_def)
qed

text \<open>The same server when \<open>shutdown\<close> has returned: it closed its group a millisecond later.\<close>

definition outlived_shutdown :: shutdown_sys where
  "outlived_shutdown = \<lparr>sd_now = shutdown_grace, sd_phase = ShutdownDone, sd_deadline = shutdown_grace,
     sd_servers = [busy_dot\<lparr>st_listener := (st_listener busy_dot)\<lparr>ln_phase := Draining, ln_closed := Some ByRun\<rparr>,
       st_deadline := Suc shutdown_grace, st_handle := Aborted\<rparr>]\<rparr>"

lemma outlived_shutdown_reachable: "reachable shutdown_init shutdown_step outlived_shutdown"
proof -
  let ?l1 = "(st_listener busy_dot)\<lparr>ln_phase := Draining\<rparr>"
  let ?v1 = "busy_dot\<lparr>st_listener := ?l1\<rparr>"
  let ?v2 = "busy_dot\<lparr>st_listener := ?l1\<lparr>ln_closed := Some ByRun\<rparr>, st_deadline := Suc shutdown_grace\<rparr>"
  let ?s = "\<lambda>now p v. \<lparr>sd_now = now, sd_phase = p, sd_deadline = shutdown_grace, sd_servers = [v]\<rparr>"
  have close: "close_listener ByRun (Suc shutdown_grace) ?v1 = ?v2" "close_listener ByApp shutdown_grace ?v2 = ?v2"
    by (simp_all add: close_listener_def busy_dot_def)
  have "reachable shutdown_init shutdown_step (?s 1 (ClosingGroups {}) busy_dot)"
    using reachable_step [OF busy_shutdown_reachable shutdown_stepI [OF tick]] by (simp add: busy_shutdown_def)
  moreover have "shutdown_step (?s 1 (ClosingGroups {}) busy_dot) (?s 1 (ClosingGroups {}) ?v1)"
    using serve_only [of "?s 1 (ClosingGroups {}) busy_dot" busy_dot ?l1]
      loop_step.leave [of "st_listener busy_dot" 0 DotReader 0]
    by (simp add: busy_dot_def)
  moreover have "shutdown_step (?s 1 (ClosingGroups {}) ?v1) (?s 1 (ClosingGroups {}) ?v2)"
    using shutdown_stepI [OF run_closes_group [of 0 "?s 1 (ClosingGroups {}) ?v1" ?v1]]
    by (simp add: close) (simp add: busy_dot_def)
  moreover have "shutdown_step (?s 1 (ClosingGroups {}) ?v2) (?s 1 (ClosingGroups {0}) ?v2)"
    using shutdown_stepI [OF app_closes_group [of "?s 1 (ClosingGroups {}) ?v2" "{}" 0]] by (simp add: close)
  moreover have "shutdown_step (?s 1 (ClosingGroups {0}) ?v2) (?s 1 (JoiningHandle 0) ?v2)"
    using shutdown_stepI [OF groups_closed [of "?s 1 (ClosingGroups {0}) ?v2" "{0}"]]
    by (simp add: close_returned_def lessThan_Suc)
  ultimately have "reachable shutdown_init shutdown_step (?s 1 (JoiningHandle 0) ?v2)"
    by (meson reachable_step)
  from reachable_steps [OF clock_runs [of _ "shutdown_grace - 1"] this]
  have "reachable shutdown_init shutdown_step (?s shutdown_grace (JoiningHandle 0) ?v2)"
    by (simp add: shutdown_grace_def)
  moreover have "shutdown_step (?s shutdown_grace (JoiningHandle 0) ?v2)
      (?s shutdown_grace (JoiningHandle 1) (?v2\<lparr>st_handle := Aborted\<rparr>))"
    using shutdown_stepI [OF handle_aborted [of "?s shutdown_grace (JoiningHandle 0) ?v2" 0 ?v2]]
    by (simp add: busy_dot_def)
  moreover have "shutdown_step (?s shutdown_grace (JoiningHandle 1) (?v2\<lparr>st_handle := Aborted\<rparr>)) outlived_shutdown"
    using shutdown_stepI [OF all_joined [of "?s shutdown_grace (JoiningHandle 1) (?v2\<lparr>st_handle := Aborted\<rparr>)"]]
    by (simp add: outlived_shutdown_def busy_dot_def)
  ultimately show ?thesis by (meson reachable_step)
qed

end
