(* ===== verification/Servers.thy ===== *)
theory Servers
  imports Tasks Metrics Quic_Pool Http_Pool Rewriter Tls_Utils Server_Start Shutdown
begin

section \<open>What the application builds (constructors in \<open>src/app.rs\<close> and \<open>src/readers/*.rs\<close>)\<close>

text \<open>
  \<open>App::new\<close> and the constructors of the five servers: what each server owns (its session
  pool, its backoff counter, its task group) and what it shares with the application. The
  counters and the readiness flag are shared, so a server holds a reference to them, whose type
  is left open; configuration, rewriter and root store are never changed.
\<close>

record app =
  app_config :: app_config
  app_rewriter :: base_sni_rewriter
  app_metrics :: metrics
  app_ready :: bool
  app_shutdown :: bool
  app_failed :: bool
  app_handles :: nat
  app_task_groups :: "task_group list"

definition app_new :: "app_config \<Rightarrow> app" where
  "app_new config = \<lparr>app_config = config, app_rewriter = create_rewriter (cfg_rewrite config),
     app_metrics = metrics_new, app_ready = False, app_shutdown = False, app_failed = False,
     app_handles = 0, app_task_groups = []\<rparr>"

record ('m, 'anchor) dot_server =
  dot_config :: app_config
  dot_rewriter :: base_sni_rewriter
  dot_backoff :: backoff_counter
  dot_metrics :: 'm
  dot_tasks :: task_group
  dot_root_store :: "'anchor list"

record ('m, 'anchor) doh_server =
  doh_config :: app_config
  doh_rewriter :: base_sni_rewriter
  doh_pool :: "'anchor connection_pool"
  doh_backoff :: backoff_counter
  doh_metrics :: 'm
  doh_tasks :: task_group

text \<open>The session pools keep the root store beside their entries and slots.\<close>

record ('m, 'anchor, 'k) quic_server =
  qs_config :: app_config
  qs_rewriter :: base_sni_rewriter
  qs_metrics :: 'm
  qs_pool :: "'k pool"
  qs_root_store :: "'anchor list"
  qs_tasks :: task_group

record ('m, 'r) healthcheck_server =
  hs_config :: app_config
  hs_metrics :: 'm
  hs_ready :: 'r
  hs_tasks :: task_group

definition dot_with_root_store ::
    "app_config \<Rightarrow> base_sni_rewriter \<Rightarrow> 'm \<Rightarrow> 'anchor list \<Rightarrow> ('m, 'anchor) dot_server" where
  "dot_with_root_store config rewriter m roots =
     \<lparr>dot_config = config, dot_rewriter = rewriter, dot_backoff = backoff_new, dot_metrics = m,
      dot_tasks = task_group_default, dot_root_store = roots\<rparr>"

text \<open>The HTTP client pool starts from the platform's roots and then gets those of the application.\<close>

definition create_connection_pool_with_limit_and_root_store ::
    "'anchor list \<Rightarrow> nat \<Rightarrow> 'anchor list \<Rightarrow> 'anchor connection_pool" where
  "create_connection_pool_with_limit_and_root_store default_roots max_clients roots =
     with_max_clients_and_root_store default_roots max_clients roots"

definition doh_with_root_store ::
    "'anchor list \<Rightarrow> app_config \<Rightarrow> base_sni_rewriter \<Rightarrow> 'm \<Rightarrow> 'anchor list \<Rightarrow> ('m, 'anchor) doh_server" where
  "doh_with_root_store default_roots config rewriter m roots =
     \<lparr>doh_config = config, doh_rewriter = rewriter,
      doh_pool = create_connection_pool_with_limit_and_root_store default_roots
        (max_upstream_pool_entries (cfg_limits config)) roots,
      doh_backoff = backoff_new, doh_metrics = m, doh_tasks = task_group_default\<rparr>"

definition doq_with_root_store ::
    "app_config \<Rightarrow> base_sni_rewriter \<Rightarrow> 'm \<Rightarrow> 'anchor list \<Rightarrow> ('m, 'anchor, quic_key) quic_server" where
  "doq_with_root_store config rewriter m roots =
     \<lparr>qs_config = config, qs_rewriter = rewriter, qs_metrics = m,
      qs_pool = pool_with_max (max_upstream_pool_entries (cfg_limits config)),
      qs_root_store = roots, qs_tasks = task_group_default\<rparr>"

definition doh3_with_root_store ::
    "app_config \<Rightarrow> base_sni_rewriter \<Rightarrow> 'm \<Rightarrow> 'anchor list \<Rightarrow> ('m, 'anchor, h3_key) quic_server" where
  "doh3_with_root_store config rewriter m roots =
     \<lparr>qs_config = config, qs_rewriter = rewriter, qs_metrics = m,
      qs_pool = pool_with_max (max_upstream_pool_entries (cfg_limits config)),
      qs_root_store = roots, qs_tasks = task_group_default\<rparr>"

definition with_metrics_and_readiness :: "app_config \<Rightarrow> 'm \<Rightarrow> 'r \<Rightarrow> ('m, 'r) healthcheck_server" where
  "with_metrics_and_readiness config m ready =
     \<lparr>hs_config = config, hs_metrics = m, hs_ready = ready, hs_tasks = task_group_default\<rparr>"

text \<open>The standalone constructors load the roots themselves; \<open>None\<close> is their panic.\<close>

definition standalone ::
    "('cert, 'anchor, 'key, 'skey) tls_lib \<Rightarrow> app_config \<Rightarrow> ('anchor list \<Rightarrow> 'server) \<Rightarrow> 'server option" where
  "standalone lib config build =
     (case load_upstream_root_store lib (upstream_ca_file (cfg_tls config)) of
        Inl _ \<Rightarrow> None
      | Inr roots \<Rightarrow> Some (build roots))"

definition dot_new where "dot_new lib config rewriter m = standalone lib config (dot_with_root_store config rewriter m)"

definition doh_new where
  "doh_new lib default_roots config rewriter m =
     standalone lib config (doh_with_root_store default_roots config rewriter m)"

definition doq_new where "doq_new lib config rewriter m = standalone lib config (doq_with_root_store config rewriter m)"

definition doh3_new where "doh3_new lib config rewriter m = standalone lib config (doh3_with_root_store config rewriter m)"

subsection \<open>The listeners of a started application\<close>

text \<open>
  A server whose set-up is over enters its accept loop with \<open>max_connections_per_listener\<close>
  permits; the two QUIC servers give each connection \<open>max_inflight_requests_per_connection\<close>
  more. The kinds are in the order in which \<open>start\<close> spawns the servers.
\<close>

definition accept_loop_start :: "app_config \<Rightarrow> listener_sys" where
  "accept_loop_start c = \<lparr>ln_phase = Accepting, ln_permits = max_connections_per_listener (cfg_limits c),
     ln_tasks = {#}, ln_streams = {#}, ln_watchers = {#}, ln_next = 0, ln_cancelled = False, ln_closed = None,
     ln_backoff = backoff_new\<rparr>"

definition enabled_kinds :: "servers_config \<Rightarrow> server_kind list" where
  "enabled_kinds s =
     (if hc_enabled (srv_healthcheck s) then [HealthReader] else [])
     @ (if sp_enabled (srv_dot s) then [DotReader] else [])
     @ (if sp_enabled (srv_doh s) then [DohReader] else [])
     @ (if sp_enabled (srv_doq s) then [DoqReader] else [])
     @ (if sp_enabled (srv_doh3 s) then [Doh3Reader] else [])"

definition started_server :: "app_config \<Rightarrow> server_kind \<Rightarrow> server_task" where
  "started_server c r = \<lparr>st_kind = r, st_max_streams = max_inflight_requests_per_connection (cfg_limits c),
     st_listener = accept_loop_start c, st_deadline = 0, st_handle = Running\<rparr>"

definition app_started :: "app_config \<Rightarrow> shutdown_sys \<Rightarrow> bool" where
  "app_started c s \<longleftrightarrow> s = \<lparr>sd_now = 0, sd_phase = NotRequested, sd_deadline = 0,
     sd_servers = map (started_server c) (enabled_kinds (cfg_servers c))\<rparr>"

text \<open>One listener for every server \<open>start\<close> spawns and reads a report of.\<close>

lemma length_enabled_kinds: "length (enabled_kinds (cfg_servers c)) = length (spawned_servers env net lib c)"
  by (simp add: enabled_kinds_def spawned_servers_def spawn_server_def)

lemma app_started_init: "app_started c s \<Longrightarrow> shutdown_init s"
  by (auto simp: app_started_def shutdown_init_def started_server_def accept_loop_start_def listener_init_def)

subsection \<open>The configured limits\<close>

definition configured :: "app_config \<Rightarrow> server_task \<Rightarrow> bool" where
  "configured c v \<longleftrightarrow> st_max_streams v = max_inflight_requests_per_connection (cfg_limits c)
     \<and> listener_inv (st_kind v) (max_inflight_requests_per_connection (cfg_limits c))
         (max_connections_per_listener (cfg_limits c)) (st_listener v)"

definition application_inv :: "app_config \<Rightarrow> shutdown_sys \<Rightarrow> bool" where
  "application_inv c s \<longleftrightarrow> map st_kind (sd_servers s) = enabled_kinds (cfg_servers c)
     \<and> (\<forall>v \<in> set (sd_servers s). configured c v)"

lemma application_inv_at:
  assumes "application_inv c s" and "i < length (sd_servers s)"
    and "configured c (sd_servers s ! i) \<Longrightarrow> configured c v \<and> st_kind v = st_kind (sd_servers s ! i)"
  shows "application_inv c (s\<lparr>sd_servers := (sd_servers s)[i := v]\<rparr>)"
proof -
  have "configured c (sd_servers s ! i)" using assms(1,2) by (simp add: application_inv_def)
  then have v: "configured c v" "st_kind v = st_kind (sd_servers s ! i)" using assms(3) by blast+
  have "map st_kind ((sd_servers s)[i := v]) = map st_kind (sd_servers s)"
    using v(2) assms(2) by (simp add: map_update list_update_same_conv)
  moreover have "\<forall>u \<in> set ((sd_servers s)[i := v]). configured c u"
    using v(1) assms(1) set_update_subset_insert [of "sd_servers s" i v] by (auto simp: application_inv_def)
  ultimately show ?thesis using assms(1) by (simp add: application_inv_def)
qed

lemma configured_updates:
  assumes "configured c v"
  shows "own_step v l \<Longrightarrow> configured c (after_own_step v l) \<and> st_kind (after_own_step v l) = st_kind v"
    and "configured c (close_listener who d v) \<and> st_kind (close_listener who d v) = st_kind v"
    and "ln_closed (st_listener v) \<noteq> None \<Longrightarrow> configured c (abort_listener v) \<and> st_kind (abort_listener v) = st_kind v"
    and "configured c (cancel_listener v) \<and> st_kind (cancel_listener v) = st_kind v"
    and "configured c (v\<lparr>st_handle := h\<rparr>)"
  using assms
  by (auto simp: configured_def own_step_def after_own_step_def close_listener_def abort_listener_def
      cancel_listener_def intro: loop_step_inv listener_inv_updates)

lemma application_inv_cong:
  "sd_servers t = sd_servers s \<Longrightarrow> application_inv c t = application_inv c s"
  by (simp add: application_inv_def)

lemma application_step_inv:
  assumes inv: "application_inv c s" and step: "shutdown_step s t"
  shows "application_inv c t"
proof -
  obtain a where "shutdown_act a s t" using step by (auto simp: shutdown_step_def)
  then show ?thesis
  proof cases
    case (serve i v l)
    then show ?thesis using application_inv_at [OF inv serve(3)] configured_updates(1) by simp
  next
    case (run_closes_group i v)
    then show ?thesis using application_inv_at [OF inv run_closes_group(3)] configured_updates(2) by simp
  next
    case (abort_group i v)
    then show ?thesis using application_inv_at [OF inv abort_group(3)] configured_updates(3) by simp
  next
    case cancel_token
    have "st_kind \<circ> cancel_listener = st_kind"
      by (simp add: fun_eq_iff cancel_listener_def)
    then show ?thesis
      using inv cancel_token configured_updates(4) by (auto simp: application_inv_def)
  next
    case (app_closes_group A i)
    have "application_inv c (s\<lparr>sd_servers := (sd_servers s)[i := close_listener ByApp (sd_deadline s) (sd_servers s ! i)]\<rparr>)"
      by (rule application_inv_at [OF inv app_closes_group(4)]) (rule configured_updates(2))
    then show ?thesis unfolding app_closes_group(2) application_inv_def by simp
  next
    case (handle_aborted i v)
    have "application_inv c (s\<lparr>sd_servers := (sd_servers s)[i := v\<lparr>st_handle := Aborted\<rparr>]\<rparr>)"
      by (rule application_inv_at [OF inv handle_aborted(4)]) (simp add: handle_aborted(5) configured_updates(5))
    then show ?thesis unfolding handle_aborted(2) application_inv_def by simp
  qed (use inv in \<open>simp_all add: application_inv_def\<close>)
qed

interpretation application: inductive_invariant "app_started c" shutdown_step "application_inv c" for c
proof unfold_locales
  fix s
  assume "app_started c s"
  moreover have "listener_inv r k (max_connections_per_listener (cfg_limits c)) (accept_loop_start c)" for r k
    by (simp add: listener_inv_def accept_loop_start_def)
  ultimately show "application_inv c s"
    by (auto simp: app_started_def application_inv_def started_server_def configured_def comp_def)
qed (rule application_step_inv)

lemma reachable_from_started:
  "reachable (app_started c) shutdown_step s \<Longrightarrow> reachable shutdown_init shutdown_step s"
  by (induction rule: reachable.induct) (auto intro: reachable_init reachable_step app_started_init)

text \<open>All servers together.\<close>

lemma sum_list_le_mult: "(\<And>x. x \<in> set xs \<Longrightarrow> f x \<le> (n :: nat)) \<Longrightarrow> (\<Sum>x\<leftarrow>xs. f x) \<le> length xs * n"
  by (induction xs) (auto intro: add_mono)

lemma application_limits:
  assumes "reachable (app_started c) shutdown_step s"
  shows "(\<Sum>v\<leftarrow>sd_servers s. size (ln_tasks (st_listener v)))
      \<le> length (enabled_kinds (cfg_servers c)) * max_connections_per_listener (cfg_limits c)"
    and "v \<in> set (sd_servers s)
      \<Longrightarrow> count (ln_streams (st_listener v)) conn \<le> max_inflight_requests_per_connection (cfg_limits c)"
proof -
  have inv: "application_inv c s" by (rule application.reachable_inv [OF assms])
  then have "length (sd_servers s) = length (enabled_kinds (cfg_servers c))"
    unfolding application_inv_def by (metis length_map)
  moreover have "size (ln_tasks (st_listener v)) \<le> max_connections_per_listener (cfg_limits c)"
    if "v \<in> set (sd_servers s)" for v
  proof -
    have "ln_permits (st_listener v) + size (ln_tasks (st_listener v)) = max_connections_per_listener (cfg_limits c)"
      using inv that by (simp add: application_inv_def configured_def listener_inv_def)
    then show ?thesis by simp
  qed
  ultimately show "(\<Sum>v\<leftarrow>sd_servers s. size (ln_tasks (st_listener v)))
      \<le> length (enabled_kinds (cfg_servers c)) * max_connections_per_listener (cfg_limits c)"
    using sum_list_le_mult [of "sd_servers s" "\<lambda>v. size (ln_tasks (st_listener v))"] by simp
  show "v \<in> set (sd_servers s)
      \<Longrightarrow> count (ln_streams (st_listener v)) conn \<le> max_inflight_requests_per_connection (cfg_limits c)"
    using inv by (simp add: application_inv_def configured_def listener_inv_def)
qed

end
