(* ===== verification/Process.thy ===== *)
theory Process
  imports Logging Servers
begin

section \<open>The process (\<open>src/main.rs\<close>, \<open>src/server.rs\<close>)\<close>

text \<open>
  \<open>main\<close> as the sequence of its steps, each with the context it adds to an error. What happens
  outside the crate is given: whether the cryptographic provider installs, the files and
  certificates as they are when the configuration is validated (\<open>env\<close>, \<open>lib\<close>), when the
  application checks them again (\<open>env'\<close>, \<open>lib'\<close>) and when the servers load them (\<open>lib''\<close>), the
  sockets, and how waiting for the interrupt signal ends.
\<close>

type_synonym error_chain = "string list"

text \<open>\<open>Context::context\<close>.\<close>

definition with_context :: "string \<Rightarrow> ('e \<Rightarrow> string) \<Rightarrow> 'e + 'a \<Rightarrow> error_chain + 'a" where
  "with_context context_text show r = map_err (\<lambda>e. [context_text, show e]) r"

datatype process_result = Exits "error_chain + unit" | Panics

record 'f process_end =
  pe_result :: process_result
  pe_layers :: "'f log_layer list option"   \<comment> \<open>the subscriber, once it is installed\<close>
  pe_started :: bool                        \<comment> \<open>\<open>start\<close> has returned success\<close>
  pe_shut_down :: bool                      \<comment> \<open>\<open>shutdown\<close> has run, in \<open>start\<close> or in \<open>wait_for_shutdown\<close>\<close>

definition ends_before_start :: "process_result \<Rightarrow> 'f process_end" where
  "ends_before_start r = \<lparr>pe_result = r, pe_layers = None, pe_started = False, pe_shut_down = False\<rparr>"

text \<open>Up to the installed logging.\<close>

definition load_and_validate ::
    "string option \<Rightarrow> anyhow_error + app_config \<Rightarrow> 'ip validation_env \<Rightarrow> ('cert, 'anchor, 'key, 'skey) tls_lib
     \<Rightarrow> error_chain + app_config" where
  "load_and_validate provider_error loaded env lib =
     and_then (case provider_error of
         None \<Rightarrow> Inr ()
       | Some e \<Rightarrow> Inl [''Failed to install default crypto provider: '' @ e]) (\<lambda>_.
     and_then (with_context ''Failed to load required config.toml'' id loaded) (\<lambda>config.
     and_then (with_context ''Configuration validation failed'' id (validate env lib config)) (\<lambda>_.
     Inr config)))"

definition process_main ::
    "string option \<Rightarrow> anyhow_error + app_config \<Rightarrow> 'ip validation_env \<Rightarrow> ('cert, 'anchor, 'key, 'skey) tls_lib
     \<Rightarrow> 'f log_lib \<Rightarrow> string option \<Rightarrow> 'ip validation_env \<Rightarrow> ('ip, 'sock) net_lib
     \<Rightarrow> ('cert, 'anchor, 'key, 'skey) tls_lib \<Rightarrow> ('cert, 'anchor, 'key, 'skey) tls_lib
     \<Rightarrow> string + unit \<Rightarrow> 'f process_end" where
  "process_main provider_error loaded env lib llib rust_log env' net lib' lib'' interrupt =
     (case load_and_validate provider_error loaded env lib of
        Inl e \<Rightarrow> ends_before_start (Exits (Inl e))
      | Inr config \<Rightarrow>
         (case init_logging llib rust_log (cfg_logging config) of
            None \<Rightarrow> ends_before_start Panics
          | Some (Inl e) \<Rightarrow> ends_before_start (Exits (Inl [''Failed to initialize logging system'', e]))
          | Some (Inr (guard, layers)) \<Rightarrow>
             (case app_start env' net lib' lib'' config of
                (Inl e, shut_down) \<Rightarrow>
                  \<lparr>pe_result = Exits (Inl [''Failed to start DNS Proxy Server'', show_error e]),
                   pe_layers = Some layers, pe_started = False, pe_shut_down = shut_down\<rparr>
              | (Inr _, _) \<Rightarrow>
                 (case with_context ''Failed to listen for shutdown signal'' id interrupt of
                    Inl e \<Rightarrow> \<lparr>pe_result = Exits (Inl e), pe_layers = Some layers, pe_started = True,
                              pe_shut_down = False\<rparr>
                  | Inr _ \<Rightarrow> \<lparr>pe_result = Exits (Inr ()), pe_layers = Some layers, pe_started = True,
                              pe_shut_down = True\<rparr>))))"

lemma with_context_Inr_iff [simp]: "with_context t sh r = Inr a \<longleftrightarrow> r = Inr a"
  by (cases r) (simp_all add: with_context_def map_err_def)

lemma with_context_cases:
  "with_context t sh (Inl e) = Inl [t, sh e]" "with_context t sh (Inr a) = Inr a"
  by (simp_all add: with_context_def map_err_def)

lemma validate_Inr_iff:
  "validate env lib c = Inr () \<longleftrightarrow>
     config_ok env c \<and> (\<exists>roots. load_upstream_root_store lib (upstream_ca_file (cfg_tls c)) = Inr roots)"
  by (auto simp: validate_def validate_and_load_upstream_roots_def validate_structure_iff res_simps)

lemma load_and_validate_Inr_iff:
  "load_and_validate provider_error loaded env lib = Inr c \<longleftrightarrow>
     provider_error = None \<and> loaded = Inr c \<and> validate env lib c = Inr ()"
  by (auto simp: load_and_validate_def res_simps split: option.splits)

lemma load_and_validate_cases:
  obtains (failed) e where "load_and_validate provider_error loaded env lib = Inl e"
      "hd e \<notin> {''Failed to initialize logging system'', ''Failed to start DNS Proxy Server'', ''Failed to listen for shutdown signal''}"
      "\<nexists>c. provider_error = None \<and> loaded = Inr c \<and> validate env lib c = Inr ()"
    | (loaded) c where "load_and_validate provider_error loaded env lib = Inr c"
      "provider_error = None" "loaded = Inr c" "validate env lib c = Inr ()"
proof (cases "load_and_validate provider_error loaded env lib")
  case (Inl e)
  have "\<nexists>c. load_and_validate provider_error loaded env lib = Inr c" using Inl by simp
  then have "\<nexists>c. provider_error = None \<and> loaded = Inr c \<and> validate env lib c = Inr ()"
    by (simp add: load_and_validate_Inr_iff)
  moreover have "hd e \<notin> {''Failed to initialize logging system'', ''Failed to start DNS Proxy Server'', ''Failed to listen for shutdown signal''}"
    using Inl by (auto simp: load_and_validate_def with_context_def res_simps split: option.splits)
  ultimately show thesis using failed [OF Inl] by blast
next
  case (Inr c)
  then show thesis using loaded by (simp add: load_and_validate_Inr_iff)
qed

text \<open>How the process ends once the configuration is loaded, one way after the other.\<close>

lemma process_main_loaded:
  assumes "load_and_validate provider_error loaded env lib = Inr c"
    and "p = process_main provider_error loaded env lib llib rust_log env' net lib' lib'' interrupt"
  shows "init_logging llib rust_log (cfg_logging c) = None \<Longrightarrow> p = ends_before_start Panics"
    and "init_logging llib rust_log (cfg_logging c) = Some (Inl e)
      \<Longrightarrow> p = ends_before_start (Exits (Inl [''Failed to initialize logging system'', e]))"
    and "init_logging llib rust_log (cfg_logging c) = Some (Inr (guard, layers))
      \<Longrightarrow> start_servers env' net lib' lib'' c = Inl d
      \<Longrightarrow> p = \<lparr>pe_result = Exits (Inl [''Failed to start DNS Proxy Server'', show_error d]), pe_layers = Some layers,
             pe_started = False, pe_shut_down = (\<exists>names. prepare_start env' lib' c = Inr names)\<rparr>"
    and "init_logging llib rust_log (cfg_logging c) = Some (Inr (guard, layers))
      \<Longrightarrow> start_servers env' net lib' lib'' c = Inr () \<Longrightarrow> interrupt = Inl m
      \<Longrightarrow> p = \<lparr>pe_result = Exits (Inl [''Failed to listen for shutdown signal'', m]), pe_layers = Some layers,
             pe_started = True, pe_shut_down = False\<rparr>"
    and "init_logging llib rust_log (cfg_logging c) = Some (Inr (guard, layers))
      \<Longrightarrow> start_servers env' net lib' lib'' c = Inr () \<Longrightarrow> interrupt = Inr ()
      \<Longrightarrow> p = \<lparr>pe_result = Exits (Inr ()), pe_layers = Some layers, pe_started = True, pe_shut_down = True\<rparr>"
proof -
  note run = assms(2) process_main_def assms(1) with_context_cases
  show "init_logging llib rust_log (cfg_logging c) = None \<Longrightarrow> p = ends_before_start Panics"
    and "init_logging llib rust_log (cfg_logging c) = Some (Inl e)
      \<Longrightarrow> p = ends_before_start (Exits (Inl [''Failed to initialize logging system'', e]))"
    by (simp_all only: run sum.case option.case)
  obtain r shut where start: "app_start env' net lib' lib'' c = (r, shut)" by fastforce
  then have r: "start_servers env' net lib' lib'' c = r"
    and shut: "shut \<longleftrightarrow> (\<exists>names. prepare_start env' lib' c = Inr names) \<and> r \<noteq> Inr ()"
    using app_start_shut_down [of env' net lib' lib'' c] by (simp_all add: start_servers_def)
  assume log: "init_logging llib rust_log (cfg_logging c) = Some (Inr (guard, layers))"
  show "start_servers env' net lib' lib'' c = Inl d
      \<Longrightarrow> p = \<lparr>pe_result = Exits (Inl [''Failed to start DNS Proxy Server'', show_error d]), pe_layers = Some layers,
             pe_started = False, pe_shut_down = (\<exists>names. prepare_start env' lib' c = Inr names)\<rparr>"
    using start r shut by (simp add: run log)
  show "start_servers env' net lib' lib'' c = Inr () \<Longrightarrow> interrupt = Inl m
      \<Longrightarrow> p = \<lparr>pe_result = Exits (Inl [''Failed to listen for shutdown signal'', m]), pe_layers = Some layers,
             pe_started = True, pe_shut_down = False\<rparr>"
    using start r by (simp add: run log)
  show "start_servers env' net lib' lib'' c = Inr () \<Longrightarrow> interrupt = Inr ()
      \<Longrightarrow> p = \<lparr>pe_result = Exits (Inr ()), pe_layers = Some layers, pe_started = True, pe_shut_down = True\<rparr>"
    using start r by (simp add: run log)
qed

lemma process_main_load_failed:
  "load_and_validate provider_error loaded env lib = Inl e \<Longrightarrow>
     process_main provider_error loaded env lib llib rust_log env' net lib' lib'' interrupt
       = ends_before_start (Exits (Inl e))"
  by (simp only: process_main_def sum.case)

text \<open>The six ways the process can end.\<close>

lemma process_main_cases:
  assumes p: "p = process_main provider_error loaded env lib llib rust_log env' net lib' lib'' interrupt"
  obtains (load) e where "p = ends_before_start (Exits (Inl e))"
      "hd e \<notin> {''Failed to initialize logging system'', ''Failed to start DNS Proxy Server'', ''Failed to listen for shutdown signal''}"
      "\<nexists>c. provider_error = None \<and> loaded = Inr c \<and> validate env lib c = Inr ()"
    | (log_panic) c where "provider_error = None" "loaded = Inr c" "validate env lib c = Inr ()"
      "init_logging llib rust_log (cfg_logging c) = None" "p = ends_before_start Panics"
    | (log_error) c e where "provider_error = None" "loaded = Inr c" "validate env lib c = Inr ()"
      "init_logging llib rust_log (cfg_logging c) = Some (Inl e)"
      "p = ends_before_start (Exits (Inl [''Failed to initialize logging system'', e]))"
    | (start_error) c r d where "provider_error = None" "loaded = Inr c" "validate env lib c = Inr ()"
      "init_logging llib rust_log (cfg_logging c) = Some (Inr r)" "start_servers env' net lib' lib'' c = Inl d"
      "p = \<lparr>pe_result = Exits (Inl [''Failed to start DNS Proxy Server'', show_error d]), pe_layers = Some (snd r),
             pe_started = False, pe_shut_down = (\<exists>names. prepare_start env' lib' c = Inr names)\<rparr>"
    | (signal_error) c r m where "provider_error = None" "loaded = Inr c" "validate env lib c = Inr ()"
      "init_logging llib rust_log (cfg_logging c) = Some (Inr r)" "start_servers env' net lib' lib'' c = Inr ()"
      "interrupt = Inl m"
      "p = \<lparr>pe_result = Exits (Inl [''Failed to listen for shutdown signal'', m]), pe_layers = Some (snd r),
             pe_started = True, pe_shut_down = False\<rparr>"
    | (success) c r where "provider_error = None" "loaded = Inr c" "validate env lib c = Inr ()"
      "init_logging llib rust_log (cfg_logging c) = Some (Inr r)" "start_servers env' net lib' lib'' c = Inr ()"
      "interrupt = Inr ()"
      "p = \<lparr>pe_result = Exits (Inr ()), pe_layers = Some (snd r), pe_started = True, pe_shut_down = True\<rparr>"
proof (rule load_and_validate_cases [of provider_error loaded env lib])
  fix e
  assume e: "load_and_validate provider_error loaded env lib = Inl e"
    and h: "hd e \<notin> {''Failed to initialize logging system'', ''Failed to start DNS Proxy Server'', ''Failed to listen for shutdown signal''}"
    and n: "\<nexists>c. provider_error = None \<and> loaded = Inr c \<and> validate env lib c = Inr ()"
  show thesis by (rule load [OF _ h n]) (simp only: p process_main_load_failed [OF e])
next
  fix c
  assume "load_and_validate provider_error loaded env lib = Inr c"
    and c: "provider_error = None" "loaded = Inr c" "validate env lib c = Inr ()"
  note out = process_main_loaded [OF this(1) p]
  show thesis
  proof (cases "init_logging llib rust_log (cfg_logging c)")
    case None
    from log_panic [OF c None out(1) [OF None]] show thesis .
  next
    case (Some x)
    show thesis
    proof (cases x)
      case (Inl e)
      note log = Some [unfolded Inl]
      from log_error [OF c log out(2) [OF log]] show thesis .
    next
      case (Inr r)
      note log = Some [unfolded Inr]
      have log2: "init_logging llib rust_log (cfg_logging c) = Some (Inr (fst r, snd r))" using log by simp
      show thesis
      proof (cases "start_servers env' net lib' lib'' c")
        case (Inl d)
        from start_error [OF c log Inl out(3) [OF log2 Inl]] show thesis .
      next
        case (Inr u)
        then have start: "start_servers env' net lib' lib'' c = Inr ()" by simp
        show thesis
        proof (cases interrupt)
          case (Inl m)
          from signal_error [OF c log start Inl out(4) [OF log2 start Inl]] show thesis .
        next
          case (Inr v)
          then have "interrupt = Inr ()" by simp
          from success [OF c log start this out(5) [OF log2 start this]] show thesis .
        qed
      qed
    qed
  qed
qed

text \<open>It ends well exactly if every step succeeds, and panics only over the file of a rotated log.\<close>

lemma ends_before_start_simps [simp]:
  "pe_result (ends_before_start r) = r" "\<not> pe_started (ends_before_start r)" "\<not> pe_shut_down (ends_before_start r)"
  by (simp_all add: ends_before_start_def)

lemma process_main_Inr_iff:
  assumes "p = process_main provider_error loaded env lib llib rust_log env' net lib' lib'' interrupt"
  shows "pe_result p = Exits (Inr ()) \<longleftrightarrow>
     provider_error = None \<and> interrupt = Inr ()
     \<and> (\<exists>c. loaded = Inr c \<and> validate env lib c = Inr () \<and> log_opens llib (cfg_logging c)
          \<and> start_servers env' net lib' lib'' c = Inr ())"
  by (rule process_main_cases [OF assms])
     (auto simp: init_logging_ok_iff [where rust_log = rust_log, symmetric])

lemma process_main_panic_iff:
  assumes "p = process_main provider_error loaded env lib llib rust_log env' net lib' lib'' interrupt"
  shows "pe_result p = Panics \<longleftrightarrow>
     provider_error = None
     \<and> (\<exists>c. loaded = Inr c \<and> validate env lib c = Inr () \<and> init_logging llib rust_log (cfg_logging c) = None)"
  by (rule process_main_cases [OF assms]) auto

text \<open>What an end leaves behind.\<close>

lemma process_main_leaves:
  assumes "p = process_main provider_error loaded env lib llib rust_log env' net lib' lib'' interrupt"
  shows "pe_result p = Exits (Inr ()) \<Longrightarrow> pe_started p \<and> pe_shut_down p"
    and "pe_result p = Panics \<Longrightarrow> \<not> pe_started p \<and> \<not> pe_shut_down p"
    and "pe_result p = Exits (Inl e) \<Longrightarrow> pe_started p \<longleftrightarrow> hd e = ''Failed to listen for shutdown signal''"
    and "pe_result p = Exits (Inl e) \<Longrightarrow> pe_shut_down p \<longleftrightarrow> hd e = ''Failed to start DNS Proxy Server''
      \<and> (\<exists>c names. loaded = Inr c \<and> prepare_start env' lib' c = Inr names)"
  by (rule process_main_cases [OF assms]; auto)+

subsection \<open>The server starter\<close>

text \<open>
  A helper no other code of the crate uses: it spawns a server and reports it as started, before
  the server has run. The result is the task's log, if it was spawned, and the starter's own.
\<close>

definition start_server ::
    "string \<Rightarrow> server_port_config \<Rightarrow> 'resources \<Rightarrow> ('resources \<Rightarrow> dns_proxy_error + unit) \<Rightarrow> string list option \<times> string list" where
  "start_server name config resources server_future =
     (if \<not> sp_enabled config then (None, [name @ '' server is disabled''])
      else (Some (case server_future resources of
              Inl e \<Rightarrow> [name @ '' server error: '' @ show_error e]
            | Inr _ \<Rightarrow> []),
            [name @ '' server started on '' @ host_port (sp_bind_address config) (sp_port config)]))"

end
