(* ===== verification/Quic_Client.thy ===== *)
theory Quic_Client
  imports Quic_Pool Pool_Concurrency
begin

section \<open>Connecting to an upstream over QUIC (\<open>src/quic/client.rs\<close>, \<open>Http3Session\<close>)\<close>

text \<open>
  \<open>connect_quic_upstream\<close> puts a client configuration together and connects. What \<open>quinn\<close> is
  asked for is an attempt: the local address, the address and name of the peer, the
  application protocols offered and the trust anchors. Building the configuration, opening the
  socket, starting the handshake and its end are parameters.
\<close>

record ('addr, 'anchor) quic_attempt =
  qa_bind :: string
  qa_addr :: 'addr
  qa_server_name :: string
  qa_alpn :: "string list"
  qa_roots :: "'anchor list"
  qa_client_auth :: bool

record ('addr, 'anchor) quic_client_lib =
  qc_is_ipv4 :: "'addr \<Rightarrow> bool"
  qc_config_error :: "'anchor list \<Rightarrow> string list \<Rightarrow> string option"  \<comment> \<open>of \<open>QuicClientConfig::try_from\<close>\<close>
  qc_endpoint_error :: "string \<Rightarrow> string option"
  qc_connect_error :: "('addr, 'anchor) quic_attempt \<Rightarrow> string option"  \<comment> \<open>of starting the handshake\<close>
  qc_handshake :: "('addr, 'anchor) quic_attempt \<Rightarrow> string + nat"

definition quic_bind_addr :: "bool \<Rightarrow> string" where
  "quic_bind_addr ipv4 = (if ipv4 then ''0.0.0.0:0'' else ''[::]:0'')"

text \<open>An error is the outermost text of its chain, which is what the pool shows.\<close>

definition connect_quic_upstream ::
    "('addr, 'anchor) quic_client_lib \<Rightarrow> 'addr \<Rightarrow> string \<Rightarrow> quic_application \<Rightarrow> 'anchor list \<Rightarrow> anyhow_error + nat" where
  "connect_quic_upstream lib addr server_name application roots =
     (let attempt = \<lparr>qa_bind = quic_bind_addr (qc_is_ipv4 lib addr), qa_addr = addr,
            qa_server_name = server_name, qa_alpn = [alpn application], qa_roots = roots, qa_client_auth = False\<rparr>
      in and_then (ensure (qc_config_error lib (qa_roots attempt) (qa_alpn attempt) = None)
                     ''Failed to create QuicClientConfig'') (\<lambda>_.
         and_then (case qc_endpoint_error lib (qa_bind attempt) of None \<Rightarrow> Inr () | Some e \<Rightarrow> Inl e) (\<lambda>_.
         and_then (case qc_connect_error lib attempt of None \<Rightarrow> Inr () | Some e \<Rightarrow> Inl e) (\<lambda>_.
         map_err (\<lambda>_. ''Failed to connect to upstream QUIC server'') (qc_handshake lib attempt)))))"

text \<open>Name resolution and the connection to its first address, as \<open>get\<close> of both pools does it.\<close>

definition resolve_and_connect ::
    "('addr, 'anchor) quic_client_lib \<Rightarrow> string + 'addr list \<Rightarrow> string \<Rightarrow> quic_application \<Rightarrow> 'anchor list \<Rightarrow> dial_result" where
  "resolve_and_connect lib lookup hostname application roots =
     (case lookup of
        Inl e \<Rightarrow> LookupFailed e
      | Inr [] \<Rightarrow> NoAddresses
      | Inr (address # _) \<Rightarrow>
          (case connect_quic_upstream lib address hostname application roots of
             Inl e \<Rightarrow> ConnectFailed e
           | Inr connection \<Rightarrow> Connected connection))"

text \<open>
  A connection that a pool caches was made to the first address of the key's host, with that
  host's name to be verified against the application's trust anchors, and offering the one
  protocol of the key.
\<close>

lemma resolve_and_connect_Connected:
  assumes "resolve_and_connect lib lookup hostname application roots = Connected connection"
  shows "\<exists>address rest. lookup = Inr (address # rest)
    \<and> qc_handshake lib \<lparr>qa_bind = quic_bind_addr (qc_is_ipv4 lib address), qa_addr = address,
         qa_server_name = hostname, qa_alpn = [alpn application], qa_roots = roots, qa_client_auth = False\<rparr>
       = Inr connection"
  using assms
  by (auto simp: resolve_and_connect_def connect_quic_upstream_def Let_def res_simps
      split: sum.splits list.splits)

subsection \<open>An HTTP/3 session\<close>

text \<open>
  A session owns the task that drives its connection. The task clears \<open>alive\<close> when the
  connection is closed; dropping the session aborts it.
\<close>

record h3_session =
  hx_connection :: nat
  hx_alive :: bool
  hx_driver_running :: bool
  hx_dropped :: bool

definition h3_session_init :: "nat \<Rightarrow> h3_session \<Rightarrow> bool" where
  "h3_session_init connection s \<longleftrightarrow>
     s = \<lparr>hx_connection = connection, hx_alive = True, hx_driver_running = True, hx_dropped = False\<rparr>"

inductive h3_session_step :: "h3_session \<Rightarrow> h3_session \<Rightarrow> bool" where
  closed: "hx_driver_running s \<Longrightarrow> h3_session_step s (s\<lparr>hx_alive := False, hx_driver_running := False\<rparr>)"
| dropped: "\<not> hx_dropped s \<Longrightarrow> h3_session_step s (s\<lparr>hx_dropped := True, hx_driver_running := False\<rparr>)"

definition h3_session_inv :: "h3_session \<Rightarrow> bool" where
  "h3_session_inv s \<longleftrightarrow> (hx_driver_running s \<longrightarrow> hx_alive s \<and> \<not> hx_dropped s)
     \<and> (hx_alive s \<and> \<not> hx_dropped s \<longrightarrow> hx_driver_running s)"

interpretation h3_session: inductive_invariant "h3_session_init c" h3_session_step h3_session_inv for c
proof unfold_locales
  fix s
  assume "h3_session_init c s"
  then show "h3_session_inv s" by (simp add: h3_session_init_def h3_session_inv_def)
next
  fix s t
  assume "h3_session_inv s" and "h3_session_step s t"
  from this(2) this(1) show "h3_session_inv t" by cases (auto simp: h3_session_inv_def)
qed

text \<open>As long as someone holds it, a session shows itself alive exactly while its driver runs.\<close>

lemma h3_session_alive_iff:
  assumes "reachable (h3_session_init c) h3_session_step s" and "\<not> hx_dropped s"
  shows "hx_alive s \<longleftrightarrow> hx_driver_running s"
  using h3_session.reachable_inv [OF assms(1)] assms(2) by (auto simp: h3_session_inv_def)

end
