(* ===== verification/Props_Process.thy ===== *)
theory Props_Process
  imports Props_Config Props_Upstream Props_Http Egress Doh_Requests Process Quic_Client
begin

section \<open>Properties: the process, its servers and what they may reach\<close>

subsection \<open>Upstreams\<close>

text \<open>
  C3 No client can make the proxy connect to a host of its own choosing. With a configuration
  that passes validation, put a firewall in front of the upstreams that refuses everything but
  the configured port of hosts strictly under the target suffix: no DoT connection, DoQ stream,
  DoH connection or DoH3 request behaves any differently.
\<close>

theorem egress_firewall_unnoticed:
  assumes ok: "config_ok env c"
  shows "dot_connection_task (dot_firewall (in_zone c) (du_port (up_dot (cfg_upstream c))) dot_env)
        (create_rewriter (cfg_rewrite c)) (du_port (up_dot (cfg_upstream c))) sched elapsed accepted m w
      = dot_connection_task dot_env (create_rewriter (cfg_rewrite c)) (du_port (up_dot (cfg_upstream c)))
        sched elapsed accepted m w
    \<and> (\<forall>target. doq_target (create_rewriter (cfg_rewrite c)) handshake_data = Inr target \<longrightarrow>
        doq_stream_task (doq_firewall (in_zone c) (du_port (up_doq (cfg_upstream c))) doq_env)
          target (du_port (up_doq (cfg_upstream c))) elapsed q v
        = doq_stream_task doq_env target (du_port (up_doq (cfg_upstream c))) elapsed q v)
    \<and> doh_connection_task lib (doh_firewall (in_zone c) (hu_port (up_doh (cfg_upstream c))) doh_env) timeout_text
        (create_rewriter (cfg_rewrite c)) (up_doh (cfg_upstream c)) request_path reqs accepted st u
      = doh_connection_task lib doh_env timeout_text
        (create_rewriter (cfg_rewrite c)) (up_doh (cfg_upstream c)) request_path reqs accepted st u
    \<and> h3_handle_request lib (h3_firewall (in_zone c) (hu_port (up_doh3 (cfg_upstream c))) h3_env) server_io error_io
        (create_rewriter (cfg_rewrite c)) (up_doh3 (cfg_upstream c)) request_path sni elapsed req m t
      = h3_handle_request lib h3_env server_io error_io
        (create_rewriter (cfg_rewrite c)) (up_doh3 (cfg_upstream c)) request_path sni elapsed req m t"
proof -
  let ?rw = "create_rewriter (cfg_rewrite c)"
  note zone = rewritten_in_zone [OF ok]
  have paths: "starts_with (hu_path (up_doh (cfg_upstream c))) ''/''" "starts_with (hu_path (up_doh3 (cfg_upstream c))) ''/''"
    using ok by (simp_all add: config_ok_def paths_ok_def)
  have "in_zone c target" if "doq_target ?rw handshake_data = Inr target" for target
    using that zone by (auto simp: doq_target_def res_simps)
  then show ?thesis
  proof (intro conjI allI impI)
    show "dot_connection_task (dot_firewall (in_zone c) (du_port (up_dot (cfg_upstream c))) dot_env) ?rw
        (du_port (up_dot (cfg_upstream c))) sched elapsed accepted m w
      = dot_connection_task dot_env ?rw (du_port (up_dot (cfg_upstream c))) sched elapsed accepted m w"
      by (rule dot_task_firewall) (rule zone)
    show "doh_connection_task lib (doh_firewall (in_zone c) (hu_port (up_doh (cfg_upstream c))) doh_env) timeout_text
        ?rw (up_doh (cfg_upstream c)) request_path reqs accepted st u
      = doh_connection_task lib doh_env timeout_text ?rw (up_doh (cfg_upstream c)) request_path reqs accepted st u"
      by (rule doh_task_firewall) (rule upstream_uri_allowed [OF ok _ paths(1)])
    show "h3_handle_request lib (h3_firewall (in_zone c) (hu_port (up_doh3 (cfg_upstream c))) h3_env) server_io error_io
        ?rw (up_doh3 (cfg_upstream c)) request_path sni elapsed req m t
      = h3_handle_request lib h3_env server_io error_io ?rw (up_doh3 (cfg_upstream c)) request_path sni elapsed req m t"
      using zone upstream_uri_allowed [OF ok _ paths(2)] by (intro doh3_request_firewall conjI)
  qed (rule doq_task_firewall)
qed

theorem egress_firewall_unnoticed_witness:
  "doq_stream_task (doq_firewall (in_zone sample_app_config) (du_port (up_doq (cfg_upstream sample_app_config))) script_io)
      ''www.example.cn'' (du_port (up_doq (cfg_upstream sample_app_config))) 4
      \<lparr>dq_metrics = metrics_new, dq_closed = None\<rparr> sample_script
    = doq_stream_task script_io ''www.example.cn'' (du_port (up_doq (cfg_upstream sample_app_config))) 4
      \<lparr>dq_metrics = metrics_new, dq_closed = None\<rparr> sample_script
   \<and> \<not> in_zone sample_app_config ''attacker.org''"
proof -
  have "doq_target (create_rewriter (cfg_rewrite sample_app_config)) (Some (Some ''www.example.com'')) = Inr ''www.example.cn''"
    by code_simp
  from egress_firewall_unnoticed [OF sample_config_ok, THEN conjunct2, THEN conjunct1, rule_format, OF this]
  have "doq_stream_task (doq_firewall (in_zone sample_app_config) (du_port (up_doq (cfg_upstream sample_app_config))) script_io)
      ''www.example.cn'' (du_port (up_doq (cfg_upstream sample_app_config))) 4
      \<lparr>dq_metrics = metrics_new, dq_closed = None\<rparr> sample_script
    = doq_stream_task script_io ''www.example.cn'' (du_port (up_doq (cfg_upstream sample_app_config))) 4
      \<lparr>dq_metrics = metrics_new, dq_closed = None\<rparr> sample_script" .
  moreover have "\<not> in_zone sample_app_config ''attacker.org''" by code_simp
  ultimately show ?thesis by blast
qed

subsection \<open>The requests of a DoH connection\<close>

text \<open>
  C7 The requests of an HTTP/2 connection may interleave as they like, and be dropped at any
  time: never more than \<open>max_inflight_requests_per_connection\<close> are being handled and no permit is
  lost, the client pool gains at most the one host the session's name is rewritten to, and every
  answer is one the handler would have given the request on its own.
\<close>

theorem doh_requests_interleaved:
  assumes "reachable (doh_conn_init max_inflight st) (doh_conn_step lib io timeout_text rw endpoint path sni) s"
  shows "dc_permits s + in_progress s = max_inflight
    \<and> pool_names (dc_state s) \<subseteq> pool_names st \<union> session_targets rw sni
    \<and> (\<forall>q \<in> set (dc_requests s). \<forall>response. rq_stage q = Answered response \<longrightarrow>
          handled_alone lib io timeout_text rw endpoint path sni (rq_request q) (rq_begin q) response)"
  using doh_conn.reachable_inv [OF assms] by (fastforce simp: doh_conn_inv_def)

theorem doh_requests_interleaved_witness:
  "\<exists>s q response. reachable (doh_conn_init 1 sample_doh_state)
      (doh_conn_step sample_lib (script_http_io True sample_head) ''5s'' sample_rw sample_endpoint ''/dns-query'' ''a.example.org'') s
    \<and> q \<in> set (dc_requests s) \<and> rq_stage q = Answered response
    \<and> handled_alone sample_lib (script_http_io True sample_head) ''5s'' sample_rw sample_endpoint ''/dns-query''
        ''a.example.org'' (rq_request q) (rq_begin q) response \<and> in_progress s = 0"
proof -
  obtain response st' w' where
    "handle_http_request sample_lib (script_http_io True sample_head) ''5s'' sample_rw sample_endpoint
      ''/dns-query'' ''a.example.org'' 0 9 (sample_request GET good_query) sample_doh_state sample_http_script
     = Some (response, st', w')" using sample_handled by blast
  note run = handler_is_run [OF this, of 0 "[]"]
  let ?q = "\<lparr>rq_request = sample_request GET good_query, rq_begin = sample_http_script, rq_world = w', rq_stage = Answered response\<rparr>"
  have start: "reachable (doh_conn_init 1 sample_doh_state)
      (doh_conn_step sample_lib (script_http_io True sample_head) ''5s'' sample_rw sample_endpoint ''/dns-query'' ''a.example.org'')
      \<lparr>dc_state = sample_doh_state, dc_permits = Suc 0, dc_requests = []\<rparr>"
    by (rule reachable_init) (simp add: doh_conn_init_def)
  note reach = reachable_steps [OF run start]
  have "?q \<in> set (dc_requests (newest [] (Suc 0) st' ?q))" by (simp add: newest_def)
  with doh_requests_interleaved [OF reach] reach show ?thesis by fastforce
qed

subsection \<open>The limits of the application\<close>

text \<open>
  C24 The limits of the configuration are those of the running application: from its start to the
  end of its shutdown, each server has \<open>max_connections_per_listener\<close> permits, free or held by a
  connection task, so all servers together never have more connection tasks than that many for
  each enabled listener, and no connection more than \<open>max_inflight_requests_per_connection\<close>
  stream tasks.
\<close>

theorem application_keeps_limits:
  assumes "reachable (app_started c) shutdown_step s"
  shows "map st_kind (sd_servers s) = enabled_kinds (cfg_servers c)
    \<and> (\<forall>v \<in> set (sd_servers s).
          ln_permits (st_listener v) + size (ln_tasks (st_listener v)) = max_connections_per_listener (cfg_limits c)
          \<and> (\<forall>conn. count (ln_streams (st_listener v)) conn \<le> max_inflight_requests_per_connection (cfg_limits c)))
    \<and> (\<Sum>v\<leftarrow>sd_servers s. size (ln_tasks (st_listener v)))
        \<le> length (enabled_kinds (cfg_servers c)) * max_connections_per_listener (cfg_limits c)"
  using application.reachable_inv [OF assms] application_limits(1) [OF assms]
  by (auto simp: application_inv_def configured_def listener_inv_def)

theorem application_keeps_limits_witness:
  "\<exists>s. reachable (app_started sample_app_config) shutdown_step s
     \<and> map st_kind (sd_servers s) = enabled_kinds (cfg_servers sample_app_config)"
proof -
  have "\<exists>s. reachable (app_started sample_app_config) shutdown_step s"
    by (blast intro: reachable_init [of "app_started sample_app_config"] app_started_def [THEN iffD2])
  then show ?thesis using application_keeps_limits by blast
qed

subsection \<open>Shutdown\<close>

text \<open>
  C11 When \<open>shutdown\<close> has returned no server is running, and no task of a server is left, with
  one exception: a server that closed its own group before the application did and whose tasks
  were not done by the application's deadline. Its \<open>run\<close> was then aborted while its group was
  still waiting, at most one grace period longer.
\<close>

theorem shutdown_stops_servers:
  assumes "reachable shutdown_init shutdown_step s" and "sd_phase s = ShutdownDone" and "v \<in> set (sd_servers s)"
  shows "st_handle v \<noteq> Running
    \<and> (ln_tasks (st_listener v) = {#} \<and> ln_streams (st_listener v) = {#} \<and> ln_watchers (st_listener v) = {#}
       \<or> ln_closed (st_listener v) = Some ByRun \<and> st_handle v = Aborted
         \<and> sd_deadline s \<le> sd_now s \<and> st_deadline v \<le> sd_now s + shutdown_grace)"
  using shutdown_leaves [OF assms] by (auto simp: no_tasks_def)

theorem shutdown_stops_servers_witness:
  "\<exists>v. v \<in> set (sd_servers outlived_shutdown) \<and> ln_tasks (st_listener v) \<noteq> {#} \<and> st_handle v = Aborted
     \<and> sd_now outlived_shutdown < st_deadline v"
proof -
  have phase: "sd_phase outlived_shutdown = ShutdownDone" by (simp add: outlived_shutdown_def)
  obtain v where v: "v \<in> set (sd_servers outlived_shutdown)" "ln_tasks (st_listener v) \<noteq> {#}"
    "sd_now outlived_shutdown < st_deadline v"
    by (simp add: outlived_shutdown_def busy_dot_def)
  with shutdown_stops_servers [OF outlived_shutdown_reachable phase v(1)] show ?thesis by blast
qed

text \<open>
  C16 \<open>shutdown\<close> cannot be held up: from its deadline on, whatever state the servers, their connections
  and their streams are in, and if none of them ever takes a step again, it returns without more
  time passing: until it has, the application or the supervisor of a group has a step to take,
  each such step does some of the work left, which is at most three steps for a server and two
  more, and no step of a server or of the clock adds to it.
\<close>

theorem shutdown_returns_at_deadline:
  assumes "reachable shutdown_init shutdown_step s" and "has_deadline (sd_phase s)" and "sd_deadline s \<le> sd_now s"
  shows "(sd_phase s \<noteq> ShutdownDone \<longrightarrow> (\<exists>t. forced_step s t))
    \<and> (\<forall>t. forced_step s t \<longrightarrow> shutdown_work t < shutdown_work s \<and> sd_now t = sd_now s)
    \<and> (\<forall>t. shutdown_step s t \<longrightarrow> shutdown_work t \<le> shutdown_work s)
    \<and> shutdown_work s \<le> 3 * length (sd_servers s) + 2
    \<and> (\<exists>t. forced_step\<^sup>*\<^sup>* s t \<and> sd_phase t = ShutdownDone \<and> sd_now t = sd_now s)"
  using shutdown.reachable_inv [OF assms(1)] assms(2,3) forced_progress forced_step_work forced_step_clock(2)
    shutdown_step_work shutdown_work_le shutdown_returns
  by blast

theorem shutdown_returns_at_deadline_witness:
  "\<exists>t. forced_step\<^sup>*\<^sup>* (busy_shutdown\<lparr>sd_now := shutdown_grace\<rparr>) t \<and> sd_phase t = ShutdownDone"
proof -
  have "reachable shutdown_init shutdown_step (busy_shutdown\<lparr>sd_now := sd_now busy_shutdown + shutdown_grace\<rparr>)"
    by (rule reachable_steps [OF clock_runs busy_shutdown_reachable])
  then have "reachable shutdown_init shutdown_step (busy_shutdown\<lparr>sd_now := shutdown_grace\<rparr>)"
    by (simp add: busy_shutdown_def)
  from shutdown_returns_at_deadline [OF this] show ?thesis by (auto simp: busy_shutdown_def)
qed

subsection \<open>Logging\<close>


definition sample_log_lib :: "string log_lib" where
  "sample_log_lib = \<lparr>ll_parse = (\<lambda>s. if s = ''debug'' \<or> s = ''info'' then Some s else None), ll_new = id,
     ll_open_append = (\<lambda>_. None), ll_open_daily = (\<lambda>_ _. None)\<rparr>"

text \<open>A host on which no file can be written.\<close>

definition read_only_log_lib :: "string log_lib" where
  "read_only_log_lib = sample_log_lib\<lparr>ll_open_append := (\<lambda>_. Some ''Read-only file system''),
     ll_open_daily := (\<lambda>_ _. Some ''Read-only file system'')\<rparr>"


end
