(* ===== verification/Spec2Isabelle.thy ===== *)
theory Spec2Isabelle
  imports Props_Config Props_Upstream Props_Http Props_Runtime Props_Process
begin

text \<open>
  A model of \<open>dns-ingress\<close>, a proxy for encrypted DNS: it accepts DoT, DoH, DoQ and DoH3 clients,
  rewrites the TLS server name of each to an upstream host name, and relays the DNS messages
  over the same protocol. File names below are relative to \<open>src/\<close> of the crate.

  \<^bold>\<open>Conventions.\<close> Strings are byte strings (one \<^typ>\<open>char\<close> per byte of UTF-8); counters and byte
  counts are \<open>64 word\<close> and wrap as the atomics do; ports and DoQ lengths are \<open>16 word\<close>; \<open>usize\<close>
  limits are \<^typ>\<open>nat\<close>. \<open>Result\<close> is a sum with \<open>Inl\<close> for the error, and every \<open>?\<close>, \<open>bail!\<close> and early
  return is a branch. An operation under \<open>tokio::time::timeout\<close> returns a \<open>timed\<close> value whose
  \<open>Elapsed\<close> is the deadline. Log lines are left out. Sockets, TLS, HTTP and QUIC libraries are
  records of functions (\<open>doq_io\<close>, \<open>dot_io\<close>, \<open>doh_io\<close>, \<open>h3_client_io\<close>, \<open>h3_server_io\<close>, \<open>http_lib\<close>,
  \<open>tls_lib\<close>, \<open>log_lib\<close>, \<open>quic_client_lib\<close>, \<open>validation_env\<close>), over an abstract world where they
  have one; what the code relies on from them are named laws (\<open>reader_law\<close>, \<open>writer_law\<close>,
  \<open>frames_law\<close>, \<open>doq_law\<close>, \<open>dot_law\<close>, \<open>h3_chunks_law\<close>), which the scripted environments of the
  \<open>Props\<close> theories satisfy.

  \<^bold>\<open>Theories.\<close>
  \<open>Prelude\<close>: strings, results, timed input and output, reachability and the locale
  \<open>inductive_invariant\<close>, which every step relation below interprets.
  \<open>Errors\<close> (\<open>error.rs\<close>), \<open>Config\<close> and \<open>Config_Validation\<close> (\<open>config.rs\<close>): the configuration records with
  their defaults, the host name grammar, the rejection of removed fields, and \<open>validate\<close> with
  its declarative specification \<open>config_ok\<close>.
  \<open>Rewriter\<close> (\<open>rewriters/base.rs\<close>, \<open>rewrite.rs\<close>, \<open>sni.rs\<close>): the rewriter, and the locale
  \<open>sni_rewriter\<close> with the laws its clients rely on (targets are host names of one zone).
  \<open>Tls_Utils\<close> (\<open>tls_utils.rs\<close>): root stores, certificate loading and certificate selection.
  \<open>Backoff\<close> (\<open>utils/backoff.rs\<close>) and \<open>Metrics\<close> (\<open>metrics.rs\<close>).
  \<open>Quic_Pool\<close> (\<open>upstream/quic_pool.rs\<close>): the bounded session pools, operation by operation;
  \<open>Pool_Accounting\<close> has the contract of their slots as the locale \<open>slot_accounting\<close>,
  \<open>Pool_Concurrency\<close> the interleaving of the critical sections of any number of calls,
  \<open>Pool_Behaviour\<close> what single operations do, \<open>Pool_Refinement\<close> that an uninterrupted call is a
  run of the interleaved system.
  \<open>Http_Pool\<close> (\<open>upstream/pool.rs\<close>): the pool of HTTP clients, alone and interleaved.
  \<open>Streams\<close>, \<open>Doq_Forward\<close> and \<open>Doq_Correct\<close> (\<open>forward_quic_stream\<close> of \<open>upstream/quic.rs\<close>): DoQ frames
  and one transaction. \<open>Doq_Server\<close> (\<open>readers/doq.rs\<close>): the events of a DoQ connection.
  \<open>Dot\<close> (\<open>readers/dot.rs\<close>): connecting and the bidirectional relay.
  \<open>Doh_Common\<close> (\<open>proxy/http.rs\<close>, \<open>utils.rs\<close>), \<open>Doh\<close> and \<open>Doh_Correct\<close> (\<open>proxy/http.rs\<close>,
  \<open>upstream/http.rs\<close>), \<open>Doh3\<close> and \<open>Doh3_Correct\<close> (\<open>readers/doh3.rs\<close>, \<open>forward_http3_request\<close>).
  \<open>Healthcheck\<close> (\<open>readers/healthcheck.rs\<close>), \<open>Listener\<close> (the accept loops in \<open>run\<close> of all readers
  and the stream loops of DoQ and DoH3), \<open>Connections\<close> (the connection tasks of the readers),
  \<open>Tasks\<close> and \<open>Task_Spec\<close> (\<open>tasks.rs\<close>), \<open>App\<close> (\<open>app.rs\<close>) and \<open>Server_Start\<close> (\<open>run\<close> of all readers
  up to the accept loop, \<open>quic/config.rs\<close>, and \<open>App::start\<close> over them).
  \<open>Doh_Requests\<close> (the service of \<open>readers/doh.rs\<close>): the requests of one connection, interleaved.
  \<open>Quic_Client\<close> (\<open>quic/client.rs\<close> and the session type of \<open>quic_pool.rs\<close>), \<open>Logging\<close>
  (\<open>logging.rs\<close>), \<open>Shutdown\<close> (\<open>App::shutdown\<close> over the listeners, with its deadlines), \<open>Servers\<close> (the
  constructors of the application and its servers, and the limits the configuration gives
  them), \<open>Process\<close> (\<open>main.rs\<close>, \<open>server.rs\<close>). \<open>Egress\<close>: which hosts the servers can contact, stated
  with a firewall in front of their environments.

  \<^bold>\<open>What the lemmas show.\<close> The \<open>Props\<close> theories hold the properties, each with an instance.
  \<open>Props_Config\<close>: validation, rewriting, certificate selection, backoff.
  \<open>Props_Upstream\<close>: capacity of the session pools under any interleaving, refusal, eviction, no
  leak; the HTTP client pool, bounded for one caller and unbounded for two, and blocked when
  full if the map excludes a removal under a live iterator; DoQ framing and transactions.
  \<open>Props_Http\<close>: which requests pass, what is sent upstream, what is answered and counted, and
  where DoH3 differs. \<open>Props_Runtime\<close>: relaying, tasks, what listeners bound and what they do
  not, and readiness. \<open>Props_Process\<close>: that only hosts of the configured zone are contacted, the
  interleaved requests of a DoH connection, the limits of the whole application, what shutdown
  leaves behind and that it returns, and logging. This theory: when the application starts,
  what a failed start reports, that a DoH connection stays with the name of its TLS session,
  what a DoQ stream does to its connection, and when the process ends well.

  \<^bold>\<open>Schedules and fuel.\<close> There is no fuel. Loops that read until a peer ends its stream are
  \<open>partial_function (option)\<close>, and that they return is part of the statements. The two
  directions of a DoT connection run under a schedule, a list of turns: a direction with \<open>n\<close>
  bytes needs at most \<open>n + 1\<close> turns, one read of at least a byte each and one to see the end.
  Concurrency elsewhere is a step relation whose steps are the atomic sections of the code.

  Deadlines of shutdown are points of a clock that a step may advance; an expired one can be
  acted on at any time from then on.

  \<^bold>\<open>Not modelled.\<close> The lines that are logged (where they go is), deserialisation of TOML beyond the
  rejection of removed fields, what the libraries do behind the parameters (among them the tasks
  \<open>hyper\<close> spawns for the streams of an HTTP/2 connection: here a request's future is handled or
  dropped), the unit tests, the re-exports of the \<open>mod.rs\<close> files and \<open>lib.rs\<close>, and the memory
  ordering of atomics (steps are sequentially consistent).
\<close>

section \<open>Properties that span components\<close>

subsection \<open>Starting the application\<close>

text \<open>A configuration with all servers but the two QUIC ones, on a host where everything loads and binds.\<close>

definition sample_tls_lib :: "(unit, unit, unit, unit) tls_lib" where
  "sample_tls_lib = \<lparr>tl_webpki_roots = [], tl_native_certs = [], tl_to_anchor = (\<lambda>_. Inr ()),
     tl_read_file = (\<lambda>_. Inr []), tl_pem_certs = (\<lambda>_. Inr [()]), tl_pem_first_key = (\<lambda>_. Some (Inr ())),
     tl_signing_key = (\<lambda>_. Inr ())\<rparr>"

definition sample_net_lib :: "(nat, string) net_lib" where
  "sample_net_lib = \<lparr>nl_bind_tcp = Inr, nl_parse_error = (\<lambda>_. ''invalid socket address syntax''),
     nl_quic_config = (\<lambda>_. Inr ()), nl_bind_udp = (\<lambda>_. Inr ''udp'')\<rparr>"

definition broken_tls_lib :: "(unit, unit, unit, unit) tls_lib" where
  "broken_tls_lib = sample_tls_lib\<lparr>tl_read_file := (\<lambda>_. Inl ''gone'')\<rparr>"

definition busy_net_lib :: "(nat, string) net_lib" where
  "busy_net_lib = sample_net_lib\<lparr>nl_bind_tcp := (\<lambda>_. Inl ''Address already in use''),
     nl_bind_udp := (\<lambda>_. Inl ''Address already in use'')\<rparr>"

lemma sample_certificates:
  "certificate_resolver_new sample_tls_lib (cfg_tls sample_app_config)
     = Inr \<lparr>cr_certs = [], cr_default = Some \<lparr>ck_certs = [()], ck_signing_key = ()\<rparr>\<rparr>"
  by (simp add: sample_app_config_def default_app_config_def default_tls_def certificate_resolver_new_def
      load_certificate_def sample_tls_lib_def map_err_def ensure_def ok_or_def)

lemma broken_certificates:
  "certificate_resolver_new broken_tls_lib (cfg_tls sample_app_config)
     = Inl (Certificate (LoadFailed ''cert.pem'' ''Failed to read: gone''))"
  by (simp add: sample_app_config_def default_app_config_def default_tls_def certificate_resolver_new_def
      load_certificate_def broken_tls_lib_def map_err_def)

lemma sample_roots:
  "load_upstream_root_store sample_tls_lib (upstream_ca_file (cfg_tls sample_app_config)) = Inr []"
  by (simp add: sample_app_config_def default_app_config_def default_tls_def load_upstream_root_store_def
      create_upstream_root_store_def add_roots_def sample_tls_lib_def)

lemma sample_sockets: "sockets_bind sample_env sample_net_lib sample_app_config"
  by (simp add: sockets_bind_def all_all_listeners listener_binds_def port_listener_def healthcheck_listener_def
      sample_net_lib_def sample_app_config_def default_app_config_def default_healthcheck_def
      sample_env_def host_port_def show_nat_ports)

lemma sample_prepared: "\<exists>names. prepare_start sample_env sample_tls_lib sample_app_config = Inr names"
  using prepare_start_Inr_iff [of sample_env sample_tls_lib sample_app_config] sample_config_ok sample_roots
    sample_certificates by blast

text \<open>
  C6 The application starts exactly if it can: \<open>start\<close> returns success if and only if the
  configuration satisfies its specification, the trust store loads, the certificates load, both
  when they are checked and when the servers read them again (unless there is no DNS listener),
  and every enabled listener's socket can be bound.
\<close>

theorem starts_iff_possible:
  "start_servers env net lib lib' c = Inr () \<longleftrightarrow>
     config_ok env c \<and> (\<exists>roots. load_upstream_root_store lib (upstream_ca_file (cfg_tls c)) = Inr roots)
     \<and> (any_dns_listener (cfg_servers c) \<longrightarrow> (\<exists>r. certificate_resolver_new lib (cfg_tls c) = Inr r)
           \<and> (\<exists>r. certificate_resolver_new lib' (cfg_tls c) = Inr r))
     \<and> (\<forall>l \<in> set (all_listeners c). ls_enabled l \<longrightarrow> listener_binds env net l)"
  using start_servers_Inr_iff unfolding sockets_bind_def .

theorem starts_iff_possible_witness:
  "start_servers sample_env sample_net_lib sample_tls_lib sample_tls_lib sample_app_config = Inr ()"
  unfolding starts_iff_possible
  using sample_config_ok sample_roots sample_certificates sample_sockets [unfolded sockets_bind_def] by blast



text \<open>
  C39 Certificates lost between the check and the servers: what the operator is told depends on
  the first DNS server enabled. DoT passes the reason on, DoH only says that it exited before
  reporting (it loads its certificates after binding and leaves the channel unused), and the
  QUIC servers say that they could not create their TLS configuration, without the reason.
\<close>

theorem lost_certificate_messages:
  assumes "prepare_start env lib c = Inr names" and "any_dns_listener (cfg_servers c)"
    and "certificate_resolver_new lib' (cfg_tls c) = Inl e" and "sockets_bind env net c"
  shows "start_servers env net lib lib' c = Inl (
    if sp_enabled (srv_dot (cfg_servers c)) then Tls (show_error (Tls (show_error e)))
    else if sp_enabled (srv_doh (cfg_servers c))
         then Protocol ''DoH server exited before reporting listener readiness''
    else Protocol ''Failed to create TLS server config'')"
proof -
  have ok: "config_ok env c" using assms(1) prepare_start_Inr_iff [of env lib c] by blast
  note sockets = assms(4) [unfolded sockets_bind_def all_all_listeners ls_enabled_simps]
  have udp: "fst (quic_setup env net lib' c sc application)
      = BindError (Protocol ''Failed to create TLS server config'')"
    if "sp_enabled sc" and "listener_binds env net (port_listener n ''udp'' sc)" for n sc application
    using lost_certificates(3) [OF assms(3) that(1)] that(2)
    by (auto simp: listener_binds_def port_listener_def Let_def)
  have health: "hc_enabled (srv_healthcheck (cfg_servers c)) \<Longrightarrow> fst (healthcheck_setup net c) = Bound"
    using healthcheck_setup_Bound_iff [of c net env] sockets by blast
  note lost = lost_certificates(1) [OF assms(3), where net = net]
    lost_certificates(2) [OF assms(3), where net = net and env = env]
  show ?thesis
    using assms(1,2) sockets health lost udp
    by (auto simp: start_servers_eq spawned_servers_def spawn_server_def doq_setup_def doh3_setup_def
        any_dns_listener_def)
qed

theorem lost_certificate_messages_witness:
  "start_servers sample_env sample_net_lib sample_tls_lib broken_tls_lib sample_app_config
     = Inl (Tls (''TLS error: Certificate error: Failed to load certificate from cert.pem: Failed to read: gone''))"
proof -
  obtain names where "prepare_start sample_env sample_tls_lib sample_app_config = Inr names"
    using sample_prepared by blast
  from lost_certificate_messages [OF this _ broken_certificates sample_sockets] show ?thesis
    by (simp add: sample_app_config_def default_app_config_def any_dns_listener_def)
qed

subsection \<open>A DoH connection\<close>

text \<open>
  C12 A DoH connection is confined to the name of its TLS session: every request is answered, and
  over the whole connection the proxy sends at most one upstream request per request of the
  client, each of them to the host the name of the session is rewritten to, at the configured
  port and path: the request's URI names that host and port as its authority, its host header is
  that host, and no other host name is added to the client pool. If the name is not rewritten,
  nothing is sent, every answer is a client error and neither the pool nor the metrics nor any
  upstream sees the connection. \<open>sent\<close> is any log of the requests the environment sends.
\<close>

theorem doh_connection_confined:
  assumes "doh_connection_task lib io timeout_text rw endpoint request_path reqs (HandshakeDone (Some sni)) st w
    = Some (responses, st', w')"
    and "logs_sends io sent"
  shows "length responses = length reqs
    \<and> (\<exists>new. sent w' = sent w @ new \<and> length new \<le> length reqs
          \<and> (\<forall>req \<in> set new. \<exists>r v query. rewrite rw (to_ascii_lowercase sni) = Some r
                \<and> ob_uri req = ''https://'' @ rr_target_hostname r @ '':'' @ show_nat (unat (hu_port endpoint))
                    @ hu_path endpoint @ query \<and> (query = [] \<or> hd query = CHR ''?'')
                \<and> map_of (ob_headers req) ''host'' = Some v \<and> hl_header_value lib (rr_target_hostname r) = Inr v))
    \<and> (\<forall>name \<in> pool_names st'. name \<in> pool_names st
          \<or> (\<exists>r. rewrite rw (to_ascii_lowercase sni) = Some r \<and> name = rr_target_hostname r))
    \<and> (rewrite rw (to_ascii_lowercase sni) = None
         \<longrightarrow> st' = st \<and> w' = w \<and> (\<forall>r \<in> set responses. resp_status r \<in> {400, 404, 405, 415}))"
proof (intro conjI)
  have serve: "doh_serve lib io timeout_text rw endpoint request_path (to_ascii_lowercase sni) reqs st w
      = Some (responses, st', w')"
    using assms(1) by (simp add: doh_connection_task_def)
  note confined = doh_serve_confined [OF serve]
  show "length responses = length reqs" and "\<forall>name \<in> pool_names st'. name \<in> pool_names st
          \<or> (\<exists>r. rewrite rw (to_ascii_lowercase sni) = Some r \<and> name = rr_target_hostname r)"
    and "rewrite rw (to_ascii_lowercase sni) = None
         \<longrightarrow> st' = st \<and> w' = w \<and> (\<forall>r \<in> set responses. resp_status r \<in> {400, 404, 405, 415})"
    using confined by (auto split: option.splits)
  show "\<exists>new. sent w' = sent w @ new \<and> length new \<le> length reqs
          \<and> (\<forall>req \<in> set new. \<exists>r v query. rewrite rw (to_ascii_lowercase sni) = Some r
                \<and> ob_uri req = ''https://'' @ rr_target_hostname r @ '':'' @ show_nat (unat (hu_port endpoint))
                    @ hu_path endpoint @ query \<and> (query = [] \<or> hd query = CHR ''?'')
                \<and> map_of (ob_headers req) ''host'' = Some v \<and> hl_header_value lib (rr_target_hostname r) = Inr v)"
    using doh_serve_sends [OF serve assms(2)] unfolding goes_to_def by meson
qed

theorem doh_connection_confined_witness:
  "\<exists>responses st' w' sent. doh_connection_task sample_lib (recording (script_http_io True sample_head)) ''5s''
      sample_rw sample_endpoint ''/dns-query'' [(0, 9, sample_request GET good_query)]
      (HandshakeDone (Some ''A.example.org'')) sample_doh_state (sample_http_script, []) = Some (responses, st', w', sent)
    \<and> length sent \<le> 1 \<and> (\<forall>req \<in> set sent. \<exists>query. ob_uri req = ''https://a.example.cn:443/dns-query'' @ query)
    \<and> pool_names st' \<subseteq> {''a.example.cn''}"
proof -
  let ?io = "recording (script_http_io True sample_head)"
  let ?w = "(sample_http_script, [] :: outbound_request list)"
  have sni: "to_ascii_lowercase ''A.example.org'' = ''a.example.org''" by code_simp
  have body: "doh_request_body ?io (req_method (sample_request GET good_query)) ?w = Some (Inr [], ?w)"
    by (simp add: doh_request_body_def)
  have sent: "dh_send ?io c rq x = (sample_head, fst x, snd x @ [rq])" for c rq x
    by (simp add: recording_def script_http_io_def)
  have frames: "frames_law (dh_response_frame ?io) (\<lambda>x. hw_response (fst x))"
    using recording_frames_law [OF script_frames_law(2)] by (simp add: recording_def)
  have target: "rr_target_hostname sample_result = ''a.example.cn''" by (simp add: sample_result_def)
  obtain response st' w' where
    "handle_http_request sample_lib ?io ''5s'' sample_rw sample_endpoint ''/dns-query'' ''a.example.org'' 0 9
       (sample_request GET good_query) sample_doh_state ?w = Some (response, st', w')"
    using handle_http_request_answer [where tt = "''5s''" and elapsed = 9 and endpoint = sample_endpoint,
        OF sample_guards(1) body, unfolded target, OF sample_client refl sample_built sent frames] by blast
  then have task: "doh_connection_task sample_lib ?io ''5s'' sample_rw sample_endpoint ''/dns-query''
      [(0, 9, sample_request GET good_query)] (HandshakeDone (Some ''A.example.org'')) sample_doh_state ?w
    = Some ([response], st', w')"
    by (simp add: doh_connection_task_def sni)
  have port: "show_nat (unat (hu_port sample_endpoint)) = ''443''" and path: "hu_path sample_endpoint = ''/dns-query''"
    by code_simp+
  have "pool_names sample_doh_state = {}"
    by (simp add: pool_names_def sample_doh_state_def with_max_clients_and_root_store_def connection_pool_new_def
        with_config_def)
  then show ?thesis
    using task doh_connection_confined [OF task recording_logs]
    by (cases w') (auto simp: sni sample_rewrite target port path)
qed

subsection \<open>A DoQ stream, end to end\<close>

lemma doq_event_failed:
  assumes "dq_closed c = None"
  shows "doq_event_step (StreamEnded (Inl (Protocol m)) elapsed) c
    = c\<lparr>dq_metrics := record_upstream_error (record_request False 0 0 elapsed (dq_metrics c)),
        dq_closed := Some (2, ''DoQ protocol error'')\<rparr>"
  using assms by (simp add: close_connection_def Let_def)

lemma doq_stream_failed:
  assumes "doq_law io target port client_src up_src client_sink up_sink"
    and "client_src w = (cdata, ce)" "up_src w = (data, e)" "ce \<noteq> Silent" "e \<noteq> Silent" "dq_closed c = None"
    and err: "forward_quic_stream io target port w = Some (Inl err, w')"
  shows "doq_stream_task io target port elapsed c w = Some (
      c\<lparr>dq_metrics := record_upstream_error (record_request False 0 0 elapsed (dq_metrics c)),
        dq_closed := Some (2, ''DoQ protocol error'')\<rparr>, w')"
proof -
  obtain m where "err = Protocol m"
    using doq_transaction_protocol [OF assms(1) _ _ err] assms(2-5) by auto
  then show ?thesis
    by (simp only: doq_stream_task_def err option.case prod.case doq_event_failed [OF assms(6)])
qed



subsection \<open>The process\<close>



end
